(* ===== verification/Prelude.thy ===== *)
theory Prelude
  imports Main "HOL-Library.Word"
begin

text \<open>
  Shared vocabulary of the development: Rust strings, chars and bytes, the panics of string
  slicing, and fallible results. A Rust \<open>String\<close> or \<open>&str\<close> is the list of its Unicode scalar
  values (\<open>rstr\<close>); \<open>as_bytes\<close> is its UTF-8 encoding and \<open>blen\<close> is \<open>str::len\<close>, which
  counts bytes. An operation that can panic returns an \<open>option\<close>, \<open>None\<close> being the panic.
  An operation that can fail returns \<open>'e + 'a\<close>, \<open>Inl\<close> being \<open>Err\<close>.
\<close>

section \<open>Machine integers, chars and strings\<close>

type_synonym u8 = "8 word"
type_synonym u32 = "32 word"
type_synonym u64 = "64 word"
type_synonym rchar = nat
type_synonym rstr = "rchar list"

named_theorems rust_str \<open>facts about Rust strings, chars and their bytes\<close>
named_theorems rust_res \<open>facts about fallible results\<close>

text \<open>A string literal of the source.\<close>

definition lit :: "string \<Rightarrow> rstr" where
  "lit s = map of_char s"

lemma lit_eq_iff [simp]: "lit s = lit t \<longleftrightarrow> s = t"
  by (simp add: lit_def inj_map_eq_map inj_def)

lemma length_lit [simp]: "length (lit s) = length s"
  by (simp add: lit_def)

lemma lit_Nil_iff [simp]: "lit s = [] \<longleftrightarrow> s = []"
  by (simp add: lit_def)

definition is_ascii_digit :: "rchar \<Rightarrow> bool" where
  "is_ascii_digit c \<longleftrightarrow> 48 \<le> c \<and> c \<le> 57"

definition is_ascii_lowercase :: "rchar \<Rightarrow> bool" where
  "is_ascii_lowercase c \<longleftrightarrow> 97 \<le> c \<and> c \<le> 122"

definition is_ascii_uppercase :: "rchar \<Rightarrow> bool" where
  "is_ascii_uppercase c \<longleftrightarrow> 65 \<le> c \<and> c \<le> 90"

text \<open>\<open>char::is_whitespace\<close>: the Unicode \<open>White_Space\<close> property.\<close>

definition is_whitespace :: "rchar \<Rightarrow> bool" where
  "is_whitespace c \<longleftrightarrow> (9 \<le> c \<and> c \<le> 13) \<or> c = 32 \<or> c = 133 \<or> c = 160 \<or> c = 5760
     \<or> (8192 \<le> c \<and> c \<le> 8202) \<or> c = 8232 \<or> c = 8233 \<or> c = 8239 \<or> c = 8287 \<or> c = 12288"

text \<open>\<open>char::to_digit(10)\<close>.\<close>

definition to_digit10 :: "rchar \<Rightarrow> nat option" where
  "to_digit10 c = (if is_ascii_digit c then Some (c - 48) else None)"

lemmas ascii_class_defs = is_ascii_digit_def is_ascii_lowercase_def is_ascii_uppercase_def

lemma is_ascii_digit_lt [rust_str]: "is_ascii_digit c \<Longrightarrow> c < 128"
  by (simp add: is_ascii_digit_def)

subsection \<open>UTF-8\<close>

definition utf8 :: "rchar \<Rightarrow> u8 list" where
  "utf8 c =
     (if c < 128 then [of_nat c]
      else if c < 2048 then [of_nat (192 + c div 64), of_nat (128 + c mod 64)]
      else if c < 65536 then
        [of_nat (224 + c div 4096), of_nat (128 + c div 64 mod 64), of_nat (128 + c mod 64)]
      else
        [of_nat (240 + c div 262144), of_nat (128 + c div 4096 mod 64),
         of_nat (128 + c div 64 mod 64), of_nat (128 + c mod 64)])"

definition as_bytes :: "rstr \<Rightarrow> u8 list" where
  "as_bytes s = concat (map utf8 s)"

definition blen :: "rstr \<Rightarrow> nat" where
  "blen s = length (as_bytes s)"

definition is_ascii :: "rstr \<Rightarrow> bool" where
  "is_ascii s \<longleftrightarrow> (\<forall>c \<in> set s. c < 128)"

lemma utf8_ascii [simp]: "c < 128 \<Longrightarrow> utf8 c = [of_nat c]"
  by (simp add: utf8_def)

lemma utf8_length_pos [simp]: "0 < length (utf8 c)"
  by (simp add: utf8_def)

lemma blen_Nil [simp]: "blen [] = 0"
  by (simp add: blen_def as_bytes_def)

lemma blen_Cons [simp]: "blen (c # s) = length (utf8 c) + blen s"
  by (simp add: blen_def as_bytes_def)

lemma blen_append [simp]: "blen (s @ t) = blen s + blen t"
  by (induction s) auto

lemma as_bytes_simps [simp]:
  "as_bytes [] = []" "as_bytes (c # s) = utf8 c @ as_bytes s"
  "as_bytes (s @ t) = as_bytes s @ as_bytes t"
  by (simp_all add: as_bytes_def)

lemma is_ascii_simps [simp]:
  "is_ascii []" "is_ascii (c # s) \<longleftrightarrow> c < 128 \<and> is_ascii s"
  "is_ascii (s @ t) \<longleftrightarrow> is_ascii s \<and> is_ascii t"
  by (auto simp: is_ascii_def)

lemma is_ascii_lit [simp]: "list_all (\<lambda>c. of_char c < (128::nat)) s \<Longrightarrow> is_ascii (lit s)"
  by (auto simp: is_ascii_def lit_def list_all_iff)

lemma blen_ascii [rust_str]: "is_ascii s \<Longrightarrow> blen s = length s"
  by (induction s) auto

lemma blen_ge_length: "length s \<le> blen s"
proof (induction s)
  case (Cons c s)
  have "Suc 0 \<le> length (utf8 c)" using utf8_length_pos [of c] by linarith
  with Cons show ?case by (simp del: utf8_length_pos length_greater_0_conv)
qed simp

lemma as_bytes_ascii [rust_str]: "is_ascii s \<Longrightarrow> as_bytes s = map of_nat s"
  by (induction s) auto

lemma blen_0_iff [simp]: "blen s = 0 \<longleftrightarrow> s = []"
  using blen_ge_length [of s] by (cases s) auto

lemma blen_cut: "u @ v = u' @ v' \<Longrightarrow> blen u = blen u' \<Longrightarrow> u = u' \<and> v = v'"
  by (auto simp: append_eq_append_conv2)

text \<open>\<open>std::str::from_utf8\<close>: shortest forms only, no surrogates, at most U+10FFFF.\<close>

definition cont :: "u8 \<Rightarrow> bool" where
  "cont b \<longleftrightarrow> 128 \<le> unat b \<and> unat b < 192"

fun from_utf8 :: "u8 list \<Rightarrow> rstr option" where
  "from_utf8 [] = Some []"
| "from_utf8 (a # bs) =
     (let x = unat a
      in if x < 128 then map_option ((#) x) (from_utf8 bs)
         else if 194 \<le> x \<and> x < 224 then
           (case bs of
              b # bs' \<Rightarrow> if cont b then map_option ((#) ((x - 192) * 64 + (unat b - 128))) (from_utf8 bs') else None
            | [] \<Rightarrow> None)
         else if 224 \<le> x \<and> x < 240 then
           (case bs of
              b # c # bs' \<Rightarrow>
                let v = (x - 224) * 4096 + (unat b - 128) * 64 + (unat c - 128)
                in if cont b \<and> cont c \<and> 2048 \<le> v \<and> \<not> (55296 \<le> v \<and> v < 57344)
                   then map_option ((#) v) (from_utf8 bs') else None
            | _ \<Rightarrow> None)
         else if 240 \<le> x \<and> x < 245 then
           (case bs of
              b # c # d # bs' \<Rightarrow>
                let v = (x - 240) * 262144 + (unat b - 128) * 4096 + (unat c - 128) * 64 + (unat d - 128)
                in if cont b \<and> cont c \<and> cont d \<and> 65536 \<le> v \<and> v < 1114112
                   then map_option ((#) v) (from_utf8 bs') else None
            | _ \<Rightarrow> None)
         else None)"

lemma unat_of_nat_small: "n < 2 ^ LENGTH('a::len) \<Longrightarrow> unat (of_nat n :: 'a word) = n"
  by (simp add: unsigned_of_nat take_bit_nat_eq_self)

lemma from_utf8_ascii: "is_ascii s \<Longrightarrow> from_utf8 (as_bytes s) = Some s"
proof (induction s)
  case (Cons c s)
  then have c: "c < 128" by simp
  then have "unat (of_nat c :: u8) = c" by (intro unat_of_nat_small) simp
  with c Cons show ?case by (simp add: Let_def)
qed simp

subsection \<open>Slicing: \<open>split_at\<close>, \<open>&s[n..]\<close>, \<open>&s[..n]\<close>\<close>

text \<open>
  \<open>str::split_at\<close> at a byte index panics when the index is past the end or not on a char
  boundary. The indexed slices are its two halves.
\<close>

fun split_at_byte :: "nat \<Rightarrow> rstr \<Rightarrow> (rstr \<times> rstr) option" where
  "split_at_byte 0 s = Some ([], s)"
| "split_at_byte (Suc n) [] = None"
| "split_at_byte (Suc n) (c # s) =
     (if length (utf8 c) \<le> Suc n
      then map_option (\<lambda>(a, b). (c # a, b)) (split_at_byte (Suc n - length (utf8 c)) s)
      else None)"

definition slice_from :: "nat \<Rightarrow> rstr \<Rightarrow> rstr option" where
  "slice_from n s = map_option snd (split_at_byte n s)"

definition slice_to :: "nat \<Rightarrow> rstr \<Rightarrow> rstr option" where
  "slice_to n s = map_option fst (split_at_byte n s)"

lemma split_at_byte_append [simp]: "split_at_byte (blen a) (a @ b) = Some (a, b)"
proof (induction a)
  case (Cons c a)
  obtain n where n: "length (utf8 c) = Suc n"
    using utf8_length_pos [of c] by (cases "length (utf8 c)") auto
  show ?case using Cons by (simp add: n)
qed simp

lemma split_at_byte_Some: "split_at_byte n s = Some (a, b) \<Longrightarrow> s = a @ b \<and> n = blen a"
  by (induction n s arbitrary: a b rule: split_at_byte.induct) (auto split: if_splits)

lemma split_at_byte_ascii [rust_str]:
  assumes "is_ascii s" "n \<le> length s"
  shows "split_at_byte n s = Some (take n s, drop n s)"
proof -
  have "is_ascii (take n s)" using assms(1) by (auto simp: is_ascii_def dest: in_set_takeD)
  then have "blen (take n s) = n" using assms(2) by (simp add: blen_ascii)
  with split_at_byte_append [of "take n s" "drop n s"] show ?thesis by simp
qed

lemma slice_from_ascii [rust_str]:
  "is_ascii s \<Longrightarrow> n \<le> length s \<Longrightarrow> slice_from n s = Some (drop n s)"
  by (simp add: slice_from_def split_at_byte_ascii)

lemma slice_to_ascii [rust_str]:
  "is_ascii s \<Longrightarrow> n \<le> length s \<Longrightarrow> slice_to n s = Some (take n s)"
  by (simp add: slice_to_def split_at_byte_ascii)

text \<open>\<open>&s[s.len() - k..]\<close>: the subtraction on \<open>usize\<close> fails when the string is shorter.\<close>

definition slice_last :: "nat \<Rightarrow> rstr \<Rightarrow> rstr option" where
  "slice_last k s = (if blen s < k then None else slice_from (blen s - k) s)"

lemma slice_last_ascii [rust_str]:
  "is_ascii s \<Longrightarrow> k \<le> length s \<Longrightarrow> slice_last k s = Some (drop (length s - k) s)"
  by (simp add: slice_last_def blen_ascii slice_from_ascii)

text \<open>\<open>to_string\<close> of an unsigned integer.\<close>

fun show_nat :: "nat \<Rightarrow> rstr" where
  "show_nat n = (if n < 10 then [48 + n] else show_nat (n div 10) @ [48 + n mod 10])"

declare show_nat.simps [simp del]

section \<open>Fallible results\<close>

text \<open>The \<open>?\<close> operator on \<open>Result\<close>, and \<open>map_err\<close>.\<close>

definition res_bind :: "'e + 'a \<Rightarrow> ('a \<Rightarrow> 'e + 'b) \<Rightarrow> 'e + 'b" where
  "res_bind r f = (case r of Inl e \<Rightarrow> Inl e | Inr a \<Rightarrow> f a)"

definition map_err :: "('e \<Rightarrow> 'f) \<Rightarrow> 'e + 'a \<Rightarrow> 'f + 'a" where
  "map_err g r = (case r of Inl e \<Rightarrow> Inl (g e) | Inr a \<Rightarrow> Inr a)"

definition ok_or :: "'e \<Rightarrow> 'a option \<Rightarrow> 'e + 'a" where
  "ok_or e x = (case x of None \<Rightarrow> Inl e | Some a \<Rightarrow> Inr a)"

lemma res_bind_simps [simp]: "res_bind (Inl e) f = Inl e" "res_bind (Inr a) f = f a"
  by (simp_all add: res_bind_def)

lemma map_err_simps [simp]: "map_err g (Inl e) = Inl (g e)" "map_err g (Inr a) = Inr a"
  by (simp_all add: map_err_def)

lemma ok_or_simps [simp]: "ok_or e None = Inl e" "ok_or e (Some a) = Inr a"
  by (simp_all add: ok_or_def)

lemma res_bind_Inr_iff [rust_res]:
  "res_bind r f = Inr b \<longleftrightarrow> (\<exists>a. r = Inr a \<and> f a = Inr b)"
  by (cases r) auto

lemma res_bind_Inl_iff [rust_res]:
  "res_bind r f = Inl e \<longleftrightarrow> r = Inl e \<or> (\<exists>a. r = Inr a \<and> f a = Inl e)"
  by (cases r) auto

section \<open>Arithmetic and lists\<close>

lemma mod_cancel_left:
  assumes "((n::nat) + x) mod m = 0" "(n + y) mod m = 0"
  shows "x mod m = y mod m"
proof -
  from assms have "(int n + int x) mod int m = (int n + int y) mod int m"
    by (metis of_nat_add of_nat_mod)
  then have "int x mod int m = int y mod int m" by (simp add: mod_eq_dvd_iff)
  then show ?thesis by (metis of_nat_eq_iff of_nat_mod)
qed

lemma mod_add_cancel:
  assumes "((r::nat) + x) mod m = (r + y) mod m"
  shows "x mod m = y mod m"
proof -
  from assms have "(int r + int x) mod int m = (int r + int y) mod int m"
    by (metis of_nat_add of_nat_mod)
  then have "int x mod int m = int y mod int m" by (simp add: mod_eq_dvd_iff)
  then show ?thesis by (metis of_nat_eq_iff of_nat_mod)
qed

lemma mod_horner: "((a mod m) * k + b) mod m = (a * k + b) mod (m::nat)"
  by (metis mod_add_left_eq mod_mult_left_eq)

lemma of_nat_unat_id: "of_nat (unat w) = (w :: 'a::len word)"
  by simp

lemma sum_list_update_int:
  "i < length xs \<Longrightarrow> sum_list (xs[i := (x::int)]) = sum_list xs - xs ! i + x"
  by (induction xs arbitrary: i) (auto split: nat.splits simp: nth_Cons')

end
