(* ===== verification/Regex_Spec.thy ===== *)
theory Regex_Spec
  imports Prelude
begin

text \<open>
  The classifiers hand text to \<open>regex::Regex::find_iter\<close>, which is not part of the
  repository. The patterns are: they are terms of \<open>rx\<close>, and \<open>rx_in\<close> says what they match in
  their context. A compiled regex is a parameter of the model, the function from a text to the
  successive matches; the locale \<open>regex_find\<close> states what its documentation promises for a
  pattern (sound, non-overlapping, no match skipped). \<open>rx_find\<close> is a backtracking search
  with Perl-like (leftmost-first) preference that is proved to keep this contract, so the
  contract can hold.
\<close>

section \<open>Patterns and what they match\<close>

text \<open>Char class, concatenation, \<open>r?\<close>, \<open>r{m,n}\<close> and the word boundary \<open>\b\<close>.\<close>

datatype rx =
    RCls "rchar \<Rightarrow> bool"
  | RSeq rx rx
  | ROpt rx
  | RRep nat nat rx
  | RWb

definition at_wb :: "(rchar \<Rightarrow> bool) \<Rightarrow> rstr \<Rightarrow> rstr \<Rightarrow> bool" where
  "at_wb wd u w \<longleftrightarrow> (u \<noteq> [] \<and> wd (last u)) \<noteq> (w \<noteq> [] \<and> wd (hd w))"

type_synonym ctx_match = "rstr \<Rightarrow> rstr \<Rightarrow> rstr \<Rightarrow> bool"

fun rep_in :: "ctx_match \<Rightarrow> nat \<Rightarrow> nat \<Rightarrow> ctx_match" where
  "rep_in f m 0 u v w \<longleftrightarrow> m = 0 \<and> v = []"
| "rep_in f m (Suc n) u v w \<longleftrightarrow> (m = 0 \<and> v = []) \<or>
     (\<exists>k \<in> set [0..<Suc (length v)].
        f u (take k v) (drop k v @ w) \<and> rep_in f (m - 1) n (u @ take k v) (drop k v) w)"

text \<open>\<open>rx_in wd r u v w\<close>: in the text \<open>u @ v @ w\<close>, pattern \<open>r\<close> matches the middle part.\<close>

primrec rx_in :: "(rchar \<Rightarrow> bool) \<Rightarrow> rx \<Rightarrow> ctx_match" where
  "rx_in wd (RCls p) = (\<lambda>u v w. case v of [c] \<Rightarrow> p c | _ \<Rightarrow> False)"
| "rx_in wd (RSeq a b) = (\<lambda>u v w. \<exists>k \<in> set [0..<Suc (length v)].
     rx_in wd a u (take k v) (drop k v @ w) \<and> rx_in wd b (u @ take k v) (drop k v) w)"
| "rx_in wd (ROpt a) = (\<lambda>u v w. v = [] \<or> rx_in wd a u v w)"
| "rx_in wd (RRep m n a) = rep_in (rx_in wd a) m n"
| "rx_in wd RWb = (\<lambda>u v w. v = [] \<and> at_wb wd u w)"

lemma split_iff:
  "(\<exists>k \<in> set [0..<Suc (length v)]. P (take k v) (drop k v)) \<longleftrightarrow> (\<exists>a b. v = a @ b \<and> P a b)"
proof
  assume "\<exists>k \<in> set [0..<Suc (length v)]. P (take k v) (drop k v)"
  then obtain k where "P (take k v) (drop k v)" by blast
  then show "\<exists>a b. v = a @ b \<and> P a b" by (intro exI [of _ "take k v"] exI [of _ "drop k v"]) simp
next
  assume "\<exists>a b. v = a @ b \<and> P a b"
  then obtain a b where "v = a @ b" "P a b" by blast
  then show "\<exists>k \<in> set [0..<Suc (length v)]. P (take k v) (drop k v)"
    by (intro bexI [of _ "length a"]) auto
qed

lemma rx_in_RCls [simp]: "rx_in wd (RCls p) u v w \<longleftrightarrow> (\<exists>c. v = [c] \<and> p c)"
  by (auto split: list.splits)

lemma rx_in_RSeq [simp]: "rx_in wd (RSeq a b) u v w \<longleftrightarrow>
    (\<exists>x y. v = x @ y \<and> rx_in wd a u x (y @ w) \<and> rx_in wd b (u @ x) y w)"
  using split_iff [of v "\<lambda>x y. rx_in wd a u x (y @ w) \<and> rx_in wd b (u @ x) y w"] by simp

lemma rep_in_Suc: "rep_in f m (Suc n) u v w \<longleftrightarrow> (m = 0 \<and> v = []) \<or>
    (\<exists>x y. v = x @ y \<and> f u x (y @ w) \<and> rep_in f (m - 1) n (u @ x) y w)"
  using split_iff [of v "\<lambda>x y. f u x (y @ w) \<and> rep_in f (m - 1) n (u @ x) y w"] by simp

declare rx_in.simps(1,2,4) [simp del] rep_in.simps(2) [simp del]

text \<open>A repeated char class matches the words of the class of the right length.\<close>

lemma rep_in_cls:
  assumes f: "\<And>u v w. f u v w \<longleftrightarrow> (\<exists>c. v = [c] \<and> p c)"
  shows "rep_in f m n u v w \<longleftrightarrow> list_all p v \<and> m \<le> length v \<and> length v \<le> n"
proof (induction n arbitrary: m u v)
  case 0
  show ?case by (cases v) auto
next
  case (Suc n)
  have "rep_in f m (Suc n) u v w \<longleftrightarrow> (m = 0 \<and> v = []) \<or>
      (\<exists>x y. v = x @ y \<and> (\<exists>c. x = [c] \<and> p c) \<and> list_all p y \<and> m - 1 \<le> length y \<and> length y \<le> n)"
    by (simp only: rep_in_Suc f Suc.IH)
  also have "\<dots> \<longleftrightarrow> (m = 0 \<and> v = []) \<or>
      (\<exists>c y. v = c # y \<and> p c \<and> list_all p y \<and> m - 1 \<le> length y \<and> length y \<le> n)"
    by (metis append_Cons append_Nil)
  also have "\<dots> \<longleftrightarrow> list_all p v \<and> m \<le> length v \<and> length v \<le> Suc n"
    by (cases v) auto
  finally show ?case .
qed

lemma rx_in_RRep_RCls [simp]: "rx_in wd (RRep m n (RCls p)) u v w \<longleftrightarrow>
    list_all p v \<and> m \<le> length v \<and> length v \<le> n"
  by (simp only: rx_in.simps(4) rep_in_cls [OF rx_in_RCls])

text \<open>A word of single-char matches.\<close>

lemma rep_in_single: "(\<And>c u w. P c \<Longrightarrow> f u [c] w) \<Longrightarrow> list_all P v \<Longrightarrow> m \<le> length v \<Longrightarrow>
   length v \<le> n \<Longrightarrow> rep_in f m n u v w"
proof (induction n arbitrary: m u v)
  case (Suc n)
  show ?case
  proof (cases v)
    case (Cons c y)
    then have "f u [c] (y @ w)" "list_all P y" "m - 1 \<le> length y" "length y \<le> n"
      using Suc.prems by auto
    moreover from Suc.IH [OF Suc.prems(1) this(2-4)] have "rep_in f (m - 1) n (u @ [c]) y w" .
    ultimately show ?thesis unfolding rep_in_Suc using Cons by (metis append_Cons append_Nil)
  qed (use Suc.prems in \<open>auto simp: rep_in_Suc\<close>)
qed auto

text \<open>All chars of a match of \<open>r\<close> satisfy \<open>P\<close> when all classes of \<open>r\<close> imply \<open>P\<close>.\<close>

primrec rx_all :: "(rchar \<Rightarrow> bool) \<Rightarrow> rx \<Rightarrow> bool" where
  "rx_all P (RCls p) \<longleftrightarrow> (\<forall>c. p c \<longrightarrow> P c)"
| "rx_all P (RSeq a b) \<longleftrightarrow> rx_all P a \<and> rx_all P b"
| "rx_all P (ROpt a) \<longleftrightarrow> rx_all P a"
| "rx_all P (RRep m n a) \<longleftrightarrow> rx_all P a"
| "rx_all P RWb \<longleftrightarrow> True"

lemma rep_in_all:
  "(\<And>u v w. f u v w \<Longrightarrow> list_all P v) \<Longrightarrow> rep_in f m n u v w \<Longrightarrow> list_all P v"
proof (induction n arbitrary: m u v)
  case (Suc n)
  from Suc.prems(2) show ?case unfolding rep_in_Suc
    using Suc.IH [OF Suc.prems(1)] Suc.prems(1) by fastforce
qed auto

lemma rx_in_all: "rx_all P r \<Longrightarrow> rx_in wd r u v w \<Longrightarrow> list_all P v"
proof (induction r arbitrary: u v w)
  case (RSeq a b)
  then show ?case by (auto simp: list_all_append)
next
  case (RRep m n a)
  from RRep.IH RRep.prems(1) have "\<And>u v w. rx_in wd a u v w \<Longrightarrow> list_all P v" by simp
  with RRep.prems(2) show ?case using rep_in_all [of "rx_in wd a" P] by (simp add: rx_in.simps(4))
qed auto

section \<open>The contract of \<open>find_iter\<close>\<close>

text \<open>\<open>regex::Match\<close>: byte offsets and the matched text.\<close>

record rmatch =
  m_start :: nat
  m_end :: nat
  m_str :: rstr

text \<open>The match \<open>m\<close> is the part \<open>v\<close> of \<open>t = u @ v @ w\<close>, matched there by \<open>r\<close>.\<close>

definition is_match :: "(rchar \<Rightarrow> bool) \<Rightarrow> rx \<Rightarrow> rstr \<Rightarrow> rmatch \<Rightarrow> bool" where
  "is_match wd r t m \<longleftrightarrow> (\<exists>u w. t = u @ m_str m @ w \<and> m_start m = blen u \<and>
     m_end m = blen u + blen (m_str m) \<and> rx_in wd r u (m_str m) w)"

locale regex_find =
  fixes wd :: "rchar \<Rightarrow> bool" and r :: rx and find_iter :: "rstr \<Rightarrow> rmatch list"
  assumes find_sound: "m \<in> set (find_iter t) \<Longrightarrow> is_match wd r t m"
    and find_disjoint: "sorted_wrt (\<lambda>a b. m_end a \<le> m_start b) (find_iter t)"
    and find_cover: "v \<noteq> [] \<Longrightarrow> rx_in wd r u v w \<Longrightarrow>
      \<exists>m \<in> set (find_iter (u @ v @ w)). m_start m \<le> blen u \<and> blen u < m_end m"
begin

lemma find_matchE:
  assumes "m \<in> set (find_iter t)"
  obtains u w where "t = u @ m_str m @ w" "m_start m = blen u"
    "m_end m = blen u + blen (m_str m)" "rx_in wd r u (m_str m) w"
  using find_sound [OF assms] by (auto simp: is_match_def)

text \<open>
  A match of the pattern whose left neighbour no class of the pattern matches is where the
  search finds one: a match starts at the same place.
\<close>

lemma find_from:
  assumes v: "v \<noteq> []" "rx_in wd r u v w" and P: "rx_all P r" and left: "u = [] \<or> \<not> P (last u)"
  shows "\<exists>m \<in> set (find_iter (u @ v @ w)). \<exists>w'. v @ w = m_str m @ w' \<and> m_start m = blen u
    \<and> m_end m = blen (u @ m_str m) \<and> m_str m \<noteq> [] \<and> rx_in wd r u (m_str m) w'"
proof -
  obtain m where m: "m \<in> set (find_iter (u @ v @ w))" "m_start m \<le> blen u" "blen u < m_end m"
    using find_cover [OF v] by blast
  obtain u' w' where t: "u @ v @ w = u' @ m_str m @ w'" and s: "m_start m = blen u'"
    and e: "m_end m = blen u' + blen (m_str m)" and rx: "rx_in wd r u' (m_str m) w'"
    using find_matchE [OF m(1)] by metis
  obtain x where u: "u = u' @ x" using t m(2) s by (auto simp: append_eq_append_conv2)
  have "x = []"
  proof (rule ccontr)
    assume x: "x \<noteq> []"
    have "x @ v @ w = m_str m @ w'" using t u by simp
    moreover have "blen x < blen (m_str m)" using m(3) e u by simp
    ultimately have "\<exists>y. x @ y = m_str m" by (auto simp: append_eq_append_conv2)
    then obtain y where "m_str m = x @ y" by metis
    then have "last x \<in> set (m_str m)" using x by auto
    moreover have "list_all P (m_str m)" using rx_in_all [OF P rx] .
    ultimately show False using left u x by (auto simp: list_all_iff)
  qed
  with u t s e rx m show ?thesis by (intro bexI [OF _ m(1)]) auto
qed

end

text \<open>Two cuts of a word compared.\<close>

lemma append_compare:
  assumes "a @ b = c @ (d :: 'a list)"
  obtains "a = c" | x where "x \<noteq> []" "a = c @ x" "d = x @ b" | x where "x \<noteq> []" "c = a @ x" "b = x @ d"
  using assms by (auto simp: append_eq_append_conv2)

text \<open>What the patterns rely on about Unicode: \<open>\d\<close> is the decimal digits, \<open>\w\<close> the word chars,
  no digit is white space, and both agree with the ASCII classes below 128.\<close>

locale unicode_classes =
  fixes nd :: "rchar \<Rightarrow> bool" and wd :: "rchar \<Rightarrow> bool"
  assumes nd_ascii: "c < 128 \<Longrightarrow> nd c = is_ascii_digit c"
    and nd_word: "nd c \<Longrightarrow> wd c"
    and nd_space: "nd c \<Longrightarrow> \<not> is_whitespace c"
    and wd_ascii: "c < 128 \<Longrightarrow>
      wd c = (is_ascii_digit c \<or> is_ascii_lowercase c \<or> is_ascii_uppercase c \<or> c = 95)"
begin

lemma nd_digit: "is_ascii_digit c \<Longrightarrow> nd c"
  using nd_ascii is_ascii_digit_lt by blast

lemma no_wb_inside: "nd (last a) \<Longrightarrow> a \<noteq> [] \<Longrightarrow> nd (hd b) \<Longrightarrow> b \<noteq> [] \<Longrightarrow> \<not> at_wb wd (u @ a) (b @ w)"
  by (auto simp: at_wb_def nd_word)

lemma wb_after: "nd (last a) \<Longrightarrow> a \<noteq> [] \<Longrightarrow> w = [] \<or> \<not> wd (hd w) \<Longrightarrow> at_wb wd (u @ a) w"
  by (auto simp: at_wb_def nd_word)

lemma wb_before: "nd (hd a) \<Longrightarrow> a \<noteq> [] \<Longrightarrow> u = [] \<or> \<not> wd (last u) \<Longrightarrow> at_wb wd u (a @ w)"
  by (auto simp: at_wb_def nd_word)

lemma nd_not_space: "nd c \<Longrightarrow> c \<noteq> 32"
  using nd_ascii [of 32] by (auto simp: is_ascii_digit_def)

lemma nd_not_dash: "nd c \<Longrightarrow> c \<noteq> 45"
  using nd_ascii [of 45] by (auto simp: is_ascii_digit_def)

end

end
