(* ===== verification/Classifier.thy ===== *)
theory Classifier
  imports Regex_Spec
begin

text \<open>
  The classifier interface and registry of
  \<open>scrooge-agent-core/src/modules/classifier/mod.rs\<close>. A classifier is its slug and its
  \<open>scan\<close>, a function from a text to its matches (\<open>None\<close> when it panics). Every \<open>scan\<close> is
  the same loop over the matches of one regex, \<open>scan_loop\<close>, with the body of its classifier.
  The locale \<open>classifier\<close> is what the clipboard and file monitors rely on.
\<close>

section \<open>Matches, classifiers, the registry\<close>

record cmatch =
  c_classifier :: rstr
  c_start :: nat
  c_end :: nat
  c_redacted :: rstr
  c_last4 :: rstr

record classifier_obj =
  cl_name :: rstr
  cl_scan :: "rstr \<Rightarrow> cmatch list option"

type_synonym registry = "classifier_obj list"

definition registry_new :: registry where
  "registry_new = []"

definition register :: "registry \<Rightarrow> classifier_obj \<Rightarrow> registry" where
  "register r c = r @ [c]"

fun scan_all :: "registry \<Rightarrow> rstr \<Rightarrow> cmatch list option" where
  "scan_all [] text = Some []"
| "scan_all (c # cs) text =
     (case cl_scan c text of
        None \<Rightarrow> None
      | Some ms \<Rightarrow> map_option (\<lambda>out. ms @ out) (scan_all cs text))"

definition registry_len :: "registry \<Rightarrow> nat" where
  "registry_len r = length r"

definition registry_is_empty :: "registry \<Rightarrow> bool" where
  "registry_is_empty r \<longleftrightarrow> r = []"

lemma scan_all_Some:
  "scan_all cs t = Some ms \<Longrightarrow> m \<in> set ms \<longleftrightarrow> (\<exists>c \<in> set cs. \<exists>xs. cl_scan c t = Some xs \<and> m \<in> set xs)"
  by (induction cs arbitrary: ms) (auto split: option.splits)

lemma scan_all_None: "scan_all cs t = None \<longleftrightarrow> (\<exists>c \<in> set cs. cl_scan c t = None)"
  by (induction cs) (auto split: option.splits)

section \<open>The loop of every \<open>scan\<close>\<close>

text \<open>
  \<open>for m in self.re.find_iter(text)\<close>: the body panics (\<open>None\<close>), continues
  (\<open>Some None\<close>) or pushes a match.
\<close>

fun scan_loop :: "(rmatch \<Rightarrow> cmatch option option) \<Rightarrow> rmatch list \<Rightarrow> cmatch list option" where
  "scan_loop f [] = Some []"
| "scan_loop f (m # ms) =
     (case f m of
        None \<Rightarrow> None
      | Some r \<Rightarrow> map_option (\<lambda>out. case r of None \<Rightarrow> out | Some x \<Rightarrow> x # out) (scan_loop f ms))"

lemma scan_loop_Some:
  "scan_loop f ms = Some out \<Longrightarrow> x \<in> set out \<longleftrightarrow> (\<exists>m \<in> set ms. f m = Some (Some x))"
  by (induction ms arbitrary: out) (auto split: option.splits)

lemma scan_loop_None: "scan_loop f ms = None \<longleftrightarrow> (\<exists>m \<in> set ms. f m = None)"
  by (induction ms) (auto split: option.splits)

lemma scan_loop_total: "(\<And>m. m \<in> set ms \<Longrightarrow> f m \<noteq> None) \<Longrightarrow> \<exists>out. scan_loop f ms = Some out"
  using scan_loop_None [of f ms] by (metis not_None_eq)

section \<open>What a classifier promises\<close>

text \<open>How many ASCII digits a string shows.\<close>

definition digits_shown :: "rstr \<Rightarrow> nat" where
  "digits_shown s = length (filter is_ascii_digit s)"

lemma digits_shown_append [simp]: "digits_shown (s @ t) = digits_shown s + digits_shown t"
  by (simp add: digits_shown_def)

lemma digits_shown_le: "digits_shown s \<le> length s"
  by (simp add: digits_shown_def)

text \<open>
  \<open>reports t m\<close>: the offsets of \<open>m\<close> are those of a part of \<open>t\<close> of at least ten chars, and
  what \<open>m\<close> discloses of it is four chars in \<open>last4\<close> and at most four digits in \<open>redacted\<close>.
\<close>

definition reports :: "rstr \<Rightarrow> cmatch \<Rightarrow> bool" where
  "reports t m \<longleftrightarrow>
     (\<exists>u v w. t = u @ v @ w \<and> c_start m = blen u \<and> c_end m = blen (u @ v) \<and> 10 \<le> length v)
     \<and> length (c_last4 m) = 4 \<and> digits_shown (c_redacted m) \<le> 4"

locale classifier =
  fixes name :: rstr and scan :: "rstr \<Rightarrow> cmatch list option"
  assumes scan_name: "scan t = Some ms \<Longrightarrow> m \<in> set ms \<Longrightarrow> c_classifier m = name"
    and scan_reports: "scan t = Some ms \<Longrightarrow> m \<in> set ms \<Longrightarrow> reports t m"
begin

lemma scan_offsets:
  assumes "scan t = Some ms" "m \<in> set ms"
  shows "c_start m < c_end m \<and> c_end m \<le> blen t"
proof -
  from scan_reports [OF assms] obtain u v w where
    t: "t = u @ v @ w" "c_start m = blen u" "c_end m = blen (u @ v)" "10 \<le> length v"
    by (auto simp: reports_def)
  have "length v \<le> blen v" by (rule blen_ge_length)
  with t show ?thesis by simp
qed

lemma scan_short: "blen t < 10 \<Longrightarrow> scan t = Some ms \<Longrightarrow> ms = []"
proof (rule ccontr)
  assume short: "blen t < 10" and scan: "scan t = Some ms" and "ms \<noteq> []"
  then obtain m where "m \<in> set ms" by (cases ms) auto
  from scan_reports [OF scan this] obtain u v w where "t = u @ v @ w" "10 \<le> length v"
    by (auto simp: reports_def)
  then have "10 \<le> blen t" using blen_ge_length [of v] by simp
  with short show False by simp
qed

end

text \<open>A registry of such classifiers reports only parts of the text, under known names.\<close>

definition registry_ok :: "registry \<Rightarrow> bool" where
  "registry_ok r \<longleftrightarrow> (\<forall>c \<in> set r. classifier (cl_name c) (cl_scan c))"

lemma scan_all_reports:
  assumes "registry_ok r" "scan_all r t = Some ms" "m \<in> set ms"
  shows "reports t m \<and> c_classifier m \<in> cl_name ` set r"
proof -
  from assms(2,3) obtain c xs where c: "c \<in> set r" "cl_scan c t = Some xs" "m \<in> set xs"
    using scan_all_Some by metis
  with assms(1) show ?thesis
    unfolding registry_ok_def by (metis classifier.scan_name classifier.scan_reports imageI)
qed

end
