(* ===== verification/Regex_Engine.thy ===== *)
theory Regex_Engine
  imports Regex_Spec
begin

text \<open>
  A backtracking search over \<open>rx\<close> with Perl-like preference (the first alternative that
  succeeds, repetitions greedy), and the proof that its successive matches keep the
  contract \<open>regex_find\<close> of a compiled regex. It models no file of the repository: it shows
  that the contract can hold and evaluates the classifiers on concrete texts.
\<close>

section \<open>The search\<close>

text \<open>The lengths of the matches of a pattern at a position, in order of preference.\<close>

type_synonym runner = "rstr \<Rightarrow> rstr \<Rightarrow> nat list"

fun rep_run :: "runner \<Rightarrow> nat \<Rightarrow> nat \<Rightarrow> runner" where
  "rep_run f m 0 u w = (if m = 0 then [0] else [])"
| "rep_run f m (Suc n) u w =
     concat (map (\<lambda>k. map (\<lambda>j. k + j) (rep_run f (m - 1) n (u @ take k w) (drop k w))) (f u w))
       @ (if m = 0 then [0] else [])"

primrec rx_run :: "(rchar \<Rightarrow> bool) \<Rightarrow> rx \<Rightarrow> runner" where
  "rx_run wd (RCls p) = (\<lambda>u w. case w of [] \<Rightarrow> [] | c # _ \<Rightarrow> if p c then [1] else [])"
| "rx_run wd (RSeq a b) = (\<lambda>u w.
     concat (map (\<lambda>k. map (\<lambda>j. k + j) (rx_run wd b (u @ take k w) (drop k w))) (rx_run wd a u w)))"
| "rx_run wd (ROpt a) = (\<lambda>u w. rx_run wd a u w @ [0])"
| "rx_run wd (RRep m n a) = rep_run (rx_run wd a) m n"
| "rx_run wd RWb = (\<lambda>u w. if at_wb wd u w then [0] else [])"

fun rx_find :: "(rchar \<Rightarrow> bool) \<Rightarrow> rx \<Rightarrow> rstr \<Rightarrow> rstr \<Rightarrow> rmatch list" where
  "rx_find wd r u [] = []"
| "rx_find wd r u (c # w) =
     (case filter (\<lambda>k. 0 < k) (rx_run wd r u (c # w)) of
        [] \<Rightarrow> rx_find wd r (u @ [c]) w
      | k # _ \<Rightarrow>
          \<lparr>m_start = blen u, m_end = blen u + blen (take k (c # w)), m_str = take k (c # w)\<rparr>
            # rx_find wd r (u @ take k (c # w)) (drop (k - 1) w))"

definition ref_find_iter :: "(rchar \<Rightarrow> bool) \<Rightarrow> rx \<Rightarrow> rstr \<Rightarrow> rmatch list" where
  "ref_find_iter wd r t = rx_find wd r [] t"

section \<open>It finds exactly the matches of the pattern\<close>

definition runs :: "runner \<Rightarrow> ctx_match \<Rightarrow> bool" where
  "runs g f \<longleftrightarrow> (\<forall>u w k. k \<in> set (g u w) \<longleftrightarrow> k \<le> length w \<and> f u (take k w) (drop k w))"

lemma runs_iff: "runs g f \<Longrightarrow> k \<in> set (g u w) \<longleftrightarrow> k \<le> length w \<and> f u (take k w) (drop k w)"
  by (simp add: runs_def)

text \<open>Concatenation on lengths is concatenation on words.\<close>

lemma runs_seq:
  assumes "runs g f" "runs h e"
  shows "n \<in> set (concat (map (\<lambda>k. map (\<lambda>j. k + j) (h (u @ take k w) (drop k w))) (g u w))) \<longleftrightarrow>
    n \<le> length w \<and>
    (\<exists>x y. take n w = x @ y \<and> f u x (y @ drop n w) \<and> e (u @ x) y (drop n w))"
    (is "?L \<longleftrightarrow> ?R")
proof
  assume ?L
  then obtain k j where n: "n = k + j" and k: "k \<in> set (g u w)"
    and j: "j \<in> set (h (u @ take k w) (drop k w))" by auto
  from k assms(1) have k': "k \<le> length w" "f u (take k w) (drop k w)" by (auto simp: runs_iff)
  from j assms(2) have j': "j \<le> length w - k" "e (u @ take k w) (take j (drop k w)) (drop n w)"
    using n by (auto simp: runs_iff add.commute)
  have "take n w = take k w @ take j (drop k w)" by (simp add: n take_add)
  moreover have "drop k w = take j (drop k w) @ drop n w"
    by (simp add: n add.commute flip: drop_drop)
  ultimately show ?R using k' j' n by (intro conjI exI [of _ "take k w"] exI [of _ "take j (drop k w)"]) auto
next
  assume ?R
  then obtain x y where n: "n \<le> length w" and xy: "take n w = x @ y"
    and fx: "f u x (y @ drop n w)" and ey: "e (u @ x) y (drop n w)" by blast
  have w: "w = x @ y @ drop n w" using xy by (metis append.assoc append_take_drop_id)
  have len: "length x + length y = n" using xy n by (metis length_append length_take min.absorb2)
  have tx: "take (length x) w = x" and dx: "drop (length x) w = y @ drop n w"
    using w append_eq_conv_conj [of x "y @ drop n w" w] by simp_all
  have lx: "length x \<le> length w" using len n by simp
  have "length x \<in> set (g u w)" using assms(1) fx lx by (simp add: runs_iff tx dx)
  moreover have "length y \<in> set (h (u @ take (length x) w) (drop (length x) w))"
    unfolding tx dx using assms(2) ey by (simp add: runs_iff)
  ultimately show ?L using len by force
qed

lemma rep_run_runs: "runs g f \<Longrightarrow> runs (rep_run g m n) (rep_in f m n)"
proof (induction n arbitrary: m)
  case 0
  then show ?case by (auto simp: runs_def)
next
  case (Suc n)
  note seq = runs_seq [OF Suc.prems Suc.IH [OF Suc.prems]]
  show ?case unfolding runs_def rep_run.simps rep_in_Suc set_append Un_iff seq by auto
qed

lemma rx_run_runs: "runs (rx_run wd r) (rx_in wd r)"
proof (induction r)
  case (RCls p)
  have "k \<in> set (rx_run wd (RCls p) u w) \<longleftrightarrow>
      k \<le> length w \<and> rx_in wd (RCls p) u (take k w) (drop k w)" for k u w
    unfolding rx_in_RCls by (cases w; cases k) auto
  then show ?case by (simp add: runs_def del: rx_run.simps rx_in_RCls)
next
  case (RSeq a b)
  show ?case unfolding runs_def rx_run.simps rx_in_RSeq runs_seq [OF RSeq.IH] by blast
next
  case (RRep m n a)
  then show ?case by (simp add: rep_run_runs rx_in.simps(4))
qed (auto simp: runs_def)

lemma rx_run_iff:
  "k \<in> set (rx_run wd r u w) \<longleftrightarrow> k \<le> length w \<and> rx_in wd r u (take k w) (drop k w)"
  by (rule runs_iff [OF rx_run_runs])

section \<open>The successive matches keep the contract\<close>

lemma filter_head: "filter P xs = k # ks \<Longrightarrow> P k \<and> k \<in> set xs"
  by (metis filter_eq_ConsD in_set_conv_decomp list.set_intros(1) mem_Collect_eq set_filter)

lemma rx_find_sound:
  "m \<in> set (rx_find wd r u w) \<Longrightarrow> is_match wd r (u @ w) m \<and> blen u \<le> m_start m"
proof (induction wd r u w rule: rx_find.induct)
  case (2 wd r u c w)
  show ?case
  proof (cases "filter (\<lambda>k. 0 < k) (rx_run wd r u (c # w))")
    case Nil
    with 2 show ?thesis by fastforce
  next
    case (Cons k ks)
    let ?v = "take k (c # w)"
    have k: "0 < k" "k \<in> set (rx_run wd r u (c # w))" using filter_head [OF Cons] by auto
    have d: "drop (k - 1) w = drop k (c # w)" using k(1) by (cases k) auto
    from "2.prems" Cons consider
      "m = \<lparr>m_start = blen u, m_end = blen u + blen ?v, m_str = ?v\<rparr>"
      | "m \<in> set (rx_find wd r (u @ ?v) (drop (k - 1) w))" by auto
    then show ?thesis
    proof cases
      case 1
      then have "rx_in wd r u (m_str m) (drop k (c # w))" using k(2) rx_run_iff by simp
      with 1 show ?thesis unfolding is_match_def
        by (intro conjI exI [of _ u] exI [of _ "drop k (c # w)"]) (simp_all del: take_Suc_Cons)
    next
      case 2
      have "is_match wd r ((u @ ?v) @ drop (k - 1) w) m \<and> blen (u @ ?v) \<le> m_start m"
        using "2.IH"(2) [OF Cons 2] .
      then show ?thesis unfolding d by (simp del: take_Suc_Cons drop_Suc_Cons)
    qed
  qed
qed simp

lemma rx_find_disjoint: "sorted_wrt (\<lambda>a b. m_end a \<le> m_start b) (rx_find wd r u w)"
proof (induction wd r u w rule: rx_find.induct)
  case (2 wd r u c w)
  show ?case
  proof (cases "filter (\<lambda>k. 0 < k) (rx_run wd r u (c # w))")
    case (Cons k ks)
    with "2.IH"(2) [OF Cons] show ?thesis
      by (auto dest: rx_find_sound simp del: take_Suc_Cons)
  qed (use 2 in simp)
qed simp

lemma rx_find_cover:
  "w = x @ v @ y \<Longrightarrow> v \<noteq> [] \<Longrightarrow> rx_in wd r (u @ x) v y \<Longrightarrow>
   \<exists>m \<in> set (rx_find wd r u w). m_start m \<le> blen (u @ x) \<and> blen (u @ x) < m_end m"
proof (induction wd r u w arbitrary: x rule: rx_find.induct)
  case (2 wd r u c w)
  show ?case
  proof (cases "filter (\<lambda>k. 0 < k) (rx_run wd r u (c # w))")
    case Nil
    have "x \<noteq> []"
    proof
      assume "x = []"
      with "2.prems" have "length v \<in> set (rx_run wd r u (c # w))" by (simp add: rx_run_iff)
      with \<open>v \<noteq> []\<close> have "length v \<in> set (filter (\<lambda>k. 0 < k) (rx_run wd r u (c # w)))" by simp
      with Nil show False by simp
    qed
    with "2.prems" obtain x' where "x = c # x'" "w = x' @ v @ y" by (cases x) auto
    with "2.IH"(1) [OF Nil, of x'] "2.prems" Nil show ?thesis by simp
  next
    case (Cons k ks)
    have k: "0 < k" "k \<le> length (c # w)" using filter_head [OF Cons] by (auto simp: rx_run_iff)
    let ?p = "take k (c # w)"
    show ?thesis
    proof (cases "length x < k")
      case True
      from "2.prems"(1) have "?p = x @ take (k - length x) (v @ y)" using True by simp
      moreover have "take (k - length x) (v @ y) \<noteq> []" using True \<open>v \<noteq> []\<close> by simp
      ultimately have "blen x < blen ?p" by (metis add.right_neutral add_less_cancel_left
        blen_0_iff blen_append neq0_conv)
      with Cons show ?thesis by (simp del: take_Suc_Cons)
    next
      case False
      define x' where "x' = drop k x"
      have p: "?p = take k x" using False "2.prems"(1) by simp
      have x: "x = ?p @ x'" unfolding p x'_def by simp
      have w': "drop k (c # w) = x' @ v @ y" using False "2.prems"(1) by (simp add: x'_def)
      have d: "drop (k - 1) w = drop k (c # w)" using k(1) by (cases k) auto
      have "\<exists>m \<in> set (rx_find wd r (u @ ?p) (drop (k - 1) w)).
          m_start m \<le> blen ((u @ ?p) @ x') \<and> blen ((u @ ?p) @ x') < m_end m"
        using "2.IH"(2) [OF Cons, of x'] "2.prems"(2,3) x w' d by (simp del: take_Suc_Cons drop_Suc_Cons)
      then show ?thesis using Cons x by (auto simp del: take_Suc_Cons)
    qed
  qed
qed simp

interpretation ref_engine: regex_find wd r "ref_find_iter wd r" for wd r
proof unfold_locales
  fix m t
  assume "m \<in> set (ref_find_iter wd r t)"
  then show "is_match wd r t m" using rx_find_sound [of m wd r "[]" t] by (simp add: ref_find_iter_def)
next
  fix t
  show "sorted_wrt (\<lambda>a b. m_end a \<le> m_start b) (ref_find_iter wd r t)"
    by (simp add: ref_find_iter_def rx_find_disjoint)
next
  fix v u w
  assume "v \<noteq> []" "rx_in wd r u v w"
  then show "\<exists>m \<in> set (ref_find_iter wd r (u @ v @ w)). m_start m \<le> blen u \<and> blen u < m_end m"
    using rx_find_cover [of "u @ v @ w" u v w wd r "[]"] by (simp add: ref_find_iter_def)
qed

section \<open>Char classes for evaluation\<close>

text \<open>ASCII and the Devanagari digits U+0966 to U+096F, which are decimal digits of Unicode.\<close>

definition eval_nd :: "rchar \<Rightarrow> bool" where
  "eval_nd c \<longleftrightarrow> is_ascii_digit c \<or> (2406 \<le> c \<and> c \<le> 2415)"

definition eval_wd :: "rchar \<Rightarrow> bool" where
  "eval_wd c \<longleftrightarrow> is_ascii_digit c \<or> is_ascii_lowercase c \<or> is_ascii_uppercase c \<or> c = 95
     \<or> (2406 \<le> c \<and> c \<le> 2415)"

interpretation eval_classes: unicode_classes eval_nd eval_wd
  by unfold_locales (auto simp: eval_nd_def eval_wd_def is_whitespace_def is_ascii_digit_def)

end
