(* ===== verification/Luhn.thy ===== *)
theory Luhn
  imports Classifier Regex_Engine
begin

text \<open>
  The payment card classifier, \<open>classifier/luhn.rs\<close>: the pattern, the mod-10 check on
  \<open>u32\<close>, the redaction and the scan.
\<close>

section \<open>The code\<close>

definition luhn_NAME :: rstr where
  "luhn_NAME = lit ''credit_card''"

definition is_sep :: "rchar \<Rightarrow> bool" where
  "is_sep c \<longleftrightarrow> c = 32 \<or> c = 45"

text \<open>\<^verbatim>\<open>\b(?:\d[ -]?){12,18}\d\b\<close>\<close>

definition CARD_REGEX :: "(rchar \<Rightarrow> bool) \<Rightarrow> rx" where
  "CARD_REGEX nd =
     RSeq RWb (RSeq (RRep 12 18 (RSeq (RCls nd) (ROpt (RCls is_sep)))) (RSeq (RCls nd) RWb))"

definition luhn_step :: "nat \<Rightarrow> rchar \<Rightarrow> u32" where
  "luhn_step i c =
     (let d = (case to_digit10 c of Some n \<Rightarrow> (of_nat n :: u32) | None \<Rightarrow> 0)
      in if i mod 2 = 1 then (let dbl = d * 2 in if dbl > 9 then dbl - 9 else dbl) else d)"

fun luhn_loop :: "nat \<Rightarrow> rchar list \<Rightarrow> u32 \<Rightarrow> u32" where
  "luhn_loop i [] acc = acc"
| "luhn_loop i (c # cs) acc = luhn_loop (Suc i) cs (acc + luhn_step i c)"

definition luhn_check :: "rstr \<Rightarrow> bool" where
  "luhn_check digits \<longleftrightarrow> luhn_loop 0 (rev digits) 0 mod 10 = 0"

definition luhn_redact :: "rstr \<Rightarrow> rstr option" where
  "luhn_redact digits = map_option (\<lambda>l. lit ''**** **** **** '' @ l) (slice_last 4 digits)"

definition luhn_body :: "rmatch \<Rightarrow> cmatch option option" where
  "luhn_body m =
     (let digits = filter is_ascii_digit (m_str m)
      in if \<not> (13 \<le> blen digits \<and> blen digits \<le> 19) then Some None
         else if \<not> luhn_check digits then Some None
         else case luhn_redact digits of None \<Rightarrow> None | Some red \<Rightarrow>
              (case slice_last 4 digits of None \<Rightarrow> None | Some l4 \<Rightarrow>
                 Some (Some \<lparr>c_classifier = luhn_NAME, c_start = m_start m, c_end = m_end m,
                             c_redacted = red, c_last4 = l4\<rparr>)))"

definition luhn_scan :: "(rstr \<Rightarrow> rmatch list) \<Rightarrow> rstr \<Rightarrow> cmatch list option" where
  "luhn_scan re text = scan_loop luhn_body (re text)"

section \<open>The checksum\<close>

text \<open>The mod-10 algorithm on numbers, positions counted from the last digit.\<close>

definition luhn_digit :: "rchar \<Rightarrow> nat" where
  "luhn_digit c = (case to_digit10 c of Some n \<Rightarrow> n | None \<Rightarrow> 0)"

definition luhn_weight :: "nat \<Rightarrow> nat \<Rightarrow> nat" where
  "luhn_weight i d = (if odd i then (if 2 * d > 9 then 2 * d - 9 else 2 * d) else d)"

fun luhn_sum :: "nat \<Rightarrow> rchar list \<Rightarrow> nat" where
  "luhn_sum i [] = 0"
| "luhn_sum i (c # cs) = luhn_weight i (luhn_digit c) + luhn_sum (Suc i) cs"

lemma luhn_digit_le: "luhn_digit c \<le> 9"
  by (auto simp: luhn_digit_def to_digit10_def is_ascii_digit_def)

lemma luhn_weight_le: "d \<le> 9 \<Longrightarrow> luhn_weight i d \<le> 9"
  by (auto simp: luhn_weight_def)

lemma luhn_sum_le: "luhn_sum i cs \<le> 9 * length cs"
proof (induction cs arbitrary: i)
  case (Cons c cs)
  have "luhn_weight i (luhn_digit c) \<le> 9" by (rule luhn_weight_le [OF luhn_digit_le])
  with Cons.IH [of "Suc i"] show ?case by simp
qed simp

lemma digit_cases: "(d::nat) \<le> 9 \<Longrightarrow> d \<in> {0, 1, 2, 3, 4, 5, 6, 7, 8, 9}"
  by auto

lemma luhn_step_unat: "unat (luhn_step i c) = luhn_weight i (luhn_digit c)"
proof -
  have "luhn_step i c = (let d = of_nat (luhn_digit c)
      in if i mod 2 = 1 then (let dbl = d * 2 in if dbl > 9 then dbl - 9 else dbl) else d)"
    by (simp add: luhn_step_def luhn_digit_def split: option.splits)
  moreover have "luhn_digit c \<in> {0, 1, 2, 3, 4, 5, 6, 7, 8, 9}"
    by (rule digit_cases [OF luhn_digit_le])
  ultimately show ?thesis by (auto simp: luhn_weight_def Let_def odd_iff_mod_2_eq_one)
qed

lemma luhn_loop_unat:
  "unat s + 9 * length cs < 2 ^ 32 \<Longrightarrow> unat (luhn_loop i cs s) = unat s + luhn_sum i cs"
proof (induction cs arbitrary: i s)
  case (Cons c cs)
  have w: "luhn_weight i (luhn_digit c) \<le> 9" by (rule luhn_weight_le [OF luhn_digit_le])
  have "unat (s + luhn_step i c) = unat s + luhn_weight i (luhn_digit c)"
    using Cons.prems w by (simp add: unat_word_ariths luhn_step_unat)
  with Cons w show ?case by simp
qed simp

lemma luhn_check_sum:
  assumes "9 * length ds < 2 ^ 32"
  shows "luhn_check ds \<longleftrightarrow> luhn_sum 0 (rev ds) mod 10 = 0"
proof -
  have "unat (luhn_loop 0 (rev ds) 0 mod 10) = luhn_sum 0 (rev ds) mod 10"
    using luhn_loop_unat [of 0 "rev ds" 0] assms by (simp add: unat_mod)
  then show ?thesis unfolding luhn_check_def by (metis unat_0 unat_eq_zero)
qed

lemma luhn_sum_append: "luhn_sum i (xs @ ys) = luhn_sum i xs + luhn_sum (i + length xs) ys"
  by (induction xs arbitrary: i) auto

lemma luhn_weight_inj: "a \<le> 9 \<Longrightarrow> b \<le> 9 \<Longrightarrow> luhn_weight i a = luhn_weight i b \<Longrightarrow> a = b"
  by (auto simp: luhn_weight_def split: if_splits; presburger)

lemma luhn_digit_inj:
  "is_ascii_digit a \<Longrightarrow> is_ascii_digit b \<Longrightarrow> luhn_digit a = luhn_digit b \<Longrightarrow> a = b"
  by (auto simp: luhn_digit_def to_digit10_def is_ascii_digit_def)

section \<open>Properties\<close>

text \<open>C28: on every number the scan can hand it (13 to 19 digits), the check on \<open>u32\<close> is the
  mod-10 algorithm on numbers: the sum does not wrap.\<close>

theorem luhn_check_correct:
  assumes "13 \<le> length ds" "length ds \<le> 19"
  shows "(luhn_check ds \<longleftrightarrow> luhn_sum 0 (rev ds) mod 10 = 0)
    \<and> unat (luhn_loop 0 (rev ds) 0) = luhn_sum 0 (rev ds)"
  using assms luhn_check_sum [of ds] luhn_loop_unat [of 0 "rev ds" 0] by simp_all

theorem luhn_check_correct_witness:
  "13 \<le> length (lit ''4532015112830366'') \<and> length (lit ''4532015112830366'') \<le> 19
   \<and> luhn_check (lit ''4532015112830366'')"
proof -
  have "13 \<le> length (lit ''4532015112830366'')" "length (lit ''4532015112830366'') \<le> 19" by simp_all
  note luhn_check_correct [OF this]
  moreover have "luhn_sum 0 (rev (lit ''4532015112830366'')) mod 10 = 0" by code_simp
  ultimately show ?thesis by simp
qed

lemma luhn_subst_sum:
  "luhn_sum 0 (rev (p @ [a] @ q)) = luhn_sum 0 (rev q) + luhn_sum (Suc (length q)) (rev p)
     + luhn_weight (length q) (luhn_digit a)"
  by (simp add: luhn_sum_append)

lemma luhn_check_subst:
  assumes "length (p @ [a] @ q) \<le> 19"
  shows "luhn_check (p @ [a] @ q) \<longleftrightarrow>
    (luhn_sum 0 (rev q) + luhn_sum (Suc (length q)) (rev p)
       + luhn_weight (length q) (luhn_digit a)) mod 10 = 0"
proof -
  have "9 * length (p @ [a] @ q) < 2 ^ 32" using assms by simp
  then show ?thesis by (simp only: luhn_check_sum luhn_subst_sum)
qed

text \<open>The check catches every error in a single digit.\<close>

theorem luhn_single_error:
  assumes "luhn_check (p @ [a] @ q)" "is_ascii_digit a" "is_ascii_digit b" "a \<noteq> b"
    and "length (p @ [a] @ q) \<le> 19"
  shows "\<not> luhn_check (p @ [b] @ q)"
proof -
  let ?n = "luhn_sum 0 (rev q) + luhn_sum (Suc (length q)) (rev p)"
  let ?x = "luhn_weight (length q) (luhn_digit a)"
  let ?y = "luhn_weight (length q) (luhn_digit b)"
  have "luhn_digit a \<noteq> luhn_digit b" using assms(2-4) luhn_digit_inj by blast
  then have "?x \<noteq> ?y" using luhn_weight_inj luhn_digit_le by blast
  moreover have "?x < 10" using luhn_weight_le [OF luhn_digit_le, of "length q" a] by linarith
  moreover have "?y < 10" using luhn_weight_le [OF luhn_digit_le, of "length q" b] by linarith
  ultimately have neq: "?x mod 10 \<noteq> ?y mod 10" by simp
  have len: "length (p @ [b] @ q) \<le> 19" using assms(5) by simp
  show ?thesis
  proof
    assume "luhn_check (p @ [b] @ q)"
    from mod_cancel_left [OF iffD1 [OF luhn_check_subst [OF assms(5)] assms(1)]
        iffD1 [OF luhn_check_subst [OF len] this]] neq
    show False by contradiction
  qed
qed

theorem luhn_single_error_witness: "\<not> luhn_check (lit ''453201511283036'' @ [55] @ [])"
  by (rule luhn_single_error [of _ 54]) (code_simp, simp_all add: is_ascii_digit_def)

text \<open>The doubled weight of a digit, and the table of swaps it tells apart.\<close>

definition luhn_dbl :: "nat \<Rightarrow> nat" where
  "luhn_dbl d = (if 2 * d > 9 then 2 * d - 9 else 2 * d)"

lemma luhn_swap_table:
  "list_all (\<lambda>a. list_all (\<lambda>b. a = b \<or> (a = 0 \<and> b = 9) \<or> (a = 9 \<and> b = 0)
      \<or> (a + luhn_dbl b) mod 10 \<noteq> (b + luhn_dbl a) mod 10) [0..<10]) [0..<10]"
  by code_simp

lemma luhn_swap_pair:
  assumes "a \<le> 9" "b \<le> 9" "a \<noteq> b" "\<not> (a = 0 \<and> b = 9)" "\<not> (a = 9 \<and> b = 0)"
  shows "(luhn_weight i a + luhn_weight (Suc i) b) mod 10 \<noteq>
         (luhn_weight i b + luhn_weight (Suc i) a) mod 10"
proof -
  have tab: "(x + luhn_dbl y) mod 10 \<noteq> (y + luhn_dbl x) mod 10"
    if "x \<le> 9" "y \<le> 9" "x \<noteq> y" "\<not> (x = 0 \<and> y = 9)" "\<not> (x = 9 \<and> y = 0)" for x y :: nat
  proof -
    have "x \<in> set [0..<10]" "y \<in> set [0..<10]" using that(1,2) by auto
    then have "x = y \<or> (x = 0 \<and> y = 9) \<or> (x = 9 \<and> y = 0)
        \<or> (x + luhn_dbl y) mod 10 \<noteq> (y + luhn_dbl x) mod 10"
      using luhn_swap_table unfolding list_all_iff by blast
    with that show ?thesis by blast
  qed
  have wt: "luhn_weight j x = (if odd j then luhn_dbl x else x)" for j x
    by (simp add: luhn_weight_def luhn_dbl_def)
  have "(a + luhn_dbl b) mod 10 \<noteq> (b + luhn_dbl a) mod 10" by (rule tab) (use assms in auto)
  moreover have "(b + luhn_dbl a) mod 10 \<noteq> (a + luhn_dbl b) mod 10" by (rule tab) (use assms in auto)
  ultimately show ?thesis unfolding wt
    by (cases "even i") (simp_all add: add.commute [of "luhn_dbl a"] add.commute [of "luhn_dbl b"])
qed

lemma luhn_check_subst2:
  assumes "length (p @ [a, b] @ q) \<le> 19"
  shows "luhn_check (p @ [a, b] @ q) \<longleftrightarrow>
    (luhn_sum 0 (rev q) + luhn_sum (Suc (Suc (length q))) (rev p)
       + (luhn_weight (length q) (luhn_digit b) + luhn_weight (Suc (length q)) (luhn_digit a))) mod 10 = 0"
proof -
  have "luhn_sum 0 (rev (p @ [a, b] @ q)) = luhn_sum 0 (rev q)
      + luhn_sum (Suc (Suc (length q))) (rev p)
      + (luhn_weight (length q) (luhn_digit b) + luhn_weight (Suc (length q)) (luhn_digit a))"
    by (simp add: luhn_sum_append)
  moreover have "9 * length (p @ [a, b] @ q) < 2 ^ 32" using assms by simp
  ultimately show ?thesis by (simp only: luhn_check_sum)
qed

text \<open>The check catches every swap of two adjacent different digits, other than \<open>09\<close> and
  \<open>90\<close>.\<close>

theorem luhn_swap_error:
  assumes "luhn_check (p @ [a, b] @ q)" "length (p @ [a, b] @ q) \<le> 19"
    and "is_ascii_digit a" "is_ascii_digit b" "a \<noteq> b"
    and "\<not> (a = 48 \<and> b = 57)" "\<not> (a = 57 \<and> b = 48)"
  shows "\<not> luhn_check (p @ [b, a] @ q)"
proof
  assume swapped: "luhn_check (p @ [b, a] @ q)"
  have len: "length (p @ [b, a] @ q) \<le> 19" using assms(2) by simp
  have "(luhn_weight (length q) (luhn_digit b) + luhn_weight (Suc (length q)) (luhn_digit a)) mod 10
      = (luhn_weight (length q) (luhn_digit a) + luhn_weight (Suc (length q)) (luhn_digit b)) mod 10"
    by (rule mod_cancel_left [OF iffD1 [OF luhn_check_subst2 [OF assms(2)] assms(1)]
          iffD1 [OF luhn_check_subst2 [OF len] swapped]])
  moreover have "luhn_digit b \<noteq> luhn_digit a" using assms(3-5) luhn_digit_inj by blast
  moreover have "\<not> (luhn_digit b = 0 \<and> luhn_digit a = 9)" "\<not> (luhn_digit b = 9 \<and> luhn_digit a = 0)"
    using assms(3-7) by (auto simp: luhn_digit_def to_digit10_def is_ascii_digit_def)
  ultimately show False
    using luhn_swap_pair [OF luhn_digit_le luhn_digit_le] by blast
qed

theorem luhn_swap_error_witness: "\<not> luhn_check (lit ''4532'' @ [49, 48] @ lit ''5112830366'')"
  by (rule luhn_swap_error) (code_simp, simp_all add: is_ascii_digit_def)

section \<open>The scan\<close>

lemma filter_digit_ascii [simp]: "is_ascii (filter is_ascii_digit s)"
  by (auto simp: is_ascii_def is_ascii_digit_def)

text \<open>The body never panics: what it slices is 13 to 19 ASCII digits.\<close>

lemma luhn_body_eq:
  "luhn_body m =
     (let ds = filter is_ascii_digit (m_str m)
      in if 13 \<le> length ds \<and> length ds \<le> 19 \<and> luhn_check ds
         then Some (Some \<lparr>c_classifier = luhn_NAME, c_start = m_start m, c_end = m_end m,
                          c_redacted = lit ''**** **** **** '' @ drop (length ds - 4) ds,
                          c_last4 = drop (length ds - 4) ds\<rparr>)
         else Some None)"
  by (simp add: luhn_body_def Let_def blen_ascii luhn_redact_def slice_last_ascii)

text \<open>The card scan never panics, on any text and whatever the regex returns.\<close>

lemma luhn_scan_total: "luhn_scan re t \<noteq> None"
  by (simp add: luhn_scan_def scan_loop_None luhn_body_eq Let_def)

text \<open>What the scan needs of its compiled pattern.\<close>

locale card_regex = unicode_classes nd wd + regex_find wd "CARD_REGEX nd" find_iter
  for nd :: "rchar \<Rightarrow> bool" and wd :: "rchar \<Rightarrow> bool" and find_iter :: "rstr \<Rightarrow> rmatch list"
begin

lemma card_chars: "rx_all (\<lambda>c. nd c \<or> is_sep c) (CARD_REGEX nd)"
  by (simp add: CARD_REGEX_def)

lemma card_long: "rx_in wd (CARD_REGEX nd) u v w \<Longrightarrow> length (filter is_ascii_digit v) \<le> length v"
  by simp

lemma scan_match:
  assumes "luhn_scan find_iter t = Some ms" "m \<in> set ms"
  obtains u v w ds where "t = u @ v @ w" "ds = filter is_ascii_digit v" "13 \<le> length ds"
    "length ds \<le> 19" "luhn_check ds" "rx_in wd (CARD_REGEX nd) u v w"
    "m = \<lparr>c_classifier = luhn_NAME, c_start = blen u, c_end = blen (u @ v),
          c_redacted = lit ''**** **** **** '' @ drop (length ds - 4) ds,
          c_last4 = drop (length ds - 4) ds\<rparr>"
proof -
  obtain r where r: "r \<in> set (find_iter t)" "luhn_body r = Some (Some m)"
    using assms scan_loop_Some unfolding luhn_scan_def by metis
  from find_matchE [OF r(1)] obtain u w where "t = u @ m_str r @ w" "m_start r = blen u"
    "m_end r = blen u + blen (m_str r)" "rx_in wd (CARD_REGEX nd) u (m_str r) w" by metis
  with r(2) that [of u "m_str r" w "filter is_ascii_digit (m_str r)"] show thesis
    by (auto simp: luhn_body_eq Let_def split: if_splits)
qed

lemma luhn_reports:
  assumes "luhn_scan find_iter t = Some ms" "m \<in> set ms"
  shows "c_classifier m = luhn_NAME \<and> reports t m"
proof -
  obtain u v w ds where m: "t = u @ v @ w" "ds = filter is_ascii_digit v" "13 \<le> length ds"
    "m = \<lparr>c_classifier = luhn_NAME, c_start = blen u, c_end = blen (u @ v),
          c_redacted = lit ''**** **** **** '' @ drop (length ds - 4) ds,
          c_last4 = drop (length ds - 4) ds\<rparr>"
    using scan_match [OF assms] by metis
  have "length ds \<le> length v" using m(2) by simp
  then have "10 \<le> length v" using m(3) by linarith
  moreover have "digits_shown (lit ''**** **** **** '') = 0" by code_simp
  moreover have "digits_shown (drop (length ds - 4) ds) \<le> 4"
    using digits_shown_le [of "drop (length ds - 4) ds"] by simp
  ultimately show ?thesis using m by (auto simp: reports_def)
qed

sublocale classifier luhn_NAME "luhn_scan find_iter"
  by unfold_locales (simp_all add: luhn_reports)

text \<open>The digits of a bare number match the pattern.\<close>

lemma opt_digit: "nd c \<Longrightarrow> rx_in wd (RSeq (RCls nd) (ROpt q)) u [c] w"
  unfolding rx_in_RSeq by (intro exI [of _ "[c]"] exI [of _ "[]"]) simp

lemma bare_card_matches:
  assumes "list_all is_ascii_digit d" "13 \<le> length d" "length d \<le> 19"
    and "u = [] \<or> \<not> wd (last u)" "w = [] \<or> \<not> wd (hd w)"
  shows "rx_in wd (CARD_REGEX nd) u d w"
proof -
  obtain a c where d: "d = a @ [c]" using assms(2) by (cases d rule: rev_cases) auto
  have nd: "list_all nd a" "nd c" using assms(1) d by (auto simp: list_all_iff nd_digit)
  have a: "a \<noteq> []" "nd (hd a)" using d assms(2) nd by (cases a; simp)+
  have "at_wb wd u (a @ c # w)" using wb_before [OF a(2,1) assms(4), of "c # w"] by simp
  then have 1: "rx_in wd RWb u [] (d @ w)" by (simp add: d)
  have "at_wb wd (u @ a @ [c]) w" using wb_after [of "[c]" w "u @ a"] nd assms(5) by simp
  then have 2: "rx_in wd (RSeq (RCls nd) RWb) (u @ a) [c] w"
    unfolding rx_in_RSeq using nd(2) by (intro exI [of _ "[c]"] exI [of _ "[]"]) simp
  have "rep_in (rx_in wd (RSeq (RCls nd) (ROpt (RCls is_sep)))) 12 18 u a ([c] @ w)"
    by (rule rep_in_single, rule opt_digit, assumption, rule nd(1)) (use d assms(2,3) in simp_all)
  then have 3: "rx_in wd (RRep 12 18 (RSeq (RCls nd) (ROpt (RCls is_sep)))) u a ([c] @ w)"
    by (simp only: rx_in.simps(4))
  have "rx_in wd (RSeq (RRep 12 18 (RSeq (RCls nd) (ROpt (RCls is_sep)))) (RSeq (RCls nd) RWb)) u d w"
    using 2 3 unfolding d by (subst rx_in_RSeq) blast
  with 1 show ?thesis unfolding CARD_REGEX_def
    by (subst rx_in_RSeq) (intro exI [of _ "[]"] exI [of _ d], simp)
qed

lemma card_ends: "rx_in wd (CARD_REGEX nd) u v w \<Longrightarrow> v \<noteq> [] \<and> nd (last v) \<and> at_wb wd (u @ v) w"
  unfolding CARD_REGEX_def
  by auto

text \<open>A bare valid number whose neighbours are neither word chars nor separators is reported.\<close>

lemma isolated_found:
  assumes d: "list_all is_ascii_digit d" "13 \<le> length d" "length d \<le> 19" "luhn_check d"
    and u: "u = [] \<or> \<not> wd (last u) \<and> \<not> is_sep (last u)"
    and w: "w = [] \<or> \<not> wd (hd w) \<and> \<not> is_sep (hd w)"
  shows "\<exists>ms. luhn_scan find_iter (u @ d @ w) = Some ms \<and>
    (\<exists>m \<in> set ms. c_start m = blen u \<and> c_end m = blen (u @ d) \<and> c_last4 m = drop (length d - 4) d)"
proof -
  have d0: "d \<noteq> []" using d(2) by auto
  have left: "u = [] \<or> \<not> (nd (last u) \<or> is_sep (last u))" using u nd_word by blast
  have rx: "rx_in wd (CARD_REGEX nd) u d w" by (rule bare_card_matches) (use d u w in auto)
  from find_from [OF d0 rx card_chars left] obtain m w' where
    m: "m \<in> set (find_iter (u @ d @ w))" "d @ w = m_str m @ w'" "m_start m = blen u"
      "m_end m = blen (u @ m_str m)" "rx_in wd (CARD_REGEX nd) u (m_str m) w'" by blast
  note ends = card_ends [OF m(5)]
  have "m_str m = d"
  proof (rule append_compare [OF m(2)])
    fix x assume x: "x \<noteq> []" "d = m_str m @ x" "w' = x @ w"
    have "nd (hd x)" using d(1) x by (cases x) (auto simp: nd_digit)
    from no_wb_inside [OF _ _ this x(1), of "m_str m" u w] ends x(3) show ?thesis by simp
  next
    fix x assume x: "x \<noteq> []" "m_str m = d @ x" "w = x @ w'"
    have "list_all (\<lambda>c. nd c \<or> is_sep c) (m_str m)" by (rule rx_in_all [OF card_chars m(5)])
    then have "nd (hd w) \<or> is_sep (hd w)" using x by (cases x) auto
    then show ?thesis using w x nd_word by auto
  qed simp
  moreover have "filter is_ascii_digit d = d" using d(1) by (simp add: list_all_iff)
  ultimately have body: "luhn_body m = Some (Some \<lparr>c_classifier = luhn_NAME, c_start = m_start m,
      c_end = m_end m, c_redacted = lit ''**** **** **** '' @ drop (length d - 4) d,
      c_last4 = drop (length d - 4) d\<rparr>)"
    using d by (simp add: luhn_body_eq)
  obtain ms where ms: "luhn_scan find_iter (u @ d @ w) = Some ms" using luhn_scan_total by blast
  with body m(1) have "\<lparr>c_classifier = luhn_NAME, c_start = m_start m,
      c_end = m_end m, c_redacted = lit ''**** **** **** '' @ drop (length d - 4) d,
      c_last4 = drop (length d - 4) d\<rparr> \<in> set ms"
    using scan_loop_Some unfolding luhn_scan_def by blast
  with ms m(3,4) \<open>m_str m = d\<close> show ?thesis by (intro exI [of _ ms] conjI) (auto intro!: bexI)
qed

end

interpretation ref_card: card_regex eval_nd eval_wd "ref_find_iter eval_wd (CARD_REGEX eval_nd)"
  by unfold_locales

section \<open>What the scan finds and discloses\<close>

text \<open>Every match the card scan reports is a part of the text with the offsets given, holds
  13 to 19 ASCII digits that pass the check, and discloses its last four digits only.\<close>

theorem luhn_scan_sound:
  assumes "card_regex nd wd re" "luhn_scan re t = Some ms" "m \<in> set ms"
  shows "\<exists>u v w ds. t = u @ v @ w \<and> c_start m = blen u \<and> c_end m = blen (u @ v)
    \<and> ds = filter is_ascii_digit v \<and> 13 \<le> length ds \<and> length ds \<le> 19 \<and> luhn_check ds
    \<and> c_last4 m = drop (length ds - 4) ds \<and> c_redacted m = lit ''**** **** **** '' @ c_last4 m"
  by (rule card_regex.scan_match [OF assms]) (simp, blast)

theorem luhn_scan_sound_witness:
  "\<exists>u v w ds. lit ''pay 4532-0151-1283-0366 now'' = u @ v @ w \<and> (4::nat) = blen u \<and> 23 = blen (u @ v)
    \<and> ds = filter is_ascii_digit v \<and> 13 \<le> length ds \<and> length ds \<le> 19 \<and> luhn_check ds
    \<and> lit ''0366'' = drop (length ds - 4) ds \<and> lit ''**** **** **** 0366'' = lit ''**** **** **** '' @ lit ''0366''"
proof -
  let ?m = "\<lparr>c_classifier = luhn_NAME, c_start = 4, c_end = 23,
        c_redacted = lit ''**** **** **** 0366'', c_last4 = lit ''0366''\<rparr>"
  have "luhn_scan (ref_find_iter eval_wd (CARD_REGEX eval_nd)) (lit ''pay 4532-0151-1283-0366 now'') = Some [?m]"
    by code_simp
  from luhn_scan_sound [OF ref_card.card_regex_axioms this, of ?m] show ?thesis
    by (simp only: cmatch.simps list.set insert_iff simp_thms)
qed

text \<open>A bare card number that passes the check, with no word char or separator next to it, is
  reported wherever it stands in the text.\<close>

theorem luhn_scan_complete:
  assumes "card_regex nd wd re"
    and "list_all is_ascii_digit d" "13 \<le> length d" "length d \<le> 19" "luhn_check d"
    and "u = [] \<or> \<not> wd (last u) \<and> \<not> is_sep (last u)"
    and "w = [] \<or> \<not> wd (hd w) \<and> \<not> is_sep (hd w)"
  shows "\<exists>ms. luhn_scan re (u @ d @ w) = Some ms \<and>
    (\<exists>m \<in> set ms. c_start m = blen u \<and> c_end m = blen (u @ d) \<and> c_last4 m = drop (length d - 4) d)"
  by (rule card_regex.isolated_found [OF assms])

theorem luhn_scan_complete_witness:
  "\<exists>ms. luhn_scan (ref_find_iter eval_wd (CARD_REGEX eval_nd))
      (lit ''no:'' @ lit ''4532015112830366'' @ lit ''.'') = Some ms \<and>
    (\<exists>m \<in> set ms. c_start m = blen (lit ''no:'') \<and> c_end m = blen (lit ''no:'' @ lit ''4532015112830366'')
      \<and> c_last4 m = drop (length (lit ''4532015112830366'') - 4) (lit ''4532015112830366''))"
  by (rule luhn_scan_complete [OF ref_card.card_regex_axioms]) (code_simp)+

text \<open>A card number that follows another digit group after a space is missed: the pattern takes
  both groups as one number of 18 digits, which fails the check.\<close>

theorem luhn_scan_misses_after_group:
  "luhn_check (lit ''4532015112830366'') \<and>
   luhn_scan (ref_find_iter eval_wd (CARD_REGEX eval_nd)) (lit ''12 4532015112830366'') = Some []"
  by code_simp

end
