(* ===== verification/Weighted.thy ===== *)
theory Weighted
  imports Classifier Regex_Engine
begin

text \<open>
  The weighted checksum loop that \<open>pesel_check\<close> and \<open>nip_check\<close> share word for word, on the
  bytes of the string with \<open>u8\<close> and \<open>u32\<close> arithmetic as in a release build, and its meaning
  on digits and numbers.
\<close>

section \<open>The loop\<close>

text \<open>\<open>for (i, w) in WEIGHTS.iter().enumerate()\<close>; \<open>None\<close> is the early \<open>return false\<close>.\<close>

fun weighted_loop :: "nat \<Rightarrow> u32 list \<Rightarrow> u8 list \<Rightarrow> u32 \<Rightarrow> u32 option" where
  "weighted_loop i [] bytes acc = Some acc"
| "weighted_loop i (w # ws) bytes acc =
     (let d = (ucast (bytes ! i - 48) :: u32)
      in if d > 9 then None else weighted_loop (Suc i) ws bytes (acc + d * w))"

section \<open>Its meaning\<close>

definition byte_digit :: "u8 \<Rightarrow> nat" where
  "byte_digit b = unat (b - 48)"

lemma ucast_byte_digit: "unat (ucast (b - 48 :: u8) :: u32) = byte_digit b"
proof -
  have "unat (b - 48) < 2 ^ LENGTH(8)" by (rule unsigned_less)
  then show ?thesis by (simp add: byte_digit_def unsigned_ucast_eq take_bit_nat_eq_self)
qed

lemma of_nat_byte_digit: "of_nat (byte_digit b) = (ucast (b - 48) :: u32)"
  unfolding ucast_byte_digit [symmetric] by (rule of_nat_unat_id)

fun wsum :: "nat list \<Rightarrow> nat list \<Rightarrow> nat" where
  "wsum (w # ws) (d # ds) = w * d + wsum ws ds"
| "wsum _ _ = 0"

lemma weighted_loop_spec:
  "length ws \<le> length (drop i bytes) \<Longrightarrow> unat acc + 9 * sum_list (map unat ws) < 2 ^ 32 \<Longrightarrow>
   (case weighted_loop i ws bytes acc of
      None \<Rightarrow> \<not> list_all (\<lambda>b. byte_digit b \<le> 9) (take (length ws) (drop i bytes))
    | Some r \<Rightarrow> list_all (\<lambda>b. byte_digit b \<le> 9) (take (length ws) (drop i bytes)) \<and>
        unat r = unat acc + wsum (map unat ws) (map byte_digit (drop i bytes)))"
proof (induction i ws bytes acc rule: weighted_loop.induct)
  case (2 i w ws bytes acc)
  let ?b = "bytes ! i" and ?d = "ucast (bytes ! i - 48) :: u32"
  have dr: "drop i bytes = ?b # drop (Suc i) bytes" using "2.prems"(1) by (simp add: Cons_nth_drop_Suc)
  note d = ucast_byte_digit [of ?b]
  have gt: "?d > 9 \<longleftrightarrow> \<not> byte_digit ?b \<le> 9" by (simp add: word_less_nat_alt d not_le)
  show ?case
  proof (cases "byte_digit ?b \<le> 9")
    case True
    have "unat w * byte_digit ?b \<le> unat w * 9" using True by (rule mult_le_mono2)
    moreover have "unat acc + 9 * unat w + 9 * sum_list (map unat ws) < 2 ^ 32"
      using "2.prems"(2) by simp
    ultimately have lt: "unat acc + unat w * byte_digit ?b + 9 * sum_list (map unat ws) < 2 ^ 32"
      by linarith
    have m: "unat (?d * w) = byte_digit ?b * unat w"
      using lt by (simp add: unat_word_ariths d mult.commute)
    have a: "unat (acc + ?d * w) = unat acc + unat w * byte_digit ?b"
      unfolding unat_word_ariths(1) m using lt by (simp add: mult.commute)
    have "length ws \<le> length (drop (Suc i) bytes)" using "2.prems"(1) by simp
    moreover have "unat (acc + ?d * w) + 9 * sum_list (map unat ws) < 2 ^ 32" using a lt by simp
    ultimately show ?thesis using "2.IH" [OF refl] True gt a
      by (simp add: Let_def dr split: option.splits)
  qed (simp add: gt Let_def dr)
qed simp

section \<open>Bytes and chars\<close>

lemma byte_digit_table:
  "list_all (\<lambda>c. (byte_digit (of_nat c) \<le> 9 \<longleftrightarrow> is_ascii_digit c) \<and>
     (is_ascii_digit c \<longrightarrow> byte_digit (of_nat c) = c - 48)) [0..<128]"
  by code_simp

lemma byte_digit_ascii:
  assumes "c < 128"
  shows "byte_digit (of_nat c) \<le> 9 \<longleftrightarrow> is_ascii_digit c"
    and "is_ascii_digit c \<Longrightarrow> byte_digit (of_nat c) = c - 48"
proof -
  have "c \<in> set [0..<128]" using assms by simp
  with byte_digit_table show "byte_digit (of_nat c) \<le> 9 \<longleftrightarrow> is_ascii_digit c"
    and "is_ascii_digit c \<Longrightarrow> byte_digit (of_nat c) = c - 48"
    unfolding list_all_iff by blast+
qed

lemma high_byte_table: "list_all (\<lambda>k. \<not> byte_digit (of_nat (128 + k)) \<le> 9) [0..<64]"
  by code_simp

lemma utf8_high: "\<not> c < 128 \<Longrightarrow> \<exists>b \<in> set (utf8 c). \<not> byte_digit b \<le> 9"
proof -
  assume "\<not> c < 128"
  then have "of_nat (128 + c mod 64) \<in> set (utf8 c)" by (auto simp: utf8_def)
  moreover have "\<not> byte_digit (of_nat (128 + c mod 64)) \<le> 9"
  proof -
    have "c mod 64 \<in> set [0..<64]" by simp
    then show ?thesis using high_byte_table unfolding list_all_iff by blast
  qed
  ultimately show ?thesis by blast
qed

lemma digit_bytes: "list_all (\<lambda>b. byte_digit b \<le> 9) (as_bytes s) \<longleftrightarrow> list_all is_ascii_digit s"
proof (induction s)
  case (Cons c s)
  have "list_all (\<lambda>b. byte_digit b \<le> 9) (utf8 c) \<longleftrightarrow> is_ascii_digit c"
  proof (cases "c < 128")
    case False
    with utf8_high [OF False] show ?thesis
      by (auto simp: list_all_iff is_ascii_digit_def)
  qed (simp add: byte_digit_ascii)
  with Cons show ?case by simp
qed simp

definition digit_of :: "rchar \<Rightarrow> nat" where
  "digit_of c = c - 48"

lemma digit_of_le: "is_ascii_digit c \<Longrightarrow> digit_of c \<le> 9"
  by (auto simp: digit_of_def is_ascii_digit_def)

lemma digit_of_inj: "is_ascii_digit a \<Longrightarrow> is_ascii_digit b \<Longrightarrow> digit_of a = digit_of b \<Longrightarrow> a = b"
  by (auto simp: digit_of_def is_ascii_digit_def)

lemma digits_ascii: "list_all is_ascii_digit s \<Longrightarrow> is_ascii s"
  by (auto simp: is_ascii_def list_all_iff is_ascii_digit_def)

lemma digits_bytes_map: "list_all is_ascii_digit s \<Longrightarrow> map byte_digit (as_bytes s) = map digit_of s"
  by (induction s) (auto simp: digit_of_def byte_digit_ascii is_ascii_digit_lt)

lemma wsum_append: "length ws = length ds \<Longrightarrow> wsum (ws @ vs) (ds @ es) = wsum ws ds + wsum vs es"
  by (induction ws ds rule: list_induct2) auto

lemma wsum_take: "length ws \<le> length ds \<Longrightarrow> wsum ws ds = wsum ws (take (length ws) ds)"
  by (induction ws ds rule: wsum.induct) auto

lemma digit_byte_nth:
  "list_all is_ascii_digit s \<Longrightarrow> i < length s \<Longrightarrow> byte_digit (as_bytes s ! i) = digit_of (s ! i)"
proof -
  assume d: "list_all is_ascii_digit s" and i: "i < length s"
  then have "length (as_bytes s) = length s" using blen_ascii [OF digits_ascii [OF d]] by (simp add: blen_def)
  then have "map byte_digit (as_bytes s) ! i = byte_digit (as_bytes s ! i)" using i by simp
  with i show ?thesis unfolding digits_bytes_map [OF d] by simp
qed

lemma wsum_le: "list_all (\<lambda>d. d \<le> 9) ds \<Longrightarrow> wsum ws ds \<le> 9 * sum_list ws"
proof (induction ws ds rule: wsum.induct)
  case (1 w ws d ds)
  then have "w * d \<le> w * 9" by (intro mult_le_mono2) simp
  moreover have "wsum ws ds \<le> 9 * sum_list ws" using 1 by simp
  ultimately show ?case by (simp only: wsum.simps sum_list.Cons distrib_left)
qed simp_all

lemma wsum_digits_le: "list_all is_ascii_digit s \<Longrightarrow> wsum ws (map digit_of s) \<le> 9 * sum_list ws"
  by (rule wsum_le) (auto simp: list_all_iff digit_of_le)

lemma wsum_snoc: "length ds = Suc (length ws) \<Longrightarrow> wsum (ws @ [w]) ds = wsum ws ds + w * ds ! length ws"
proof (induction ws arbitrary: ds)
  case Nil
  then show ?case by (cases ds) auto
next
  case (Cons v ws)
  then show ?case by (cases ds) auto
qed

text \<open>The loop followed by a comparison with the last digit, on a string of one byte more than
  there are weights: a weighted sum of the digits.\<close>

lemma weighted_check:
  fixes Q :: "u32 \<Rightarrow> u32 \<Rightarrow> bool"
  assumes len: "blen s = Suc (length ws)" and small: "9 * sum_list (map unat ws) < 2 ^ 32"
    and Q: "\<And>acc d. Q acc d \<Longrightarrow> unat d \<le> 9"
  shows "(\<exists>acc. weighted_loop 0 ws (as_bytes s) 0 = Some acc \<and>
      Q acc (ucast (as_bytes s ! length ws - 48))) \<longleftrightarrow>
    list_all is_ascii_digit s \<and>
      Q (of_nat (wsum (map unat ws) (map digit_of s))) (of_nat (digit_of (s ! length ws)))"
    (is "?L \<longleftrightarrow> ?R")
proof -
  let ?b = "as_bytes s" and ?n = "length ws"
  have lb: "length ?b = Suc ?n" using len by (simp add: blen_def)
  have "length ws \<le> length (drop 0 ?b)" "unat (0 :: u32) + 9 * sum_list (map unat ws) < 2 ^ 32"
    using lb small by simp_all
  note loop = weighted_loop_spec [OF this, simplified drop_0 unsigned_0 add_0]
  have split: "?b = take ?n ?b @ [?b ! ?n]" using lb by (metis lessI order_refl take_Suc_conv_app_nth take_all)
  have last: "byte_digit (?b ! ?n) = digit_of (s ! ?n)" if "list_all is_ascii_digit s"
    using digit_byte_nth [OF that, of ?n] len blen_ascii [OF digits_ascii [OF that]] by simp
  show ?thesis
  proof
    assume ?L
    then obtain acc where acc: "weighted_loop 0 ws ?b 0 = Some acc" "Q acc (ucast (?b ! ?n - 48))" by blast
    have first: "list_all (\<lambda>b. byte_digit b \<le> 9) (take ?n ?b)"
      and acc': "unat acc = wsum (map unat ws) (map byte_digit ?b)"
      using loop acc(1) by auto
    have "byte_digit (?b ! ?n) \<le> 9" using Q [OF acc(2)] by (simp only: ucast_byte_digit)
    with first have "list_all (\<lambda>b. byte_digit b \<le> 9) (take ?n ?b @ [?b ! ?n])" by simp
    then have d: "list_all is_ascii_digit s" using split digit_bytes by simp
    have "of_nat (wsum (map unat ws) (map digit_of s)) = acc"
      unfolding digits_bytes_map [OF d, symmetric] acc' [symmetric] by simp
    moreover have "of_nat (digit_of (s ! ?n)) = (ucast (?b ! ?n - 48) :: u32)"
      unfolding last [OF d, symmetric] by (rule of_nat_byte_digit)
    ultimately show ?R using d acc(2) by simp
  next
    assume R: ?R
    then have d: "list_all is_ascii_digit s" by blast
    then have "list_all (\<lambda>b. byte_digit b \<le> 9) ?b" using digit_bytes by blast
    then have "list_all (\<lambda>b. byte_digit b \<le> 9) (take ?n ?b)"
      by (auto simp: list_all_iff dest: in_set_takeD)
    with loop obtain acc where acc: "weighted_loop 0 ws ?b 0 = Some acc"
      "unat acc = wsum (map unat ws) (map byte_digit ?b)" by (auto split: option.splits)
    have "of_nat (wsum (map unat ws) (map digit_of s)) = acc"
      unfolding digits_bytes_map [OF d, symmetric] acc(2) [symmetric] by simp
    moreover have "of_nat (digit_of (s ! ?n)) = (ucast (?b ! ?n - 48) :: u32)"
      unfolding last [OF d, symmetric] by (rule of_nat_byte_digit)
    ultimately show ?L using acc(1) R by auto
  qed
qed

text \<open>A number of which one digit is changed, and of which two neighbours are swapped.\<close>

lemma wsum_split:
  "length p + Suc (length q) = length ws \<Longrightarrow>
   wsum ws (p @ d # q) = wsum (take (length p) ws) p + ws ! length p * d
     + wsum (drop (Suc (length p)) ws) q"
proof -
  assume len: "length p + Suc (length q) = length ws"
  let ?n = "length p"
  have ws: "ws = take ?n ws @ ws ! ?n # drop (Suc ?n) ws" using len by (simp add: id_take_nth_drop)
  have "wsum ws (p @ d # q) = wsum (take ?n ws @ ws ! ?n # drop (Suc ?n) ws) (p @ d # q)"
    using ws by simp
  also have "\<dots> = wsum (take ?n ws) p + wsum (ws ! ?n # drop (Suc ?n) ws) (d # q)"
    using len by (intro wsum_append) simp
  finally show ?thesis by simp
qed

lemma wsum_split2:
  assumes "length p + Suc (Suc (length q)) = length ws"
  shows "wsum ws (p @ d # e # q) = wsum (take (length p) ws) p + wsum (drop (Suc (Suc (length p))) ws) q
     + (ws ! length p * d + ws ! Suc (length p) * e)"
proof -
  have "drop (Suc (length p)) ws = ws ! Suc (length p) # drop (Suc (Suc (length p))) ws"
    using assms by (simp add: Cons_nth_drop_Suc)
  then show ?thesis using wsum_split [of p "e # q" ws d] assms by simp
qed

end
