(* ===== verification/Pesel.thy ===== *)
theory Pesel
  imports Weighted
begin

text \<open>
  The PESEL classifier, \<open>classifier/pesel.rs\<close>. The weights and the last digit make the check
  one weighted sum modulo 10; the scan reports exactly the isolated 11-digit strings that
  pass it.
\<close>

section \<open>The code\<close>

definition pesel_NAME :: rstr where
  "pesel_NAME = lit ''polish_pesel''"

text \<open>\<^verbatim>\<open>\b\d{11}\b\<close>\<close>

definition PESEL_REGEX :: "(rchar \<Rightarrow> bool) \<Rightarrow> rx" where
  "PESEL_REGEX nd = RSeq RWb (RSeq (RRep 11 11 (RCls nd)) RWb)"

definition PESEL_WEIGHTS :: "u32 list" where
  "PESEL_WEIGHTS = [1, 3, 7, 9, 1, 3, 7, 9, 1, 3]"

definition pesel_check :: "rstr \<Rightarrow> bool" where
  "pesel_check digits =
     (if blen digits \<noteq> 11 then False
      else let bytes = as_bytes digits
      in case weighted_loop 0 PESEL_WEIGHTS bytes 0 of
           None \<Rightarrow> False
         | Some acc \<Rightarrow>
             let checksum = (10 - acc mod 10) mod 10;
                 last = (ucast (bytes ! 10 - 48) :: u32)
             in checksum = last)"

definition pesel_redact :: "rstr \<Rightarrow> rstr option" where
  "pesel_redact digits = map_option (\<lambda>l. lit ''*******'' @ l) (slice_last 4 digits)"

definition pesel_body :: "rmatch \<Rightarrow> cmatch option option" where
  "pesel_body m =
     (let s = m_str m
      in if \<not> pesel_check s then Some None
         else case pesel_redact s of None \<Rightarrow> None | Some red \<Rightarrow>
              (case slice_last 4 s of None \<Rightarrow> None | Some l4 \<Rightarrow>
                 Some (Some \<lparr>c_classifier = pesel_NAME, c_start = m_start m, c_end = m_end m,
                             c_redacted = red, c_last4 = l4\<rparr>)))"

definition pesel_scan :: "(rstr \<Rightarrow> rmatch list) \<Rightarrow> rstr \<Rightarrow> cmatch list option" where
  "pesel_scan re text = scan_loop pesel_body (re text)"

section \<open>The checksum\<close>

text \<open>The checksum of the register: all eleven digits weighted, the last with weight 1.\<close>

definition pesel_sum :: "rstr \<Rightarrow> nat" where
  "pesel_sum s = wsum [1, 3, 7, 9, 1, 3, 7, 9, 1, 3, 1] (map digit_of s)"

lemma pesel_weights: "map unat PESEL_WEIGHTS = [1, 3, 7, 9, 1, 3, 7, 9, 1, 3]" "length PESEL_WEIGHTS = 10"
  by (simp_all add: PESEL_WEIGHTS_def)

lemma checksum10_table: "list_all (\<lambda>a. list_all (\<lambda>d. ((10 - of_nat a) mod 10 = (of_nat d :: u32))
    = ((a + d) mod 10 = 0)) [0..<10]) [0..<10]"
  by code_simp

lemma checksum10:
  assumes "unat d \<le> 9"
  shows "(10 - acc mod 10) mod 10 = (d :: u32) \<longleftrightarrow> (unat acc + unat d) mod 10 = 0"
proof -
  have r: "unat acc mod 10 \<in> set [0..<10]" "unat d \<in> set [0..<10]" using assms by auto
  have t: "((10 - of_nat (unat acc mod 10)) mod 10 = (of_nat (unat d) :: u32)) =
      ((unat acc mod 10 + unat d) mod 10 = 0)"
    by (rule bspec [OF bspec [OF checksum10_table [unfolded list_all_iff] r(1)] r(2)])
  have "of_nat (unat acc mod 10) = acc mod 10" by (simp add: word_arith_nat_mod)
  then show ?thesis using t mod_add_left_eq [of "unat acc" 10 "unat d"] by simp
qed

lemma checksum10_le: "(10 - acc mod 10) mod 10 = (d :: u32) \<Longrightarrow> unat d \<le> 9"
proof -
  assume "(10 - acc mod 10) mod 10 = d"
  then have "unat d = unat ((10 - acc mod 10) mod 10)" by simp
  also have "\<dots> < 10" by (simp add: unat_mod)
  finally show ?thesis by simp
qed

lemma pesel_check_iff:
  "pesel_check s \<longleftrightarrow> length s = 11 \<and> list_all is_ascii_digit s \<and> pesel_sum s mod 10 = 0"
proof -
  have dl: "list_all is_ascii_digit s \<Longrightarrow> blen s = length s" by (simp add: blen_ascii digits_ascii)
  have "pesel_check s \<longleftrightarrow> list_all is_ascii_digit s \<and> pesel_sum s mod 10 = 0" if len: "blen s = 11"
  proof -
    have len': "blen s = Suc (length PESEL_WEIGHTS)" using len by (simp add: pesel_weights)
    have small: "9 * sum_list (map unat PESEL_WEIGHTS) < 2 ^ 32" by (simp add: pesel_weights)
    have "pesel_check s \<longleftrightarrow> (\<exists>acc. weighted_loop 0 PESEL_WEIGHTS (as_bytes s) 0 = Some acc \<and>
        (10 - acc mod 10) mod 10 = (ucast (as_bytes s ! length PESEL_WEIGHTS - 48) :: u32))"
      using len unfolding pesel_check_def by (simp add: Let_def pesel_weights split: option.split)
    also have "\<dots> \<longleftrightarrow> list_all is_ascii_digit s \<and>
      (10 - of_nat (wsum (map unat PESEL_WEIGHTS) (map digit_of s)) mod 10) mod 10
        = (of_nat (digit_of (s ! length PESEL_WEIGHTS)) :: u32)"
      by (rule weighted_check [OF len' small]) (rule checksum10_le)
    also have "\<dots> \<longleftrightarrow> list_all is_ascii_digit s \<and> pesel_sum s mod 10 = 0"
    proof (rule conj_cong [OF refl])
      assume d: "list_all is_ascii_digit s"
      let ?A = "wsum (map unat PESEL_WEIGHTS) (map digit_of s)" and ?D = "digit_of (s ! 10)"
      have l: "length s = 11" using dl [OF d] len by simp
      have "?A \<le> 9 * 48" using wsum_digits_le [OF d, of "map unat PESEL_WEIGHTS"]
        by (simp add: pesel_weights)
      then have A: "unat (of_nat ?A :: u32) = ?A" by (intro unat_of_nat_small) simp
      have D9: "?D \<le> 9" using d l by (simp add: list_all_length digit_of_le)
      then have D: "unat (of_nat ?D :: u32) = ?D" by (intro unat_of_nat_small) simp
      have w: "[1, 3, 7, 9, 1, 3, 7, 9, 1, 3, 1] = map unat PESEL_WEIGHTS @ [1]"
        by (simp add: pesel_weights)
      have "pesel_sum s = ?A + ?D" unfolding pesel_sum_def w
        using l wsum_snoc [of "map digit_of s" "map unat PESEL_WEIGHTS" 1] pesel_weights(2) by simp
      with checksum10 [of "of_nat ?D" "of_nat ?A"] A D D9
      show "((10 - of_nat ?A mod 10) mod 10 = (of_nat (digit_of (s ! length PESEL_WEIGHTS)) :: u32))
          = (pesel_sum s mod 10 = 0)" by (simp only: pesel_weights)
    qed
    finally show ?thesis .
  qed
  with dl show ?thesis by (auto simp: pesel_check_def)
qed

text \<open>The check on bytes with \<open>u8\<close> and \<open>u32\<close> arithmetic accepts exactly the strings of
  eleven ASCII digits whose weighted sum is a multiple of 10, whatever string it is given.\<close>

theorem pesel_check_correct:
  "pesel_check s \<longleftrightarrow> length s = 11 \<and> list_all is_ascii_digit s \<and> pesel_sum s mod 10 = 0"
  by (rule pesel_check_iff)

lemma pesel_check_digits: "pesel_check s \<Longrightarrow> length s = 11 \<and> is_ascii s \<and> list_all is_ascii_digit s"
  using pesel_check_iff digits_ascii by blast

lemma pesel_swap_coprime: "w \<in> {1, 3, 7, 9 :: nat} \<Longrightarrow> a \<le> 9 \<Longrightarrow> b \<le> 9 \<Longrightarrow>
    (w * a) mod 10 = (w * b) mod 10 \<Longrightarrow> a = b"
proof -
  have tab: "list_all (\<lambda>w. list_all (\<lambda>a. list_all (\<lambda>b. (w * a) mod 10 = (w * b) mod 10 \<longrightarrow> a = b)
      [0..<10]) [0..<10]) [1, 3, 7, 9 :: nat]" by code_simp
  assume "w \<in> {1, 3, 7, 9 :: nat}" "a \<le> 9" "b \<le> 9" and eq: "(w * a) mod 10 = (w * b) mod 10"
  then have r: "w \<in> set [1, 3, 7, 9]" "a \<in> set [0..<10]" "b \<in> set [0..<10]" by auto
  from bspec [OF bspec [OF bspec [OF tab [unfolded list_all_iff] r(1)] r(2)] r(3)] eq
  show "a = b" by blast
qed

text \<open>A PESEL number with one digit mistyped fails the check.\<close>

theorem pesel_single_error:
  assumes "pesel_check (p @ [a] @ q)" "is_ascii_digit b" "a \<noteq> b"
  shows "\<not> pesel_check (p @ [b] @ q)"
proof
  let ?ws = "[1, 3, 7, 9, 1, 3, 7, 9, 1, 3, 1] :: nat list"
  let ?r = "wsum (take (length p) ?ws) (map digit_of p) + wsum (drop (Suc (length p)) ?ws) (map digit_of q)"
  let ?w = "?ws ! length p"
  assume "pesel_check (p @ [b] @ q)"
  note A = iffD1 [OF pesel_check_iff assms(1)] and B = iffD1 [OF pesel_check_iff this]
  have l: "length p + Suc (length q) = 11" using A by simp
  have s: "pesel_sum (p @ [c] @ q) = ?r + ?w * digit_of c" for c
    unfolding pesel_sum_def using wsum_split [of "map digit_of p" "map digit_of q" ?ws "digit_of c"] l
    by simp
  have "(?w * digit_of a) mod 10 = (?w * digit_of b) mod 10"
    by (rule mod_cancel_left [of ?r]) (use A B s in auto)
  moreover have "?w \<in> set ?ws" by (rule nth_mem) (use l in simp)
  then have "?w \<in> {1, 3, 7, 9}" by auto
  moreover have a: "is_ascii_digit a" using A by simp
  ultimately have "digit_of a = digit_of b" using pesel_swap_coprime digit_of_le assms(2) by blast
  with digit_of_inj a assms(2,3) show False by blast
qed

theorem pesel_single_error_witness: "\<not> pesel_check (lit ''4405140'' @ [50] @ lit ''359'')"
  by (rule pesel_single_error [of _ 49]) (code_simp, simp_all add: is_ascii_digit_def)

section \<open>The scan\<close>

lemma pesel_body_eq:
  "pesel_body m =
     (if pesel_check (m_str m)
      then Some (Some \<lparr>c_classifier = pesel_NAME, c_start = m_start m, c_end = m_end m,
             c_redacted = lit ''*******'' @ drop 7 (m_str m), c_last4 = drop 7 (m_str m)\<rparr>)
      else Some None)"
  using pesel_check_digits [of "m_str m"]
  by (auto simp: pesel_body_def Let_def pesel_redact_def slice_last_ascii)

lemma pesel_scan_total: "pesel_scan re t \<noteq> None"
  by (simp add: pesel_scan_def scan_loop_None pesel_body_eq)

locale pesel_regex = unicode_classes nd wd + regex_find wd "PESEL_REGEX nd" find_iter
  for nd :: "rchar \<Rightarrow> bool" and wd :: "rchar \<Rightarrow> bool" and find_iter :: "rstr \<Rightarrow> rmatch list"
begin

lemma pesel_rx: "rx_in wd (PESEL_REGEX nd) u v w \<longleftrightarrow>
    list_all nd v \<and> length v = 11 \<and> at_wb wd u (v @ w) \<and> at_wb wd (u @ v) w"
  by (auto simp: PESEL_REGEX_def)

lemma scan_iff:
  assumes "pesel_scan find_iter t = Some ms"
  shows "m \<in> set ms \<longleftrightarrow> (\<exists>r \<in> set (find_iter t). pesel_check (m_str r) \<and>
    m = \<lparr>c_classifier = pesel_NAME, c_start = m_start r, c_end = m_end r,
         c_redacted = lit ''*******'' @ drop 7 (m_str r), c_last4 = drop 7 (m_str r)\<rparr>)"
  using scan_loop_Some [OF assms [unfolded pesel_scan_def], of m] by (auto simp: pesel_body_eq)

lemma pesel_reports:
  assumes "pesel_scan find_iter t = Some ms" "m \<in> set ms"
  shows "c_classifier m = pesel_NAME \<and> reports t m"
proof -
  obtain r where r: "r \<in> set (find_iter t)" "pesel_check (m_str r)"
    "m = \<lparr>c_classifier = pesel_NAME, c_start = m_start r, c_end = m_end r,
          c_redacted = lit ''*******'' @ drop 7 (m_str r), c_last4 = drop 7 (m_str r)\<rparr>"
    using scan_iff [OF assms(1)] assms(2) by blast
  have len: "length (m_str r) = 11" using pesel_check_digits [OF r(2)] by simp
  moreover have "digits_shown (lit ''*******'') = 0" by code_simp
  moreover have "digits_shown (drop 7 (m_str r)) \<le> 4"
    using digits_shown_le [of "drop 7 (m_str r)"] len by simp
  moreover obtain u w where "t = u @ m_str r @ w" "m_start r = blen u"
    "m_end r = blen u + blen (m_str r)" using find_matchE [OF r(1)] by metis
  ultimately show ?thesis unfolding reports_def using r(3)
    by (intro conjI exI [of _ u] exI [of _ "m_str r"] exI [of _ w]) simp_all
qed

sublocale classifier pesel_NAME "pesel_scan find_iter"
  by unfold_locales (simp_all add: pesel_reports)

lemma scan_exact:
  assumes "pesel_scan find_iter (u @ d @ w) = Some ms"
  shows "\<lparr>c_classifier = pesel_NAME, c_start = blen u, c_end = blen (u @ d),
      c_redacted = lit ''*******'' @ drop 7 d, c_last4 = drop 7 d\<rparr> \<in> set ms \<longleftrightarrow>
    pesel_check d \<and> (u = [] \<or> \<not> wd (last u)) \<and> (w = [] \<or> \<not> wd (hd w))"
    (is "?m \<in> set ms \<longleftrightarrow> ?R")
proof
  assume "?m \<in> set ms"
  then obtain r where r: "r \<in> set (find_iter (u @ d @ w))" "pesel_check (m_str r)"
    "m_start r = blen u" "m_end r = blen (u @ d)" using scan_iff [OF assms] by auto
  obtain u' w' where t: "u @ d @ w = u' @ m_str r @ w'" "m_start r = blen u'"
    "m_end r = blen u' + blen (m_str r)" "rx_in wd (PESEL_REGEX nd) u' (m_str r) w'"
    using find_matchE [OF r(1)] by metis
  have 1: "u = u'" "d @ w = m_str r @ w'" using blen_cut [OF t(1)] t(2) r(3) by auto
  have 2: "d = m_str r" "w = w'" using blen_cut [OF 1(2)] t(3) r(3,4) 1(1) t(2) by auto
  have d: "list_all nd d" "d \<noteq> []" and wb: "at_wb wd u (d @ w)" "at_wb wd (u @ d) w"
    using t(4) 1 2 pesel_rx by auto
  have "nd (hd d)" "nd (last d)" using d by (auto simp: list_all_iff)
  then have "wd (hd d)" "wd (last d)" by (simp_all add: nd_word)
  then show ?R using wb d(2) r(2) 2(1) by (simp add: at_wb_def)
next
  assume R: ?R
  then have d: "length d = 11" "list_all is_ascii_digit d" using pesel_check_digits by blast+
  have d0: "d \<noteq> []" using d(1) by auto
  have nds: "list_all nd d" using d(2) by (auto simp: list_all_iff nd_digit)
  then have "nd (hd d)" "nd (last d)" using d0 by (auto simp: list_all_iff)
  then have rx: "rx_in wd (PESEL_REGEX nd) u d w"
    using R d nds d0 by (simp add: pesel_rx wb_before wb_after)
  have left: "u = [] \<or> \<not> nd (last u)" using R nd_word by blast
  have "rx_all nd (PESEL_REGEX nd)" by (simp add: PESEL_REGEX_def)
  from find_from [OF d0 rx this left] obtain m w' where
    m: "m \<in> set (find_iter (u @ d @ w))" "d @ w = m_str m @ w'" "m_start m = blen u"
      "m_end m = blen (u @ m_str m)" "rx_in wd (PESEL_REGEX nd) u (m_str m) w'" by blast
  have "m_str m = d" using m(2,5) d(1) by (simp add: pesel_rx append_eq_append_conv)
  with m R show "?m \<in> set ms" using scan_iff [OF assms] by auto
qed

end

interpretation ref_pesel: pesel_regex eval_nd eval_wd "ref_find_iter eval_wd (PESEL_REGEX eval_nd)"
  by unfold_locales

text \<open>C29: the PESEL scan returns, and reports a part of the text exactly when it passes the check
  and is not next to a word char; what it discloses of it is the last four digits.\<close>

theorem pesel_scan_exact:
  assumes "pesel_regex nd wd re"
  shows "\<exists>ms. pesel_scan re (u @ d @ w) = Some ms \<and>
    (\<lparr>c_classifier = pesel_NAME, c_start = blen u, c_end = blen (u @ d),
      c_redacted = lit ''*******'' @ drop 7 d, c_last4 = drop 7 d\<rparr> \<in> set ms \<longleftrightarrow>
     pesel_check d \<and> (u = [] \<or> \<not> wd (last u)) \<and> (w = [] \<or> \<not> wd (hd w)))"
proof -
  obtain ms where "pesel_scan re (u @ d @ w) = Some ms"
    using pesel_scan_total by blast
  with pesel_regex.scan_exact [OF assms this] show ?thesis by blast
qed

theorem pesel_scan_exact_witness:
  "\<exists>ms. pesel_scan (ref_find_iter eval_wd (PESEL_REGEX eval_nd)) (lit ''id '' @ lit ''44051401359'' @ lit ''!'') = Some ms \<and>
    (\<lparr>c_classifier = pesel_NAME, c_start = blen (lit ''id ''), c_end = blen (lit ''id '' @ lit ''44051401359''),
      c_redacted = lit ''*******'' @ drop 7 (lit ''44051401359''), c_last4 = drop 7 (lit ''44051401359'')\<rparr> \<in> set ms \<longleftrightarrow>
     pesel_check (lit ''44051401359'') \<and> (lit ''id '' = [] \<or> \<not> eval_wd (last (lit ''id '')))
       \<and> (lit ''!'' = [] \<or> \<not> eval_wd (hd (lit ''!''))))"
  by (rule pesel_scan_exact [OF ref_pesel.pesel_regex_axioms])

end
