(* ===== verification/Nip.thy ===== *)
theory Nip
  imports Weighted
begin

text \<open>
  The NIP (tax number) classifier, \<open>classifier/nip.rs\<close>: the weighted check modulo 11, the
  errors it catches, and the scan over numbers written with or without separators.
\<close>

section \<open>The code\<close>

definition nip_NAME :: rstr where
  "nip_NAME = lit ''polish_nip''"

definition nip_sep :: "rchar \<Rightarrow> bool" where
  "nip_sep c \<longleftrightarrow> c = 32 \<or> c = 45"

text \<open>\<^verbatim>\<open>\b\d{3}[ -]?\d{3}[ -]?\d{2}[ -]?\d{2}\b\<close>\<close>

definition NIP_REGEX :: "(rchar \<Rightarrow> bool) \<Rightarrow> rx" where
  "NIP_REGEX nd =
     RSeq RWb (RSeq (RRep 3 3 (RCls nd)) (RSeq (ROpt (RCls nip_sep))
       (RSeq (RRep 3 3 (RCls nd)) (RSeq (ROpt (RCls nip_sep))
         (RSeq (RRep 2 2 (RCls nd)) (RSeq (ROpt (RCls nip_sep))
           (RSeq (RRep 2 2 (RCls nd)) RWb)))))))"

definition NIP_WEIGHTS :: "u32 list" where
  "NIP_WEIGHTS = [6, 5, 7, 2, 3, 4, 5, 6, 7]"

definition nip_check :: "rstr \<Rightarrow> bool" where
  "nip_check digits =
     (if blen digits \<noteq> 10 then False
      else let bytes = as_bytes digits
      in case weighted_loop 0 NIP_WEIGHTS bytes 0 of
           None \<Rightarrow> False
         | Some acc \<Rightarrow>
             let checksum = acc mod 11
             in if checksum = 10 then False
                else let last = (ucast (bytes ! 9 - 48) :: u32) in checksum = last)"

definition nip_redact :: "rstr \<Rightarrow> rstr option" where
  "nip_redact digits =
     (case slice_from 6 digits of None \<Rightarrow> None | Some last4 \<Rightarrow>
      (case slice_to 2 last4 of None \<Rightarrow> None | Some a \<Rightarrow>
      (case slice_from 2 last4 of None \<Rightarrow> None | Some b \<Rightarrow>
         Some (lit ''***-***-'' @ a @ lit ''-'' @ b))))"

definition nip_body :: "rmatch \<Rightarrow> cmatch option option" where
  "nip_body m =
     (let digits = filter is_ascii_digit (m_str m)
      in if blen digits \<noteq> 10 then Some None
         else if \<not> nip_check digits then Some None
         else case nip_redact digits of None \<Rightarrow> None | Some red \<Rightarrow>
              (case slice_last 4 digits of None \<Rightarrow> None | Some l4 \<Rightarrow>
                 Some (Some \<lparr>c_classifier = nip_NAME, c_start = m_start m, c_end = m_end m,
                             c_redacted = red, c_last4 = l4\<rparr>)))"

definition nip_scan :: "(rstr \<Rightarrow> rmatch list) \<Rightarrow> rstr \<Rightarrow> cmatch list option" where
  "nip_scan re text = scan_loop nip_body (re text)"

section \<open>The checksum\<close>

text \<open>All ten digits weighted, the last with \<open>10 = -1 (mod 11)\<close>.\<close>

definition nip_sum :: "rstr \<Rightarrow> nat" where
  "nip_sum s = wsum [6, 5, 7, 2, 3, 4, 5, 6, 7, 10] (map digit_of s)"

lemma nip_weights: "map unat NIP_WEIGHTS = [6, 5, 7, 2, 3, 4, 5, 6, 7]" "length NIP_WEIGHTS = 9"
  by (simp_all add: NIP_WEIGHTS_def)

lemma mod11_table: "list_all (\<lambda>a. list_all (\<lambda>d. (a = d \<and> a \<noteq> 10) = ((a + 10 * d) mod 11 = 0)) [0..<10]) [0..<11]"
  by code_simp

lemma mod11_eq:
  fixes A d :: nat
  assumes "d \<le> 9"
  shows "A mod 11 = d \<longleftrightarrow> (A + 10 * d) mod 11 = 0"
proof -
  have r: "A mod 11 \<in> set [0..<11]" "d \<in> set [0..<10]" using assms by auto
  have "(A mod 11 = d \<and> A mod 11 \<noteq> 10) = ((A mod 11 + 10 * d) mod 11 = 0)"
    by (rule bspec [OF bspec [OF mod11_table [unfolded list_all_iff] r(1)] r(2)])
  then show ?thesis using assms mod_add_left_eq [of A 11 "10 * d"] by auto
qed

lemma nip_check_iff:
  "nip_check s \<longleftrightarrow> length s = 10 \<and> list_all is_ascii_digit s \<and> nip_sum s mod 11 = 0"
proof -
  have dl: "list_all is_ascii_digit s \<Longrightarrow> blen s = length s" by (simp add: blen_ascii digits_ascii)
  have "nip_check s \<longleftrightarrow> list_all is_ascii_digit s \<and> nip_sum s mod 11 = 0" if len: "blen s = 10"
  proof -
    let ?Q = "\<lambda>acc d. acc mod 11 = d \<and> acc mod 11 \<noteq> (10 :: u32)"
    have len': "blen s = Suc (length NIP_WEIGHTS)" using len by (simp add: nip_weights)
    have small: "9 * sum_list (map unat NIP_WEIGHTS) < 2 ^ 32" by (simp add: nip_weights)
    have Q9: "?Q acc d \<Longrightarrow> unat d \<le> 9" for acc d
    proof -
      assume Q: "?Q acc d"
      then have "unat d = unat acc mod 11" "unat d \<noteq> 10" by (auto simp: unat_mod word_unat_eq_iff)
      then show "unat d \<le> 9" using mod_less_divisor [of 11 "unat acc"] by linarith
    qed
    have "nip_check s \<longleftrightarrow> (\<exists>acc. weighted_loop 0 NIP_WEIGHTS (as_bytes s) 0 = Some acc \<and>
        ?Q acc (ucast (as_bytes s ! length NIP_WEIGHTS - 48)))"
      using len unfolding nip_check_def by (auto simp add: Let_def nip_weights split: option.split)
    also have "\<dots> \<longleftrightarrow> list_all is_ascii_digit s \<and>
        ?Q (of_nat (wsum (map unat NIP_WEIGHTS) (map digit_of s))) (of_nat (digit_of (s ! length NIP_WEIGHTS)))"
      by (rule weighted_check [OF len' small Q9])
    also have "\<dots> \<longleftrightarrow> list_all is_ascii_digit s \<and> nip_sum s mod 11 = 0"
    proof (rule conj_cong [OF refl])
      assume d: "list_all is_ascii_digit s"
      let ?A = "wsum (map unat NIP_WEIGHTS) (map digit_of s)" and ?D = "digit_of (s ! 9)"
      have l: "length s = 10" using dl [OF d] len by simp
      have "?A \<le> 9 * 45" using wsum_digits_le [OF d, of "map unat NIP_WEIGHTS"]
        by (simp add: nip_weights)
      then have A: "unat (of_nat ?A :: u32) = ?A" by (intro unat_of_nat_small) simp
      have D9: "?D \<le> 9" using d l by (simp add: list_all_length digit_of_le)
      then have D: "unat (of_nat ?D :: u32) = ?D" by (intro unat_of_nat_small) simp
      have w: "[6, 5, 7, 2, 3, 4, 5, 6, 7, 10] = map unat NIP_WEIGHTS @ [10]" by (simp add: nip_weights)
      have sum: "nip_sum s = ?A + 10 * ?D" unfolding nip_sum_def w
        using l wsum_snoc [of "map digit_of s" "map unat NIP_WEIGHTS" 10] nip_weights(2) by simp
      have "?Q (of_nat ?A) (of_nat ?D) \<longleftrightarrow> ?A mod 11 = ?D \<and> ?A mod 11 \<noteq> 10"
        by (simp add: word_unat_eq_iff unat_mod A D)
      then have "?Q (of_nat ?A) (of_nat ?D) \<longleftrightarrow> ?A mod 11 = ?D" using D9 by auto
      also have "\<dots> \<longleftrightarrow> nip_sum s mod 11 = 0" unfolding sum by (rule mod11_eq [OF D9])
      finally show "?Q (of_nat ?A) (of_nat (digit_of (s ! length NIP_WEIGHTS))) \<longleftrightarrow> nip_sum s mod 11 = 0"
        by (simp only: nip_weights)
    qed
    finally show ?thesis .
  qed
  with dl show ?thesis by (auto simp: nip_check_def)
qed

text \<open>The check on bytes accepts exactly the strings of ten ASCII digits whose weighted sum,
  the check digit included, is a multiple of 11; the rule against a check value of 10 is implied.\<close>

theorem nip_check_correct:
  "nip_check s \<longleftrightarrow> length s = 10 \<and> list_all is_ascii_digit s \<and> nip_sum s mod 11 = 0"
  by (rule nip_check_iff)

lemma nip_check_digits: "nip_check s \<Longrightarrow> length s = 10 \<and> is_ascii s \<and> list_all is_ascii_digit s"
  using nip_check_iff digits_ascii by blast

lemma nip_weight_table: "list_all (\<lambda>w. list_all (\<lambda>a. list_all (\<lambda>b.
    (w * a) mod 11 = (w * b) mod 11 \<longrightarrow> a = b) [0..<10]) [0..<10]) [2, 3, 4, 5, 6, 7, 10 :: nat]"
  by code_simp

text \<open>A NIP number with one digit mistyped fails the check.\<close>

theorem nip_single_error:
  assumes "nip_check (p @ [a] @ q)" "is_ascii_digit b" "a \<noteq> b"
  shows "\<not> nip_check (p @ [b] @ q)"
proof
  let ?ws = "[6, 5, 7, 2, 3, 4, 5, 6, 7, 10] :: nat list"
  let ?r = "wsum (take (length p) ?ws) (map digit_of p) + wsum (drop (Suc (length p)) ?ws) (map digit_of q)"
  let ?w = "?ws ! length p"
  assume "nip_check (p @ [b] @ q)"
  note A = iffD1 [OF nip_check_iff assms(1)] and B = iffD1 [OF nip_check_iff this]
  have l: "length p + Suc (length q) = 10" using A by simp
  have s: "nip_sum (p @ [c] @ q) = ?r + ?w * digit_of c" for c
    unfolding nip_sum_def using wsum_split [of "map digit_of p" "map digit_of q" ?ws "digit_of c"] l
    by simp
  have eq: "(?w * digit_of a) mod 11 = (?w * digit_of b) mod 11"
    by (rule mod_cancel_left [of ?r]) (use A B s in auto)
  have "?w \<in> set ?ws" by (rule nth_mem) (use l in simp)
  then have r: "?w \<in> set [2, 3, 4, 5, 6, 7, 10]" by auto
  have a: "is_ascii_digit a" using A by simp
  have ab: "digit_of a \<in> set [0..<10]" "digit_of b \<in> set [0..<10]"
    using digit_of_le [OF a] digit_of_le [OF assms(2)] by auto
  have "digit_of a = digit_of b"
    using bspec [OF bspec [OF bspec [OF nip_weight_table [unfolded list_all_iff] r] ab(1)] ab(2)] eq by blast
  with digit_of_inj a assms(2,3) show False by blast
qed

theorem nip_single_error_witness: "\<not> nip_check (lit ''526'' @ [49] @ lit ''250995'')"
  by (rule nip_single_error [of _ 48]) (code_simp, simp_all add: is_ascii_digit_def)

lemma nip_pair_table: "list_all (\<lambda>i. list_all (\<lambda>a. list_all (\<lambda>b.
    (([6, 5, 7, 2, 3, 4, 5, 6, 7, 10] ! i) * a + ([6, 5, 7, 2, 3, 4, 5, 6, 7, 10] ! Suc i) * b) mod 11
      = (([6, 5, 7, 2, 3, 4, 5, 6, 7, 10] ! i) * b + ([6, 5, 7, 2, 3, 4, 5, 6, 7, 10] ! Suc i) * a) mod 11
    \<longrightarrow> a = (b :: nat)) [0..<10]) [0..<10]) [0..<9]"
  by code_simp

text \<open>A NIP number with two adjacent different digits swapped fails the check.\<close>

theorem nip_swap_error:
  assumes "nip_check (p @ [a, b] @ q)" "a \<noteq> b"
  shows "\<not> nip_check (p @ [b, a] @ q)"
proof
  let ?ws = "[6, 5, 7, 2, 3, 4, 5, 6, 7, 10] :: nat list"
  let ?r = "wsum (take (length p) ?ws) (map digit_of p) + wsum (drop (Suc (Suc (length p))) ?ws) (map digit_of q)"
  let ?f = "\<lambda>c d. ?ws ! length p * digit_of c + ?ws ! Suc (length p) * digit_of d"
  assume "nip_check (p @ [b, a] @ q)"
  note A = iffD1 [OF nip_check_iff assms(1)] and B = iffD1 [OF nip_check_iff this]
  have l: "length p + Suc (Suc (length q)) = 10" using A by simp
  have s: "nip_sum (p @ [c, d] @ q) = ?r + ?f c d" for c d
    unfolding nip_sum_def
    using wsum_split2 [of "map digit_of p" "map digit_of q" ?ws "digit_of c" "digit_of d"] l by simp
  have eq: "?f a b mod 11 = ?f b a mod 11"
    by (rule mod_cancel_left [of ?r]) (use A B s in auto)
  have ab: "is_ascii_digit a" "is_ascii_digit b" using A by simp_all
  have r: "length p \<in> set [0..<9]" "digit_of a \<in> set [0..<10]" "digit_of b \<in> set [0..<10]"
    using l digit_of_le [OF ab(1)] digit_of_le [OF ab(2)] by auto
  have "digit_of a = digit_of b"
    using bspec [OF bspec [OF bspec [OF nip_pair_table [unfolded list_all_iff] r(1)] r(2)] r(3)] eq by blast
  with digit_of_inj ab assms(2) show False by blast
qed

theorem nip_swap_error_witness: "\<not> nip_check (lit ''526025'' @ [57, 48] @ lit ''95'')"
  by (rule nip_swap_error) (code_simp, simp)

section \<open>The scan\<close>

lemma nip_body_eq:
  "nip_body m =
     (let ds = filter is_ascii_digit (m_str m)
      in if nip_check ds
         then Some (Some \<lparr>c_classifier = nip_NAME, c_start = m_start m, c_end = m_end m,
             c_redacted = lit ''***-***-'' @ take 2 (drop 6 ds) @ lit ''-'' @ drop 8 ds,
             c_last4 = drop 6 ds\<rparr>)
         else Some None)"
proof -
  let ?ds = "filter is_ascii_digit (m_str m)"
  have asc: "is_ascii ?ds" by (rule digits_ascii) (simp add: list_all_iff)
  show ?thesis
  proof (cases "nip_check ?ds")
    case True
    note d = nip_check_digits [OF True]
    have "is_ascii (drop 6 ?ds)" using asc by (auto simp: is_ascii_def dest: in_set_dropD)
    then show ?thesis using True d
      by (simp add: nip_body_def Let_def nip_redact_def slice_last_ascii slice_from_ascii slice_to_ascii blen_ascii)
  qed (simp add: nip_body_def Let_def)
qed

lemma nip_scan_total: "nip_scan re t \<noteq> None"
  by (simp add: nip_scan_def scan_loop_None nip_body_eq Let_def)

locale nip_regex = unicode_classes nd wd + regex_find wd "NIP_REGEX nd" find_iter
  for nd :: "rchar \<Rightarrow> bool" and wd :: "rchar \<Rightarrow> bool" and find_iter :: "rstr \<Rightarrow> rmatch list"
begin

lemma nip_sep_nd: "nip_sep c \<Longrightarrow> \<not> nd c"
  using nd_not_space nd_not_dash by (auto simp: nip_sep_def)

lemma nip_chars: "rx_all (\<lambda>c. nd c \<or> nip_sep c) (NIP_REGEX nd)"
  by (simp add: NIP_REGEX_def)

lemma nds_filter: "list_all nd x \<Longrightarrow> filter nd x = x"
  by (simp add: list_all_iff)

lemma sep_filter: "x = [] \<or> (\<exists>c. x = [c] \<and> nip_sep c) \<Longrightarrow> filter nd x = []"
  using nip_sep_nd by auto

lemma last_nd: "list_all nd x \<Longrightarrow> 2 \<le> length x \<Longrightarrow> x \<noteq> [] \<and> nd (last x)"
  by (cases x) (auto simp: list_all_iff)

text \<open>A match holds ten digits and ends with one.\<close>

lemma nip_rx:
  assumes "rx_in wd (NIP_REGEX nd) u v w"
  shows "length (filter nd v) = 10" and "v \<noteq> []" and "nd (last v)"
proof -
  show "length (filter nd v) = 10" "v \<noteq> []" "nd (last v)"
    using assms unfolding NIP_REGEX_def rx_in_RSeq rx_in_RRep_RCls rx_in.simps(3,5) rx_in_RCls
    by (auto simp: nds_filter nip_sep_nd last_nd)
qed

lemma scan_iff:
  assumes "nip_scan find_iter t = Some ms"
  shows "m \<in> set ms \<longleftrightarrow> (\<exists>r \<in> set (find_iter t). \<exists>ds. ds = filter is_ascii_digit (m_str r) \<and> nip_check ds \<and>
    m = \<lparr>c_classifier = nip_NAME, c_start = m_start r, c_end = m_end r,
         c_redacted = lit ''***-***-'' @ take 2 (drop 6 ds) @ lit ''-'' @ drop 8 ds, c_last4 = drop 6 ds\<rparr>)"
  using scan_loop_Some [OF assms [unfolded nip_scan_def], of m] by (auto simp: nip_body_eq Let_def)

lemma nip_reports:
  assumes "nip_scan find_iter t = Some ms" "m \<in> set ms"
  shows "c_classifier m = nip_NAME \<and> reports t m"
proof -
  obtain r ds where r: "r \<in> set (find_iter t)" "ds = filter is_ascii_digit (m_str r)" "nip_check ds"
    "m = \<lparr>c_classifier = nip_NAME, c_start = m_start r, c_end = m_end r,
         c_redacted = lit ''***-***-'' @ take 2 (drop 6 ds) @ lit ''-'' @ drop 8 ds, c_last4 = drop 6 ds\<rparr>"
    using scan_iff [OF assms(1)] assms(2) by blast
  have len: "length ds = 10" using nip_check_digits [OF r(3)] by simp
  then have "10 \<le> length (m_str r)" unfolding r(2) using length_filter_le order_trans by metis
  moreover have "digits_shown (lit ''***-***-'') = 0" "digits_shown (lit ''-'') = 0" by code_simp+
  moreover have "digits_shown (take 2 (drop 6 ds)) \<le> 2" "digits_shown (drop 8 ds) \<le> 2"
    using digits_shown_le [of "take 2 (drop 6 ds)"] digits_shown_le [of "drop 8 ds"] len by simp_all
  moreover obtain u w where "t = u @ m_str r @ w" "m_start r = blen u"
    "m_end r = blen u + blen (m_str r)" using find_matchE [OF r(1)] by metis
  ultimately show ?thesis unfolding reports_def using r(4) len
    by (intro conjI exI [of _ u] exI [of _ "m_str r"] exI [of _ w]) simp_all
qed

sublocale classifier nip_NAME "nip_scan find_iter"
  by unfold_locales (simp_all add: nip_reports)

lemma found:
  assumes rx: "rx_in wd (NIP_REGEX nd) u v w" and left: "u = [] \<or> \<not> nd (last u) \<and> \<not> nip_sep (last u)"
    and ck: "nip_check (filter is_ascii_digit v)"
  shows "\<exists>ms. nip_scan find_iter (u @ v @ w) = Some ms \<and>
    (\<exists>m \<in> set ms. c_start m = blen u \<and> c_end m = blen (u @ v) \<and> c_last4 m = drop 6 (filter is_ascii_digit v))"
proof -
  have left': "u = [] \<or> \<not> (nd (last u) \<or> nip_sep (last u))" using left by blast
  from find_from [OF nip_rx(2) [OF rx] rx nip_chars left'] obtain m w' where
    m: "m \<in> set (find_iter (u @ v @ w))" "v @ w = m_str m @ w'" "m_start m = blen u"
      "m_end m = blen (u @ m_str m)" "rx_in wd (NIP_REGEX nd) u (m_str m) w'" by blast
  note 1 = nip_rx [OF rx] and 2 = nip_rx [OF m(5)]
  have longer: False if "a = b @ x" "x \<noteq> []" "nd (last a)" "length (filter nd a) = 10"
    "length (filter nd b) = 10" for a b x
  proof -
    have "last a \<in> set x" using that(1,2) by simp
    then have "filter nd x \<noteq> []" using that(3) by (metis filter_empty_conv)
    then show False using that by simp
  qed
  have "m_str m = v"
  proof (rule append_compare [OF m(2)])
    fix x assume "x \<noteq> []" "v = m_str m @ x"
    from longer [OF this(2,1) 1(3,1) 2(1)] show ?thesis ..
  next
    fix x assume "x \<noteq> []" "m_str m = v @ x"
    from longer [OF this(2,1) 2(3,1) 1(1)] show ?thesis ..
  qed simp
  obtain ms where ms: "nip_scan find_iter (u @ v @ w) = Some ms"
    using nip_scan_total by blast
  let ?ds = "filter is_ascii_digit v"
  let ?m = "\<lparr>c_classifier = nip_NAME, c_start = blen u, c_end = blen (u @ v),
    c_redacted = lit ''***-***-'' @ take 2 (drop 6 ?ds) @ lit ''-'' @ drop 8 ?ds, c_last4 = drop 6 ?ds\<rparr>"
  have "?m \<in> set ms" unfolding scan_iff [OF ms]
    by (rule bexI [OF _ m(1)], rule exI [of _ ?ds]) (simp add: ck m(3,4) \<open>m_str m = v\<close>)
  then show ?thesis using ms by (intro exI [of _ ms] conjI bexI [of _ ?m]) simp_all
qed

end

interpretation ref_nip: nip_regex eval_nd eval_wd "ref_find_iter eval_wd (NIP_REGEX eval_nd)"
  by unfold_locales

text \<open>A NIP number written in any of the formats of the pattern, bare or with separators, whose
  digits pass the check and that no digit or separator precedes is reported at its place.\<close>

theorem nip_scan_complete:
  assumes "nip_regex nd wd re"
    and "rx_in wd (NIP_REGEX nd) u v w" "u = [] \<or> \<not> nd (last u) \<and> \<not> nip_sep (last u)"
    and "nip_check (filter is_ascii_digit v)"
  shows "\<exists>ms. nip_scan re (u @ v @ w) = Some ms \<and>
    (\<exists>m \<in> set ms. c_start m = blen u \<and> c_end m = blen (u @ v) \<and> c_last4 m = drop 6 (filter is_ascii_digit v))"
  by (rule nip_regex.found [OF assms])

theorem nip_scan_complete_witness:
  "\<exists>ms. nip_scan (ref_find_iter eval_wd (NIP_REGEX eval_nd)) (lit ''NIP:'' @ lit ''526-025-09-95'' @ lit '','') = Some ms \<and>
    (\<exists>m \<in> set ms. c_start m = blen (lit ''NIP:'') \<and> c_end m = blen (lit ''NIP:'' @ lit ''526-025-09-95'')
      \<and> c_last4 m = drop 6 (filter is_ascii_digit (lit ''526-025-09-95'')))"
  by (rule nip_scan_complete [OF ref_nip.nip_regex_axioms]) (code_simp)+

end
