(* ===== verification/Iban.thy ===== *)
theory Iban
  imports Classifier Regex_Engine
begin

text \<open>
  The IBAN classifier, \<open>classifier/iban.rs\<close>: the mod-97 check of ISO 13616 computed step by
  step on \<open>u64\<close>, its agreement with the remainder of the whole decimal number, the errors it
  catches, and the scan, whose \<open>split_at(4)\<close> panics on matches with digits of three bytes.
\<close>

section \<open>The code\<close>

definition iban_NAME :: rstr where
  "iban_NAME = lit ''iban''"

definition is_alnum_upper :: "rchar \<Rightarrow> bool" where
  "is_alnum_upper c \<longleftrightarrow> is_ascii_uppercase c \<or> is_ascii_digit c"

text \<open>\<^verbatim>\<open>\b[A-Z]{2}\d{2}(?:[ ]?[A-Z0-9]){11,30}\b\<close>\<close>

definition IBAN_REGEX :: "(rchar \<Rightarrow> bool) \<Rightarrow> rx" where
  "IBAN_REGEX nd =
     RSeq RWb (RSeq (RRep 2 2 (RCls is_ascii_uppercase)) (RSeq (RRep 2 2 (RCls nd))
       (RSeq (RRep 11 30 (RSeq (ROpt (RCls (\<lambda>c. c = 32))) (RCls is_alnum_upper))) RWb)))"

fun iban_loop :: "rstr \<Rightarrow> u64 \<Rightarrow> bool" where
  "iban_loop [] remainder \<longleftrightarrow> remainder = 1"
| "iban_loop (c # cs) remainder =
     (let val = (if is_ascii_digit c then Some (of_nat (c - 48))
                 else if is_ascii_uppercase c then Some (of_nat (c - 65) + 10)
                 else None)
      in case val of
           None \<Rightarrow> False
         | Some v \<Rightarrow> iban_loop cs (if v < 10 then (remainder * 10 + v) mod 97
                                  else (remainder * 100 + v) mod 97))"

definition iban_check :: "rstr \<Rightarrow> bool option" where
  "iban_check iban =
     (case split_at_byte 4 iban of
        None \<Rightarrow> None
      | Some (head, tail) \<Rightarrow> Some (iban_loop (tail @ head) 0))"

definition iban_redact :: "rstr \<Rightarrow> rstr option" where
  "iban_redact iban =
     (case slice_last 4 iban of None \<Rightarrow> None | Some last4 \<Rightarrow>
      (case slice_to 2 iban of None \<Rightarrow> None | Some country \<Rightarrow>
         Some (country @ lit ''**...'' @ last4)))"

definition iban_body :: "rmatch \<Rightarrow> cmatch option option" where
  "iban_body m =
     (let stripped = filter (\<lambda>c. \<not> is_whitespace c) (m_str m)
      in if \<not> (15 \<le> blen stripped \<and> blen stripped \<le> 34) then Some None
         else case iban_check stripped of
           None \<Rightarrow> None
         | Some ok \<Rightarrow>
             if \<not> ok then Some None
             else case iban_redact stripped of None \<Rightarrow> None | Some red \<Rightarrow>
                  (case slice_last 4 stripped of None \<Rightarrow> None | Some l4 \<Rightarrow>
                     Some (Some \<lparr>c_classifier = iban_NAME, c_start = m_start m, c_end = m_end m,
                                 c_redacted = red, c_last4 = l4\<rparr>)))"

definition iban_scan :: "(rstr \<Rightarrow> rmatch list) \<Rightarrow> rstr \<Rightarrow> cmatch list option" where
  "iban_scan re text = scan_loop iban_body (re text)"

section \<open>The remainder\<close>

text \<open>The number of the standard: every letter written as two decimal digits.\<close>

definition iban_val :: "rchar \<Rightarrow> nat" where
  "iban_val c = (if is_ascii_digit c then c - 48 else c - 65 + 10)"

definition iban_digits :: "rchar \<Rightarrow> nat list" where
  "iban_digits c = (if is_ascii_digit c then [c - 48] else [iban_val c div 10, iban_val c mod 10])"

definition decimal :: "nat list \<Rightarrow> nat" where
  "decimal = foldl (\<lambda>n d. 10 * n + d) 0"

definition iban_number :: "rstr \<Rightarrow> nat" where
  "iban_number s = decimal (concat (map iban_digits s))"

lemma decimal_append: "decimal (xs @ ys) = decimal xs * 10 ^ length ys + decimal ys"
proof (induction ys rule: rev_induct)
  case (snoc y ys)
  then show ?case by (simp add: decimal_def algebra_simps)
qed (simp add: decimal_def)

lemma decimal_simps [simp]: "decimal [] = 0" "decimal [d] = d" "decimal [d, e] = 10 * d + e"
  by (simp_all add: decimal_def)

lemma iban_number_append:
  "iban_number (s @ t) = iban_number s * 10 ^ length (concat (map iban_digits t)) + iban_number t"
  by (simp add: iban_number_def decimal_append)

lemma iban_number_single: "is_alnum_upper c \<Longrightarrow> iban_number [c] = iban_val c"
  by (cases "is_ascii_digit c") (simp add: iban_number_def iban_digits_def iban_val_def,
      simp add: iban_number_def iban_digits_def mult_div_mod_eq)

lemma iban_val_le: "is_alnum_upper c \<Longrightarrow> iban_val c \<le> 35"
  by (auto simp: iban_val_def is_alnum_upper_def ascii_class_defs)

text \<open>One step of the loop, on numbers below 97.\<close>

lemma iban_step:
  assumes "is_alnum_upper c" "unat r < 97"
  shows "iban_loop (c # cs) r = iban_loop cs (of_nat ((unat r * 10 ^ length (iban_digits c) + iban_val c) mod 97))"
proof -
  define v where "v = iban_val c"
  have v: "v \<le> 35" using iban_val_le [OF assms(1)] by (simp add: v_def)
  have val: "(if is_ascii_digit c then Some (of_nat (c - 48))
      else if is_ascii_uppercase c then Some (of_nat (c - 65) + 10) else None) = Some (of_nat v :: u64)"
    using assms(1) by (auto simp: v_def iban_val_def is_alnum_upper_def)
  have uv: "unat (of_nat v :: u64) = v" using v by (intro unat_of_nat_small) simp
  have kind: "(of_nat v :: u64) < 10 \<longleftrightarrow> is_ascii_digit c"
    using assms(1) uv by (auto simp: word_less_nat_alt v_def iban_val_def is_alnum_upper_def ascii_class_defs)
  have step: "(r * of_nat b + of_nat v) mod 97 = (of_nat ((unat r * b + v) mod 97) :: u64)" if "b \<le> 100" for b
  proof -
    have "unat r * b \<le> 96 * 100" using assms(2) that by (intro mult_le_mono) simp_all
    then have lt: "unat r * b + v < 2 ^ LENGTH(64)" using v by simp
    have "r * of_nat b + of_nat v = (of_nat (unat r * b + v) :: u64)" by simp
    then have "unat ((r * of_nat b + of_nat v) mod 97) = (unat r * b + v) mod 97"
      by (simp only: unat_mod unat_of_nat_small [OF lt]) simp
    then show ?thesis by (metis of_nat_unat_id)
  qed
  show ?thesis using step [of 10] step [of 100]
    by (simp add: val Let_def kind v_def [symmetric] iban_digits_def)
qed

lemma iban_loop_number:
  assumes "list_all is_alnum_upper s" "unat r < 97"
  shows "iban_loop s r \<longleftrightarrow> (unat r * 10 ^ length (concat (map iban_digits s)) + iban_number s) mod 97 = 1"
  using assms
proof (induction s arbitrary: r)
  case Nil
  then show ?case by (simp add: iban_number_def word_unat_eq_iff)
next
  case (Cons c s)
  let ?n = "(unat r * 10 ^ length (iban_digits c) + iban_val c) mod 97"
  let ?k = "10 ^ length (concat (map iban_digits s)) :: nat"
  have c: "is_alnum_upper c" using Cons.prems by simp
  have n: "unat (of_nat ?n :: u64) = ?n" by (intro unat_of_nat_small) (simp add: less_trans [OF mod_less_divisor])
  have "iban_loop (c # s) r = iban_loop s (of_nat ?n)" by (rule iban_step [OF c Cons.prems(2)])
  also have "\<dots> \<longleftrightarrow> (unat (of_nat ?n :: u64) * ?k + iban_number s) mod 97 = 1"
    by (rule Cons.IH) (use Cons.prems n in simp_all)
  also have "\<dots> \<longleftrightarrow> ((unat r * 10 ^ length (iban_digits c) + iban_val c) * ?k + iban_number s) mod 97 = 1"
    unfolding n mod_horner by (rule refl)
  also have "(unat r * 10 ^ length (iban_digits c) + iban_val c) * ?k + iban_number s =
      unat r * 10 ^ length (concat (map iban_digits (c # s))) + iban_number (c # s)"
    using iban_number_append [of "[c]" s] iban_number_single [OF c] by (simp add: algebra_simps power_add)
  finally show ?case .
qed

lemma iban_loop_alnum: "iban_loop s r \<Longrightarrow> list_all is_alnum_upper s"
  by (induction s r rule: iban_loop.induct)
    (auto simp: is_alnum_upper_def Let_def split: if_splits)

lemma alnum_ascii: "list_all is_alnum_upper s \<Longrightarrow> is_ascii s"
  by (auto simp: is_ascii_def list_all_iff is_alnum_upper_def ascii_class_defs)

lemma iban_check_number:
  assumes "is_ascii s" "4 \<le> length s"
  shows "iban_check s = Some (list_all is_alnum_upper s \<and> iban_number (drop 4 s @ take 4 s) mod 97 = 1)"
proof -
  have "list_all is_alnum_upper (drop 4 s @ take 4 s) \<longleftrightarrow> list_all is_alnum_upper s"
    by (metis append_take_drop_id list_all_append)
  then have "iban_loop (drop 4 s @ take 4 s) 0 \<longleftrightarrow>
      list_all is_alnum_upper s \<and> iban_number (drop 4 s @ take 4 s) mod 97 = 1"
    using iban_loop_number [of "drop 4 s @ take 4 s" 0] iban_loop_alnum [of "drop 4 s @ take 4 s" 0] by auto
  then show ?thesis using assms by (simp add: iban_check_def split_at_byte_ascii)
qed

text \<open>C30: on every ASCII string of four or more chars the step-by-step remainder on \<open>u64\<close> accepts
  exactly the capital letters and digits whose decimal number, the first four chars moved to the
  end, is 1 modulo 97.\<close>

theorem iban_check_correct:
  assumes "is_ascii s" "4 \<le> length s"
  shows "iban_check s = Some (list_all is_alnum_upper s \<and> iban_number (drop 4 s @ take 4 s) mod 97 = 1)"
  using assms by (rule iban_check_number)

theorem iban_check_correct_witness:
  "list_all is_alnum_upper (lit ''GB82WEST12345698765432'') \<and>
   iban_number (drop 4 (lit ''GB82WEST12345698765432'') @ take 4 (lit ''GB82WEST12345698765432'')) mod 97 = 1"
proof -
  have "is_ascii (lit ''GB82WEST12345698765432'')" "4 \<le> length (lit ''GB82WEST12345698765432'')"
    by (code_simp, code_simp)
  from iban_check_correct [OF this]
  have "iban_check (lit ''GB82WEST12345698765432'') = Some (list_all is_alnum_upper (lit ''GB82WEST12345698765432'') \<and>
    iban_number (drop 4 (lit ''GB82WEST12345698765432'') @ take 4 (lit ''GB82WEST12345698765432'')) mod 97 = 1)" .
  moreover have "iban_check (lit ''GB82WEST12345698765432'') = Some True" by code_simp
  ultimately show ?thesis by (simp only: option.inject)
qed

section \<open>Errors it catches\<close>

lemma iban_check_True:
  assumes "iban_check s = Some True"
  shows "list_all is_alnum_upper s \<and> is_ascii s \<and> 4 \<le> length s"
proof -
  obtain a b where ab: "split_at_byte 4 s = Some (a, b)" "iban_loop (b @ a) 0"
    using assms by (auto simp: iban_check_def split: option.splits)
  note s = split_at_byte_Some [OF ab(1)] and al = iban_loop_alnum [OF ab(2)]
  from al s have "list_all is_alnum_upper s" by simp
  moreover have "is_ascii a" using al by (simp add: alnum_ascii)
  then have "length a = 4" using s by (simp add: blen_ascii)
  then have "4 \<le> length s" using s by simp
  ultimately show ?thesis by (simp add: alnum_ascii)
qed

lemma times10_cancel:
  assumes "(a * 10) mod 97 = (b * 10) mod (97 :: nat)" "a < 97" "b < 97"
  shows "a = b"
proof -
  have r: "(68 * ((x * 10) mod 97)) mod 97 = x" if "x < 97" for x :: nat
  proof -
    have "(68 * ((x * 10) mod 97)) mod 97 = (68 * (x * 10)) mod 97" by (rule mod_mult_right_eq)
    also have "68 * (x * 10) = x + 97 * (7 * x)" by simp
    also have "(x + 97 * (7 * x)) mod 97 = x" using that by (simp only: mod_mult_self2) simp
    finally show ?thesis .
  qed
  have "a = (68 * ((a * 10) mod 97)) mod 97" by (rule r [OF assms(2), symmetric])
  also have "\<dots> = (68 * ((b * 10) mod 97)) mod 97" by (simp only: assms(1))
  also have "\<dots> = b" by (rule r [OF assms(3)])
  finally show ?thesis .
qed

lemma pow10_cancel:
  "(a * 10 ^ n) mod 97 = (b * 10 ^ n) mod (97 :: nat) \<Longrightarrow> a < 97 \<Longrightarrow> b < 97 \<Longrightarrow> a = b"
proof (induction n arbitrary: a b)
  case (Suc n)
  have r: "(x * 10 ^ Suc n) mod 97 = ((x * 10) mod 97 * 10 ^ n) mod (97 :: nat)" for x
    unfolding power_Suc mult.assoc [symmetric] by (simp only: mod_mult_left_eq)
  have "((a * 10) mod 97 * 10 ^ n) mod 97 = ((b * 10) mod 97 * 10 ^ n) mod 97"
    using Suc.prems(1) unfolding r .
  from Suc.IH [OF this] have "(a * 10) mod 97 = (b * 10) mod 97" by simp
  then show ?case using Suc.prems(2,3) by (rule times10_cancel)
qed simp

text \<open>The rearranged string of a string with one char changed.\<close>

lemma rearranged_update:
  assumes "i < length s" "4 \<le> length s"
  shows "\<exists>x y. \<forall>c. drop 4 (s[i := c]) @ take 4 (s[i := c]) = x @ [c] @ y"
proof (cases "i < 4")
  case True
  then have "drop 4 (s[i := c]) @ take 4 (s[i := c]) = (drop 4 s @ take i s) @ [c] @ drop (Suc i) (take 4 s)" for c
    using assms upd_conv_take_nth_drop [of i "take 4 s" c] by (simp add: take_update_swap min_def)
  then show ?thesis by blast
next
  case False
  then have "drop 4 (s[i := c]) @ take 4 (s[i := c]) =
      take (i - 4) (drop 4 s) @ [c] @ drop (Suc (i - 4)) (drop 4 s) @ take 4 s" for c
    using assms by (simp add: drop_update_swap upd_conv_take_nth_drop drop_take)
  then show ?thesis by blast
qed

lemma iban_val_inj: "is_alnum_upper a \<Longrightarrow> is_alnum_upper b \<Longrightarrow>
    is_ascii_digit a = is_ascii_digit b \<Longrightarrow> iban_val a = iban_val b \<Longrightarrow> a = b"
  by (auto simp: iban_val_def is_alnum_upper_def ascii_class_defs split: if_splits)

text \<open>An IBAN with one digit mistyped as another digit, or one letter as another letter, fails
  the check.\<close>

theorem iban_single_error:
  assumes "iban_check s = Some True" "i < length s" "is_alnum_upper b"
    and "is_ascii_digit b = is_ascii_digit (s ! i)" "b \<noteq> s ! i"
  shows "iban_check (s[i := b]) = Some False"
proof -
  note ok = iban_check_True [OF assms(1)]
  obtain x y where xy: "\<And>c. drop 4 (s[i := c]) @ take 4 (s[i := c]) = x @ [c] @ y"
    using rearranged_update assms(2) ok by blast
  let ?a = "s ! i" and ?K = "10 ^ length (concat (map iban_digits y)) :: nat"
  let ?R = "iban_number x * 10 ^ (length (iban_digits ?a)) * ?K + iban_number y"
  have al: "list_all is_alnum_upper (s[i := b])" "is_alnum_upper ?a"
    using ok assms(2,3) by (auto simp: list_all_length nth_list_update)
  have num: "iban_number (x @ [c] @ y) = ?R + iban_val c * ?K"
    if "is_alnum_upper c" "length (iban_digits c) = length (iban_digits ?a)" for c
    using that iban_number_append [of "x @ [c]" y] iban_number_append [of x "[c]"]
    by (simp add: iban_number_single algebra_simps)
  have len: "length (iban_digits b) = length (iban_digits ?a)" using assms(4) by (simp add: iban_digits_def)
  have c1: "iban_number (x @ [?a] @ y) mod 97 = 1"
    using iban_check_number [of s] ok assms(1) xy [of ?a] by simp
  have "iban_number (x @ [b] @ y) mod 97 \<noteq> 1"
  proof
    assume "iban_number (x @ [b] @ y) mod 97 = 1"
    with c1 have "(?R + iban_val ?a * ?K) mod 97 = (?R + iban_val b * ?K) mod 97"
      using num [OF al(2) refl] num [OF assms(3) len] by simp
    then have "(iban_val ?a * ?K) mod 97 = (iban_val b * ?K) mod 97"
      by (rule mod_add_cancel)
    then have "iban_val ?a = iban_val b"
      by (rule pow10_cancel) (use iban_val_le [OF al(2)] iban_val_le [OF assms(3)] in linarith)+
    then show False using iban_val_inj [OF al(2) assms(3)] assms(4,5) by simp
  qed
  moreover have "is_ascii (s[i := b])" using al(1) by (rule alnum_ascii)
  ultimately show ?thesis using iban_check_number [of "s[i := b]"] ok xy [of b] by simp
qed

theorem iban_single_error_witness:
  "iban_check ((lit ''GB82WEST12345698765432'')[4 := 86]) = Some False"
proof (rule iban_single_error)
  show "iban_check (lit ''GB82WEST12345698765432'') = Some True" by code_simp
  show "4 < length (lit ''GB82WEST12345698765432'')" by code_simp
  show "is_alnum_upper 86" by code_simp
  show "is_ascii_digit 86 = is_ascii_digit (lit ''GB82WEST12345698765432'' ! 4)" by code_simp
  show "86 \<noteq> lit ''GB82WEST12345698765432'' ! 4" by code_simp
qed

section \<open>The scan\<close>

lemma iban_body_eq:
  "iban_body m =
     (let s = filter (\<lambda>c. \<not> is_whitespace c) (m_str m)
      in if \<not> (15 \<le> blen s \<and> blen s \<le> 34) then Some None
         else case iban_check s of
           None \<Rightarrow> None
         | Some False \<Rightarrow> Some None
         | Some True \<Rightarrow>
             Some (Some \<lparr>c_classifier = iban_NAME, c_start = m_start m, c_end = m_end m,
                c_redacted = take 2 s @ lit ''**...'' @ drop (length s - 4) s, c_last4 = drop (length s - 4) s\<rparr>))"
proof -
  let ?s = "filter (\<lambda>c. \<not> is_whitespace c) (m_str m)"
  have "slice_last 4 ?s = Some (drop (length ?s - 4) ?s) \<and> slice_to 2 ?s = Some (take 2 ?s)"
    if "iban_check ?s = Some True"
    using iban_check_True [OF that] by (simp add: slice_last_ascii slice_to_ascii)
  then show ?thesis
    by (auto simp: iban_body_def Let_def iban_redact_def split: option.split bool.split)
qed

lemma iban_body_Some:
  "iban_body m = Some (Some x) \<longleftrightarrow> (\<exists>s. s = filter (\<lambda>c. \<not> is_whitespace c) (m_str m) \<and>
    15 \<le> blen s \<and> blen s \<le> 34 \<and> iban_check s = Some True \<and>
    x = \<lparr>c_classifier = iban_NAME, c_start = m_start m, c_end = m_end m,
       c_redacted = take 2 s @ lit ''**...'' @ drop (length s - 4) s, c_last4 = drop (length s - 4) s\<rparr>)"
  unfolding iban_body_eq Let_def by (auto split: option.split bool.split)

locale iban_regex = unicode_classes nd wd + regex_find wd "IBAN_REGEX nd" find_iter
  for nd :: "rchar \<Rightarrow> bool" and wd :: "rchar \<Rightarrow> bool" and find_iter :: "rstr \<Rightarrow> rmatch list"
begin

definition iban_char :: "rchar \<Rightarrow> bool" where
  "iban_char c \<longleftrightarrow> is_alnum_upper c \<or> nd c \<or> c = 32"

lemma iban_chars: "rx_all iban_char (IBAN_REGEX nd)"
  by (simp add: IBAN_REGEX_def iban_char_def is_alnum_upper_def)

lemma alnum_wd: "is_alnum_upper c \<Longrightarrow> wd c"
  using wd_ascii [of c] by (auto simp: is_alnum_upper_def ascii_class_defs)

lemma alnum_not_space: "is_alnum_upper c \<Longrightarrow> \<not> is_whitespace c"
  by (auto simp: is_alnum_upper_def ascii_class_defs is_whitespace_def)

text \<open>The shape of a match.\<close>

lemma iban_rx:
  assumes "rx_in wd (IBAN_REGEX nd) u v w"
  shows "\<exists>a n r. v = a @ n @ r \<and> list_all is_ascii_uppercase a \<and> length a = 2 \<and> list_all nd n
      \<and> length n = 2 \<and> rep_in (rx_in wd (RSeq (ROpt (RCls (\<lambda>c. c = 32))) (RCls is_alnum_upper))) 11 30 (u @ a @ n) r w"
    and "at_wb wd (u @ v) w"
proof -
  obtain x1 y1 where 1: "v = x1 @ y1" "rx_in wd RWb u x1 (y1 @ w)"
    "rx_in wd (RSeq (RRep 2 2 (RCls is_ascii_uppercase)) (RSeq (RRep 2 2 (RCls nd))
       (RSeq (RRep 11 30 (RSeq (ROpt (RCls (\<lambda>c. c = 32))) (RCls is_alnum_upper))) RWb))) (u @ x1) y1 w"
    using iffD1 [OF rx_in_RSeq assms [unfolded IBAN_REGEX_def]] by (elim exE conjE) (rule that)
  obtain a y2 where 2: "y1 = a @ y2" "list_all is_ascii_uppercase a" "length a = 2"
    "rx_in wd (RSeq (RRep 2 2 (RCls nd))
       (RSeq (RRep 11 30 (RSeq (ROpt (RCls (\<lambda>c. c = 32))) (RCls is_alnum_upper))) RWb)) (u @ x1 @ a) y2 w"
    using iffD1 [OF rx_in_RSeq 1(3)] by (elim exE conjE) (rule that, simp_all)
  obtain n y3 where 3: "y2 = n @ y3" "list_all nd n" "length n = 2"
    "rx_in wd (RSeq (RRep 11 30 (RSeq (ROpt (RCls (\<lambda>c. c = 32))) (RCls is_alnum_upper))) RWb) (u @ x1 @ a @ n) y3 w"
    using iffD1 [OF rx_in_RSeq 2(4)] by (elim exE conjE) (rule that, simp_all)
  obtain r y4 where 4: "y3 = r @ y4"
    "rx_in wd (RRep 11 30 (RSeq (ROpt (RCls (\<lambda>c. c = 32))) (RCls is_alnum_upper))) (u @ x1 @ a @ n) r (y4 @ w)"
    "rx_in wd RWb (u @ x1 @ a @ n @ r) y4 w"
    using iffD1 [OF rx_in_RSeq 3(4)] by (elim exE conjE) (rule that, simp_all)
  have e: "x1 = []" "y4 = []" using 1(2) 4(3) by simp_all
  from e 4 3 2 1 show "at_wb wd (u @ v) w" by simp
  show "\<exists>a n r. v = a @ n @ r \<and> list_all is_ascii_uppercase a \<and> length a = 2 \<and> list_all nd n
      \<and> length n = 2 \<and> rep_in (rx_in wd (RSeq (ROpt (RCls (\<lambda>c. c = 32))) (RCls is_alnum_upper))) 11 30 (u @ a @ n) r w"
    using 1(1) 2(1-3) 3(1-3) 4(1,2) unfolding e rx_in.simps(4)
    by (intro exI [of _ a] exI [of _ n] exI [of _ r]) simp
qed

lemma group_last:
  "rep_in (rx_in wd (RSeq (ROpt (RCls (\<lambda>c. c = 32))) (RCls is_alnum_upper))) m n u v w \<Longrightarrow>
   m \<le> length v \<and> (v \<noteq> [] \<longrightarrow> is_alnum_upper (last v))"
proof (induction n arbitrary: m u v)
  case (Suc n)
  from Suc.prems consider "m = 0" "v = []"
    | x y where "v = x @ y" "rx_in wd (RSeq (ROpt (RCls (\<lambda>c. c = 32))) (RCls is_alnum_upper)) u x (y @ w)"
      "rep_in (rx_in wd (RSeq (ROpt (RCls (\<lambda>c. c = 32))) (RCls is_alnum_upper))) (m - 1) n (u @ x) y w"
    unfolding rep_in_Suc by blast
  then show ?case
  proof cases
    case 2
    then have "x \<noteq> [] \<and> is_alnum_upper (last x)" by auto
    moreover have "m - 1 \<le> length y \<and> (y \<noteq> [] \<longrightarrow> is_alnum_upper (last y))" by (rule Suc.IH [OF 2(3)])
    ultimately show ?thesis unfolding 2(1)
      using le_add2 [of "length y" 1] by (cases x) (auto simp: last_append)
  qed simp
qed auto

lemma match_ends:
  assumes "rx_in wd (IBAN_REGEX nd) u v w"
  shows "v \<noteq> [] \<and> is_alnum_upper (last v) \<and> 15 \<le> length v \<and> at_wb wd (u @ v) w"
proof -
  obtain a n r where v: "v = a @ n @ r" "length a = 2" "length n = 2"
    and r: "rep_in (rx_in wd (RSeq (ROpt (RCls (\<lambda>c. c = 32))) (RCls is_alnum_upper))) 11 30 (u @ a @ n) r w"
    using iban_rx(1) [OF assms] by blast
  from group_last [OF r] v have "11 \<le> length r" "is_alnum_upper (last r)" "r \<noteq> []" by auto
  with v iban_rx(2) [OF assms] show ?thesis by simp
qed

lemma scan_iff:
  assumes "iban_scan find_iter t = Some ms"
  shows "m \<in> set ms \<longleftrightarrow> (\<exists>r \<in> set (find_iter t). \<exists>s. s = filter (\<lambda>c. \<not> is_whitespace c) (m_str r) \<and>
    15 \<le> blen s \<and> blen s \<le> 34 \<and> iban_check s = Some True \<and>
    m = \<lparr>c_classifier = iban_NAME, c_start = m_start r, c_end = m_end r,
       c_redacted = take 2 s @ lit ''**...'' @ drop (length s - 4) s, c_last4 = drop (length s - 4) s\<rparr>)"
  unfolding scan_loop_Some [OF assms [unfolded iban_scan_def], of m] iban_body_Some by simp

lemma iban_reports:
  assumes "iban_scan find_iter t = Some ms" "m \<in> set ms"
  shows "c_classifier m = iban_NAME \<and> reports t m"
proof -
  obtain r s where r: "r \<in> set (find_iter t)" "s = filter (\<lambda>c. \<not> is_whitespace c) (m_str r)"
    "iban_check s = Some True"
    "m = \<lparr>c_classifier = iban_NAME, c_start = m_start r, c_end = m_end r,
       c_redacted = take 2 s @ lit ''**...'' @ drop (length s - 4) s, c_last4 = drop (length s - 4) s\<rparr>"
    using scan_iff [OF assms(1)] assms(2) by blast
  obtain u w where t: "t = u @ m_str r @ w" "m_start r = blen u" "m_end r = blen u + blen (m_str r)"
    and rx: "rx_in wd (IBAN_REGEX nd) u (m_str r) w" using find_matchE [OF r(1)] by metis
  obtain a n q where a: "m_str r = a @ n @ q" "list_all is_ascii_uppercase a" "length a = 2"
    using iban_rx(1) [OF rx] by blast
  have "filter (\<lambda>c. \<not> is_whitespace c) a = a"
    using a(2) alnum_not_space by (auto simp: filter_id_conv list_all_iff is_alnum_upper_def)
  then have "take 2 s = a" using a(1,3) r(2) by simp
  then have "digits_shown (take 2 s) = 0"
    using a(2) by (auto simp: digits_shown_def filter_empty_conv list_all_iff ascii_class_defs)
  moreover have "4 \<le> length s" using iban_check_True [OF r(3)] by simp
  then have "length (drop (length s - 4) s) = 4" by simp
  moreover have "digits_shown (drop (length s - 4) s) \<le> 4"
    using digits_shown_le [of "drop (length s - 4) s"] calculation(2) by simp
  moreover have "digits_shown (lit ''**...'') = 0" by code_simp
  moreover have "10 \<le> length (m_str r)" using match_ends [OF rx] by simp
  ultimately show ?thesis unfolding reports_def using r(4) t
    by (intro conjI exI [of _ u] exI [of _ "m_str r"] exI [of _ w]) simp_all
qed

sublocale classifier iban_NAME "iban_scan find_iter"
  by unfold_locales (simp_all add: iban_reports)

lemma opt_alnum: "is_alnum_upper c \<Longrightarrow>
    rx_in wd (RSeq (ROpt (RCls (\<lambda>c. c = 32))) (RCls is_alnum_upper)) u [c] w"
  unfolding rx_in_RSeq by (intro exI [of _ "[]"] exI [of _ "[c]"]) simp

text \<open>A bare number is found as a whole when it is isolated.\<close>

lemma bare_found:
  assumes v: "v = a @ n @ r" and a: "list_all is_ascii_uppercase a" "length a = 2"
    and n: "list_all nd n" "length n = 2" and r: "list_all is_alnum_upper r" "11 \<le> length r" "length r \<le> 30"
    and u: "u = [] \<or> \<not> wd (last u) \<and> last u \<noteq> 32" and w: "w = [] \<or> \<not> wd (hd w) \<and> hd w \<noteq> 32"
  shows "\<exists>m \<in> set (find_iter (u @ v @ w)). m_str m = v \<and> m_start m = blen u \<and> m_end m = blen (u @ v)"
proof -
  have v0: "v \<noteq> []" using v a(2) by auto
  have allwd: "list_all wd v" using v a(1) n(1) r(1) nd_word alnum_wd
    by (auto simp: list_all_iff is_alnum_upper_def)
  then have ends: "wd (hd v)" "wd (last v)" using v0 by (auto simp: list_all_iff)
  have r0: "r \<noteq> []" using r(2) by auto
  have "at_wb wd u (v @ w)" using u v0 ends(1) by (auto simp: at_wb_def)
  then have 1: "rx_in wd RWb u [] (v @ w)" by simp
  have "at_wb wd (u @ v) w" using w v0 ends(2) by (auto simp: at_wb_def)
  then have 4: "rx_in wd RWb (u @ v) [] w" by simp
  let ?g = "RSeq (ROpt (RCls (\<lambda>c. c = 32))) (RCls is_alnum_upper)"
  have "rep_in (rx_in wd ?g) 11 30 (u @ a @ n) r w"
    by (rule rep_in_single, rule opt_alnum, assumption, rule r(1)) (use r in simp_all)
  then have 3: "rx_in wd (RRep 11 30 ?g) (u @ a @ n) r w" by (simp only: rx_in.simps(4))
  have s3: "rx_in wd (RSeq (RRep 11 30 ?g) RWb) (u @ a @ n) r w"
    by (rule iffD2 [OF rx_in_RSeq]) (rule exI [of _ r], rule exI [of _ "[]"], use 3 4 v in simp)
  have s2: "rx_in wd (RSeq (RRep 2 2 (RCls nd)) (RSeq (RRep 11 30 ?g) RWb)) (u @ a) (n @ r) w"
    by (rule iffD2 [OF rx_in_RSeq]) (rule exI [of _ n], rule exI [of _ r], use n s3 in simp)
  have s1: "rx_in wd (RSeq (RRep 2 2 (RCls is_ascii_uppercase))
      (RSeq (RRep 2 2 (RCls nd)) (RSeq (RRep 11 30 ?g) RWb))) u v w"
    by (rule iffD2 [OF rx_in_RSeq]) (rule exI [of _ a], rule exI [of _ "n @ r"], use a s2 v in simp)
  have rx: "rx_in wd (IBAN_REGEX nd) u v w" unfolding IBAN_REGEX_def
    by (rule iffD2 [OF rx_in_RSeq]) (rule exI [of _ "[]"], rule exI [of _ v], use 1 s1 in simp)
  have left: "u = [] \<or> \<not> iban_char (last u)" using u alnum_wd nd_word by (auto simp: iban_char_def)
  from find_from [OF v0 rx iban_chars left] obtain m w' where
    m: "m \<in> set (find_iter (u @ v @ w))" "v @ w = m_str m @ w'" "m_start m = blen u"
      "m_end m = blen (u @ m_str m)" "rx_in wd (IBAN_REGEX nd) u (m_str m) w'" by blast
  note me = match_ends [OF m(5)]
  have "m_str m = v"
  proof (rule append_compare [OF m(2)])
    fix x assume x: "x \<noteq> []" "v = m_str m @ x" "w' = x @ w"
    have "wd (hd x)" "wd (last (m_str m))" using allwd x(1,2) me alnum_wd by (auto simp: list_all_iff)
    then show ?thesis using me x(1,3) by (auto simp: at_wb_def)
  next
    fix x assume x: "x \<noteq> []" "m_str m = v @ x" "w = x @ w'"
    have "list_all iban_char (m_str m)" by (rule rx_in_all [OF iban_chars m(5)])
    then have "iban_char (hd w)" using x by (cases x) auto
    then show ?thesis using w x alnum_wd nd_word by (auto simp: iban_char_def)
  qed simp
  with m show ?thesis by (intro bexI [of _ m]) simp_all
qed

lemma bare_no_space: "list_all is_ascii_uppercase a \<Longrightarrow> list_all nd n \<Longrightarrow> list_all is_alnum_upper r \<Longrightarrow>
    filter (\<lambda>c. \<not> is_whitespace c) (a @ n @ r) = a @ n @ r"
  using alnum_not_space nd_space by (auto simp: filter_id_conv list_all_iff is_alnum_upper_def)

lemma scan_panics:
  assumes v: "list_all is_ascii_uppercase a" "length a = 2" "nd c" "nd d"
    and r: "list_all is_alnum_upper r" "11 \<le> length r" and len: "blen (a @ [c, d] @ r) \<le> 34"
    and c: "3 \<le> length (utf8 c)"
    and u: "u = [] \<or> \<not> wd (last u) \<and> last u \<noteq> 32" and w: "w = [] \<or> \<not> wd (hd w) \<and> hd w \<noteq> 32"
  shows "iban_scan find_iter (u @ (a @ [c, d] @ r) @ w) = None"
proof -
  let ?v = "a @ [c, d] @ r"
  have lr: "length r \<le> 30"
    using len c blen_ge_length [of r] blen_ge_length [of a] v(2) utf8_length_pos [of d]
    by (simp del: utf8_length_pos length_greater_0_conv)
  obtain m where m: "m \<in> set (find_iter (u @ ?v @ w))" "m_str m = ?v"
    using bare_found [OF refl v(1,2) _ _ r lr u w, of "[c, d]"] v(3,4) by auto
  have s: "filter (\<lambda>c. \<not> is_whitespace c) (m_str m) = ?v"
    using bare_no_space [OF v(1) _ r(1), of "[c, d]"] v(3,4) m(2) by simp
  have "15 \<le> blen ?v" using blen_ge_length [of ?v] v(2) r(2) by simp
  moreover have "iban_check ?v = None"
  proof -
    obtain a1 a2 where a: "a = [a1, a2]" using v(2) by (auto simp: numeral_2_eq_2 length_Suc_conv)
    have "split_at_byte 2 (c # d # r) = None" using c by (simp add: numeral_2_eq_2)
    then have "split_at_byte 4 ?v = None" using a v(1)
      by (simp add: numeral_eq_Suc is_ascii_uppercase_def)
    then show ?thesis by (simp add: iban_check_def)
  qed
  ultimately have "iban_body m = None" using len by (simp add: iban_body_eq s del: blen_append blen_Cons)
  then show ?thesis using m(1) by (auto simp: iban_scan_def scan_loop_None)
qed

lemma ascii_total:
  assumes "is_ascii t"
  shows "\<exists>ms. iban_scan find_iter t = Some ms"
  unfolding iban_scan_def
proof (rule scan_loop_total)
  fix m assume m: "m \<in> set (find_iter t)"
  obtain u w where t: "t = u @ m_str m @ w" using find_matchE [OF m] by metis
  let ?s = "filter (\<lambda>c. \<not> is_whitespace c) (m_str m)"
  have asc: "is_ascii ?s" using assms unfolding t by (auto simp: is_ascii_def)
  have "15 \<le> blen ?s \<Longrightarrow> iban_check ?s \<noteq> None"
    using iban_check_number [OF asc] blen_ascii [OF asc] by simp
  then show "iban_body m \<noteq> None" by (auto simp: iban_body_eq Let_def split: option.split bool.split)
qed

lemma scan_complete:
  assumes v: "v = a @ n @ r" "list_all is_ascii_uppercase a" "length a = 2" "list_all is_ascii_digit n" "length n = 2"
    and r: "list_all is_alnum_upper r" "11 \<le> length r" "length r \<le> 30"
    and u: "u = [] \<or> \<not> wd (last u) \<and> last u \<noteq> 32" and w: "w = [] \<or> \<not> wd (hd w) \<and> hd w \<noteq> 32"
    and ok: "iban_number (r @ a @ n) mod 97 = 1"
    and scan: "iban_scan find_iter (u @ v @ w) = Some ms"
  shows "\<exists>m \<in> set ms. c_start m = blen u \<and> c_end m = blen (u @ v) \<and>
    c_redacted m = a @ lit ''**...'' @ drop (length r - 4) r"
proof -
  have n: "list_all nd n" using v(4) by (auto simp: list_all_iff nd_digit)
  obtain m where m: "m \<in> set (find_iter (u @ v @ w))" "m_str m = v" "m_start m = blen u" "m_end m = blen (u @ v)"
    using bare_found [OF v(1-3) n v(5) r u w] by blast
  have s: "filter (\<lambda>c. \<not> is_whitespace c) (m_str m) = v"
    using bare_no_space [OF v(2) n r(1)] m(2) v(1) by simp
  have al: "list_all is_alnum_upper v" using v r by (auto simp: list_all_iff is_alnum_upper_def)
  note asc = alnum_ascii [OF al]
  have dt: "drop 4 v = r" "take 4 v = a @ n" using v by simp_all
  have "iban_check v = Some True" using iban_check_number [OF asc] al ok v r dt by simp
  moreover have "blen v = length v" by (rule blen_ascii [OF asc])
  ultimately have "\<lparr>c_classifier = iban_NAME, c_start = m_start m, c_end = m_end m,
       c_redacted = take 2 v @ lit ''**...'' @ drop (length v - 4) v, c_last4 = drop (length v - 4) v\<rparr> \<in> set ms"
    unfolding scan_iff [OF scan] by (intro bexI [OF _ m(1)] exI [of _ v]) (use v r s in simp)
  moreover have "take 2 v = a" "drop (length v - 4) v = drop (length r - 4) r" using v r by simp_all
  ultimately show ?thesis using m(3,4) by (intro bexI) simp_all
qed

end

interpretation ref_iban: iban_regex eval_nd eval_wd "ref_find_iter eval_wd (IBAN_REGEX eval_nd)"
  by unfold_locales

text \<open>C34: whatever the regex crate does within its contract, the IBAN scan panics on every text
  with an isolated word of two capitals, two decimal digits the first of which takes three bytes or
  more, and at least eleven capitals and digits: \<open>split_at(4)\<close> cuts through that digit.\<close>

theorem iban_scan_panics:
  assumes "iban_regex nd wd re"
    and "list_all is_ascii_uppercase a" "length a = 2" "nd c" "nd d"
    and "list_all is_alnum_upper r" "11 \<le> length r" "blen (a @ [c, d] @ r) \<le> 34" "3 \<le> length (utf8 c)"
    and "u = [] \<or> \<not> wd (last u) \<and> last u \<noteq> 32" "w = [] \<or> \<not> wd (hd w) \<and> hd w \<noteq> 32"
  shows "iban_scan re (u @ (a @ [c, d] @ r) @ w) = None"
  by (rule iban_regex.scan_panics [OF assms])

theorem iban_scan_panics_witness:
  "iban_scan (ref_find_iter eval_wd (IBAN_REGEX eval_nd)) (lit ''('' @ (lit ''PL'' @ [2406, 2407] @ lit ''12345678901'') @ lit '')'') = None"
proof (rule iban_scan_panics [OF ref_iban.iban_regex_axioms])
  show "list_all is_ascii_uppercase (lit ''PL'')" "length (lit ''PL'') = 2" by (code_simp, code_simp)
  show "eval_nd 2406" "eval_nd 2407" by (simp_all add: eval_nd_def)
  show "list_all is_alnum_upper (lit ''12345678901'')" by code_simp
  show "11 \<le> length (lit ''12345678901'')" by simp
  have "length (utf8 2406) = 3" "length (utf8 2407) = 3" by (simp_all add: utf8_def)
  moreover have "blen (lit ''PL'') = 2" "blen (lit ''12345678901'') = 11" by (code_simp, code_simp)
  ultimately show "blen (lit ''PL'' @ [2406, 2407] @ lit ''12345678901'') \<le> 34"
    "3 \<le> length (utf8 2406)" by simp_all
  show "lit ''('' = [] \<or> \<not> eval_wd (last (lit ''('')) \<and> last (lit ''('') \<noteq> 32"
    "lit '')'' = [] \<or> \<not> eval_wd (hd (lit '')'')) \<and> hd (lit '')'') \<noteq> 32" by (code_simp, code_simp)
qed

text \<open>On ASCII text the IBAN scan returns, and it reports every isolated bare IBAN whose number
  is 1 modulo 97, disclosing the country and the last four chars.\<close>

theorem iban_scan_complete:
  assumes "iban_regex nd wd re" "is_ascii (u @ (a @ n @ r) @ w)"
    and "list_all is_ascii_uppercase a" "length a = 2" "list_all is_ascii_digit n" "length n = 2"
    and "list_all is_alnum_upper r" "11 \<le> length r" "length r \<le> 30"
    and "u = [] \<or> \<not> wd (last u) \<and> last u \<noteq> 32" "w = [] \<or> \<not> wd (hd w) \<and> hd w \<noteq> 32"
    and "iban_number (r @ a @ n) mod 97 = 1"
  shows "\<exists>ms. iban_scan re (u @ (a @ n @ r) @ w) = Some ms \<and>
    (\<exists>m \<in> set ms. c_start m = blen u \<and> c_end m = blen (u @ a @ n @ r) \<and>
      c_redacted m = a @ lit ''**...'' @ drop (length r - 4) r)"
proof -
  obtain ms where ms: "iban_scan re (u @ (a @ n @ r) @ w) = Some ms"
    using iban_regex.ascii_total [OF assms(1,2)] by blast
  with iban_regex.scan_complete [OF assms(1) refl assms(3-12) ms] show ?thesis by blast
qed

theorem iban_scan_complete_witness:
  "\<exists>ms. iban_scan (ref_find_iter eval_wd (IBAN_REGEX eval_nd))
      (lit ''acc:'' @ (lit ''GB'' @ lit ''82'' @ lit ''WEST12345698765432'') @ lit ''.'') = Some ms \<and>
    (\<exists>m \<in> set ms. c_start m = blen (lit ''acc:'') \<and>
      c_end m = blen (lit ''acc:'' @ lit ''GB'' @ lit ''82'' @ lit ''WEST12345698765432'') \<and>
      c_redacted m = lit ''GB'' @ lit ''**...'' @ drop (length (lit ''WEST12345698765432'') - 4) (lit ''WEST12345698765432''))"
proof (rule iban_scan_complete [OF ref_iban.iban_regex_axioms])
  have "iban_check (lit ''GB82WEST12345698765432'') = Some True" by code_simp
  moreover have "is_ascii (lit ''GB82WEST12345698765432'')" "4 \<le> length (lit ''GB82WEST12345698765432'')"
    by (code_simp, code_simp)
  moreover have "drop 4 (lit ''GB82WEST12345698765432'') @ take 4 (lit ''GB82WEST12345698765432'') =
      lit ''WEST12345698765432'' @ lit ''GB'' @ lit ''82''" by code_simp
  ultimately show "iban_number (lit ''WEST12345698765432'' @ lit ''GB'' @ lit ''82'') mod 97 = 1"
    using iban_check_number [of "lit ''GB82WEST12345698765432''"] by simp
qed code_simp+

end
