(* ===== verification/Default_Registry.thy ===== *)
theory Default_Registry
  imports Luhn Pesel Nip Iban
begin

text \<open>
  \<open>ClassifierRegistry::with_defaults\<close>: the registry the agent builds at start, on the four
  compiled patterns, and what every monitor that scans with it may rely on.
\<close>

section \<open>The registry the agent builds\<close>

definition luhn_classifier :: "(rstr \<Rightarrow> rmatch list) \<Rightarrow> classifier_obj" where
  "luhn_classifier re = \<lparr>cl_name = luhn_NAME, cl_scan = luhn_scan re\<rparr>"

definition pesel_classifier :: "(rstr \<Rightarrow> rmatch list) \<Rightarrow> classifier_obj" where
  "pesel_classifier re = \<lparr>cl_name = pesel_NAME, cl_scan = pesel_scan re\<rparr>"

definition iban_classifier :: "(rstr \<Rightarrow> rmatch list) \<Rightarrow> classifier_obj" where
  "iban_classifier re = \<lparr>cl_name = iban_NAME, cl_scan = iban_scan re\<rparr>"

definition nip_classifier :: "(rstr \<Rightarrow> rmatch list) \<Rightarrow> classifier_obj" where
  "nip_classifier re = \<lparr>cl_name = nip_NAME, cl_scan = nip_scan re\<rparr>"

text \<open>The compiled patterns, as the constructors of the classifiers hold them.\<close>

record regexes =
  re_card :: "rstr \<Rightarrow> rmatch list"
  re_pesel :: "rstr \<Rightarrow> rmatch list"
  re_iban :: "rstr \<Rightarrow> rmatch list"
  re_nip :: "rstr \<Rightarrow> rmatch list"

definition with_defaults :: "regexes \<Rightarrow> registry" where
  "with_defaults rs =
     (let r = registry_new;
          r = register r (luhn_classifier (re_card rs));
          r = register r (pesel_classifier (re_pesel rs));
          r = register r (iban_classifier (re_iban rs));
          r = register r (nip_classifier (re_nip rs))
      in r)"

text \<open>All four patterns compiled as their documentation promises.\<close>

definition regexes_ok :: "(rchar \<Rightarrow> bool) \<Rightarrow> (rchar \<Rightarrow> bool) \<Rightarrow> regexes \<Rightarrow> bool" where
  "regexes_ok nd wd rs \<longleftrightarrow> card_regex nd wd (re_card rs) \<and> pesel_regex nd wd (re_pesel rs)
     \<and> iban_regex nd wd (re_iban rs) \<and> nip_regex nd wd (re_nip rs)"

definition ref_regexes :: regexes where
  "ref_regexes = \<lparr>re_card = ref_find_iter eval_wd (CARD_REGEX eval_nd),
     re_pesel = ref_find_iter eval_wd (PESEL_REGEX eval_nd),
     re_iban = ref_find_iter eval_wd (IBAN_REGEX eval_nd),
     re_nip = ref_find_iter eval_wd (NIP_REGEX eval_nd)\<rparr>"

lemma ref_regexes_ok: "regexes_ok eval_nd eval_wd ref_regexes"
  by (simp add: regexes_ok_def ref_regexes_def ref_card.card_regex_axioms ref_pesel.pesel_regex_axioms
      ref_iban.iban_regex_axioms ref_nip.nip_regex_axioms)

section \<open>What it reports\<close>

lemmas with_defaults_simp = with_defaults_def registry_new_def register_def Let_def
  luhn_classifier_def pesel_classifier_def iban_classifier_def nip_classifier_def

lemma with_defaults_ok:
  assumes "regexes_ok nd wd rs"
  shows "registry_ok (with_defaults rs)"
proof -
  have "classifier luhn_NAME (luhn_scan (re_card rs))" "classifier pesel_NAME (pesel_scan (re_pesel rs))"
    "classifier iban_NAME (iban_scan (re_iban rs))" "classifier nip_NAME (nip_scan (re_nip rs))"
    using assms card_regex.luhn_reports pesel_regex.pesel_reports iban_regex.iban_reports nip_regex.nip_reports
    by (auto simp: classifier_def regexes_ok_def)
  then show ?thesis by (simp add: registry_ok_def with_defaults_simp)
qed

lemma with_defaults_names:
  "map cl_name (with_defaults rs) = [luhn_NAME, pesel_NAME, iban_NAME, nip_NAME]"
  by (simp add: with_defaults_simp)

lemma names_distinct: "distinct [luhn_NAME, pesel_NAME, iban_NAME, nip_NAME]"
  by (simp add: luhn_NAME_def pesel_NAME_def iban_NAME_def nip_NAME_def)

text \<open>C26: every match the default registry reports is a part of the scanned text at the byte offsets
  given, carries the slug of one of the four classifiers, and discloses four chars in \<open>last4\<close> and
  at most four digits in \<open>redacted\<close>, never the ten or more chars it found.\<close>

theorem defaults_report:
  assumes "regexes_ok nd wd rs" "scan_all (with_defaults rs) t = Some ms" "m \<in> set ms"
  shows "reports t m \<and> c_classifier m \<in> {luhn_NAME, pesel_NAME, iban_NAME, nip_NAME}"
  using scan_all_reports [OF with_defaults_ok [OF assms(1)] assms(2,3)]
  by (simp flip: set_map add: with_defaults_names)

theorem defaults_report_witness:
  "reports (lit ''PESEL 44051401359'') \<lparr>c_classifier = pesel_NAME, c_start = 6, c_end = 17,
     c_redacted = lit ''*******1359'', c_last4 = lit ''1359''\<rparr>"
proof -
  let ?m = "\<lparr>c_classifier = pesel_NAME, c_start = 6, c_end = 17,
     c_redacted = lit ''*******1359'', c_last4 = lit ''1359''\<rparr>"
  have "scan_all (with_defaults ref_regexes) (lit ''PESEL 44051401359'') = Some [?m]" by code_simp
  from defaults_report [OF ref_regexes_ok this, of ?m] show ?thesis by simp
qed

lemma defaults_None_iff: "scan_all (with_defaults rs) t = None \<longleftrightarrow> iban_scan (re_iban rs) t = None"
  unfolding scan_all_None by (simp add: with_defaults_simp luhn_scan_total pesel_scan_total nip_scan_total)

lemma defaults_ascii_total:
  assumes "regexes_ok nd wd rs" "is_ascii t"
  shows "\<exists>ms. scan_all (with_defaults rs) t = Some ms"
proof -
  have "\<exists>ms. iban_scan (re_iban rs) t = Some ms"
    using iban_regex.ascii_total [of nd wd "re_iban rs", OF _ assms(2)] assms(1) by (simp add: regexes_ok_def)
  then have "scan_all (with_defaults rs) t \<noteq> None" by (auto simp: defaults_None_iff)
  then show ?thesis by blast
qed

text \<open>The default registry panics on a text exactly when its IBAN classifier does, and so never
  on an ASCII text.\<close>

theorem defaults_total:
  assumes "regexes_ok nd wd rs"
  shows "(scan_all (with_defaults rs) t = None \<longleftrightarrow> iban_scan (re_iban rs) t = None)
    \<and> (is_ascii t \<longrightarrow> scan_all (with_defaults rs) t \<noteq> None)"
  using defaults_ascii_total [OF assms, of t] defaults_None_iff [of rs t] by blast

theorem defaults_total_witness:
  "scan_all (with_defaults ref_regexes) (lit ''hello'') \<noteq> None"
proof -
  have "is_ascii (lit ''hello'')" by code_simp
  with defaults_total [OF ref_regexes_ok, of "lit ''hello''"] show ?thesis by blast
qed

end
