(* ===== verification/Proto.thy ===== *)
theory Proto
  imports Prelude
begin

text \<open>
  The messages agent and manager exchange, \<open>proto/scrooge.proto\<close>, with the Rust types the
  code generator gives them (an enum field is its \<open>i32\<close>), and the bounded channels the tasks
  pass them through.
\<close>

section \<open>Events\<close>

record file_event =
  fe_path :: rstr
  fe_old_path :: rstr
  fe_destination_path :: rstr
  fe_size_bytes :: int
  fe_sha256 :: "u8 list"
  fe_mime_type :: rstr
  fe_file_extension :: rstr

record device_event =
  de_type :: int
  de_vendor_id :: rstr
  de_product_id :: rstr
  de_serial_number :: rstr
  de_device_instance_id :: rstr
  de_product_name :: rstr
  de_mount_point :: rstr
  de_capacity_bytes :: u64

record clipboard_event =
  ce_content_size :: u64
  ce_content_preview :: rstr
  ce_content_hash :: "u8 list"
  ce_mime_type :: rstr
  ce_source_process_name :: rstr
  ce_was_cleared :: bool

record screen_event =
  se_method :: int
  se_tool_process_name :: rstr
  se_tool_executable_path :: rstr
  se_was_blocked :: bool

record network_event =
  ne_remote_host :: rstr
  ne_remote_ip :: rstr
  ne_remote_port :: u32
  ne_protocol :: rstr
  ne_bytes_sent :: u64
  ne_bytes_received :: u64
  ne_cloud_classification :: int
  ne_local_process_name :: rstr

record process_event =
  pe_process_id :: u32
  pe_parent_process_id :: u32
  pe_executable_path :: rstr
  pe_command_line :: rstr
  pe_user_name :: rstr
  pe_executable_sha256 :: "u8 list"
  pe_exit_code :: int

datatype details =
    DFile file_event
  | DDevice device_event
  | DClipboard clipboard_event
  | DNetwork network_event
  | DScreen screen_event
  | DProcess process_event

record pmatch =
  pm_classifier_id :: rstr
  pm_match_count :: u32
  pm_sample_excerpt :: rstr

record event =
  ev_event_id :: rstr
  ev_timestamp_ns :: int
  ev_agent_id :: rstr
  ev_type :: int
  ev_severity :: int
  ev_direction :: int
  ev_user_name :: rstr
  ev_process_id :: u32
  ev_process_name :: rstr
  ev_details :: "details option"
  ev_matched_policy_id :: rstr
  ev_matched_rule_id :: rstr
  ev_action_taken :: int
  ev_matches :: "pmatch list"
  ev_forward_to_siem :: bool

record event_batch =
  eb_batch_id :: rstr
  eb_events :: "event list"

section \<open>The two streams\<close>

text \<open>\<open>cpu_percent\<close> is an \<open>f64\<close>, kept as its bit pattern.\<close>

record agent_status =
  st_events_in_queue :: u64
  st_events_dropped :: u64
  st_offline_mode :: bool
  st_cpu_percent :: u64
  st_mem_bytes :: u64
  st_disk_used_bytes :: u64

record heartbeat =
  hb_timestamp_ns :: int
  hb_status :: "agent_status option"
  hb_active_policy_ids :: "rstr list"
  hb_active_policy_versions :: "(rstr \<times> u32) list"
  hb_agent_version :: rstr

record policy_ack =
  pa_policy_id :: rstr
  pa_version :: u32
  pa_status :: int
  pa_error_message :: rstr

record command_result =
  cr_command_id :: rstr
  cr_status :: int
  cr_output :: rstr
  cr_payload :: "u8 list"
  cr_error_message :: rstr
  cr_completed_at_ns :: int

datatype agent_payload =
    AHeartbeat heartbeat
  | AEvent event
  | AEvents event_batch
  | APolicyAck policy_ack
  | ACommandResult command_result

text \<open>A message of either stream is its optional \<open>oneof\<close> payload.\<close>

type_synonym agent_message = "agent_payload option"

record policy_ref =
  pref_policy_id :: rstr
  pref_version :: u32
  pref_content_compiled :: "u8 list"
  pref_content_hash :: rstr
  pref_priority :: u32

record policy_update =
  pu_policies :: "policy_ref list"
  pu_full_replace :: bool
  pu_remove_policy_ids :: "rstr list"

record command =
  cmd_command_id :: rstr
  cmd_type :: int
  cmd_payload :: "u8 list"
  cmd_issued_at_ns :: int
  cmd_deadline_ns :: int

datatype manager_payload =
    MPolicy policy_update
  | MCommand command
  | MHeartbeatAck int

type_synonym manager_message = "manager_payload option"

section \<open>Channels\<close>

text \<open>
  A \<open>tokio::sync::mpsc\<close> channel as its senders see it: \<open>send().await\<close> waits while the buffer
  is full, fails when the receiver is gone, and otherwise appends.
\<close>

record 'm chan =
  ch_msgs :: "'m list"
  ch_closed :: bool

definition ch_send :: "'m \<Rightarrow> 'm chan \<Rightarrow> 'm chan option" where
  "ch_send m c = (if ch_closed c then None else Some (c\<lparr>ch_msgs := ch_msgs c @ [m]\<rparr>))"

lemma ch_send_None [simp]: "ch_send m c = None \<longleftrightarrow> ch_closed c"
  by (simp add: ch_send_def)

lemma ch_send_Some: "ch_send m c = Some d \<longleftrightarrow> \<not> ch_closed c \<and> d = c\<lparr>ch_msgs := ch_msgs c @ [m]\<rparr>"
  by (auto simp: ch_send_def)

text \<open>An event with the given id, for the witnesses.\<close>

definition sample_event :: "rstr \<Rightarrow> event" where
  "sample_event i = \<lparr>ev_event_id = i, ev_timestamp_ns = 0, ev_agent_id = [], ev_type = 30, ev_severity = 2,
     ev_direction = 0, ev_user_name = [], ev_process_id = 0, ev_process_name = [], ev_details = None,
     ev_matched_policy_id = [], ev_matched_rule_id = [], ev_action_taken = 0, ev_matches = [],
     ev_forward_to_siem = False\<rparr>"

end
