(* ===== verification/Event_Queue.thy ===== *)
theory Event_Queue
  imports Proto
begin

text \<open>
  The persistent event queue of the agent, \<open>scrooge-agent-core/src/queue.rs\<close>: the SQLite table
  \<open>events_pending\<close> as the list of its rows in insertion order with the AUTOINCREMENT counter, and
  its SQL statements as functions on it. Each operation takes the outcome of its statement
  (\<open>Some e\<close>: it fails with \<open>e\<close> and changes nothing). The Protobuf encoder and decoder of an event
  are parameters. The abstract queue is the list of pending events with their ids.
\<close>

section \<open>The table and its operations\<close>

record qrow =
  qr_id :: int
  qr_created_at :: int
  qr_sent_at :: "int option"
  qr_payload :: "u8 list"

record event_queue =
  q_rows :: "qrow list"
  q_seq :: int

datatype queue_error = QSqlite rstr | QEncode rstr | QDecode rstr

record pending_event =
  pe_id :: int
  pe_event :: event

definition max_i64 :: int where
  "max_i64 = 2 ^ 63 - 1"

text \<open>\<open>CREATE TABLE IF NOT EXISTS\<close> keeps the table of an existing file.\<close>

definition queue_open :: "rstr option \<Rightarrow> event_queue option \<Rightarrow> queue_error + event_queue" where
  "queue_open db file =
     (case db of
        Some e \<Rightarrow> Inl (QSqlite e)
      | None \<Rightarrow> Inr (case file of Some q \<Rightarrow> q | None \<Rightarrow> \<lparr>q_rows = [], q_seq = 0\<rparr>))"

definition enqueue ::
  "(event \<Rightarrow> u8 list) \<Rightarrow> rstr option \<Rightarrow> int \<Rightarrow> event \<Rightarrow> event_queue \<Rightarrow> (queue_error + int) \<times> event_queue" where
  "enqueue encode db now ev q =
     (let payload = encode ev
      in case db of
           Some e \<Rightarrow> (Inl (QSqlite e), q)
         | None \<Rightarrow>
             if q_seq q \<ge> max_i64 then (Inl (QSqlite (lit ''database or disk is full'')), q)
             else let i = q_seq q + 1
                  in (Inr i, q\<lparr>q_rows := q_rows q @ [\<lparr>qr_id = i, qr_created_at = now,
                        qr_sent_at = None, qr_payload = payload\<rparr>], q_seq := i\<rparr>))"

fun decode_rows :: "(u8 list \<Rightarrow> rstr + event) \<Rightarrow> qrow list \<Rightarrow> queue_error + pending_event list" where
  "decode_rows decode [] = Inr []"
| "decode_rows decode (r # rs) =
     res_bind (map_err QDecode (decode (qr_payload r))) (\<lambda>ev.
     res_bind (decode_rows decode rs) (\<lambda>out.
     Inr (\<lparr>pe_id = qr_id r, pe_event = ev\<rparr> # out)))"

definition take_batch ::
  "(u8 list \<Rightarrow> rstr + event) \<Rightarrow> rstr option \<Rightarrow> u32 \<Rightarrow> event_queue \<Rightarrow> queue_error + pending_event list" where
  "take_batch decode db limit q =
     (case db of
        Some e \<Rightarrow> Inl (QSqlite e)
      | None \<Rightarrow>
          decode_rows decode
            (take (unat limit) (sort_key qr_id (filter (\<lambda>r. qr_sent_at r = None) (q_rows q)))))"

definition mark_sent :: "rstr option \<Rightarrow> int \<Rightarrow> int list \<Rightarrow> event_queue \<Rightarrow> (queue_error + unit) \<times> event_queue" where
  "mark_sent db now ids q =
     (if ids = [] then (Inr (), q)
      else case db of
        Some e \<Rightarrow> (Inl (QSqlite e), q)
      | None \<Rightarrow>
          (Inr (), q\<lparr>q_rows := map (\<lambda>r. if qr_id r \<in> set ids then r\<lparr>qr_sent_at := Some now\<rparr> else r) (q_rows q)\<rparr>))"

definition purge_sent_older_than ::
  "rstr option \<Rightarrow> int \<Rightarrow> event_queue \<Rightarrow> (queue_error + nat) \<times> event_queue" where
  "purge_sent_older_than db cutoff q =
     (case db of
        Some e \<Rightarrow> (Inl (QSqlite e), q)
      | None \<Rightarrow>
          let dead = (\<lambda>r. case qr_sent_at r of Some t \<Rightarrow> t < cutoff | None \<Rightarrow> False)
          in (Inr (length (filter dead (q_rows q))), q\<lparr>q_rows := filter (\<lambda>r. \<not> dead r) (q_rows q)\<rparr>))"

definition pending_count :: "rstr option \<Rightarrow> event_queue \<Rightarrow> queue_error + nat" where
  "pending_count db q =
     (case db of
        Some e \<Rightarrow> Inl (QSqlite e)
      | None \<Rightarrow> Inr (length (filter (\<lambda>r. qr_sent_at r = None) (q_rows q))))"

section \<open>The contract of a queue\<close>

text \<open>
  What the uploader relies on: \<open>pend\<close> is the pending events, oldest first. \<open>good\<close> events survive
  being stored.
\<close>

locale pending_queue =
  fixes ok :: "'q \<Rightarrow> bool" and pend :: "'q \<Rightarrow> (int \<times> 'e) list" and good :: "'e \<Rightarrow> bool"
    and enq :: "'e \<Rightarrow> 'q \<Rightarrow> ('x + int) \<times> 'q"
    and batch :: "u32 \<Rightarrow> 'q \<Rightarrow> 'x + (int \<times> 'e) list"
    and mark :: "int list \<Rightarrow> 'q \<Rightarrow> ('x + unit) \<times> 'q"
  assumes enq_ok: "ok q \<Longrightarrow> good e \<Longrightarrow> enq e q = (Inr i, q') \<Longrightarrow> ok q' \<and> pend q' = pend q @ [(i, e)]"
    and enq_err: "enq e q = (Inl x, q') \<Longrightarrow> q' = q"
    and batch_ok: "ok q \<Longrightarrow> batch n q = Inr b \<Longrightarrow> b = take (unat n) (pend q)"
    and mark_ok: "ok q \<Longrightarrow> mark ids q = (Inr (), q') \<Longrightarrow>
      ok q' \<and> pend q' = filter (\<lambda>p. fst p \<notin> set ids) (pend q)"
    and mark_err: "mark ids q = (Inl x, q') \<Longrightarrow> q' = q"
    and pend_distinct: "ok q \<Longrightarrow> distinct (map fst (pend q))"
begin

text \<open>Marking the ids of a batch removes exactly that batch.\<close>

lemma mark_batch:
  assumes "ok q" "mark (map fst (take n (pend q))) q = (Inr (), q')"
  shows "ok q' \<and> pend q' = drop n (pend q)"
proof -
  have d: "distinct (map fst (take n (pend q) @ drop n (pend q)))"
    using pend_distinct [OF assms(1)] by simp
  then have "filter (\<lambda>p. fst p \<notin> set (map fst (take n (pend q)))) (drop n (pend q)) = drop n (pend q)"
    unfolding map_append distinct_append by (intro filter_True) auto
  moreover have "filter (\<lambda>p. fst p \<notin> set (map fst (take n (pend q)))) (take n (pend q)) = []"
    by (auto simp: filter_empty_conv)
  ultimately have "filter (\<lambda>p. fst p \<notin> set (map fst (take n (pend q)))) (take n (pend q) @ drop n (pend q))
      = drop n (pend q)" unfolding filter_append by simp
  then show ?thesis using mark_ok [OF assms] by simp
qed

end

section \<open>The table keeps the contract\<close>

definition unsent :: "event_queue \<Rightarrow> qrow list" where
  "unsent q = filter (\<lambda>r. qr_sent_at r = None) (q_rows q)"

text \<open>Rows stand in the order of their ids, no id is above the counter, and what is pending decodes.\<close>

definition queue_inv :: "(u8 list \<Rightarrow> rstr + event) \<Rightarrow> event_queue \<Rightarrow> bool" where
  "queue_inv decode q \<longleftrightarrow> sorted_wrt (<) (map qr_id (q_rows q)) \<and> 0 \<le> q_seq q \<and>
     (\<forall>r \<in> set (q_rows q). 0 < qr_id r \<and> qr_id r \<le> q_seq q) \<and>
     (\<forall>r \<in> set (unsent q). \<exists>e. decode (qr_payload r) = Inr e)"

definition row_event :: "(u8 list \<Rightarrow> rstr + event) \<Rightarrow> qrow \<Rightarrow> event" where
  "row_event decode r = projr (decode (qr_payload r))"

definition pending :: "(u8 list \<Rightarrow> rstr + event) \<Rightarrow> event_queue \<Rightarrow> (int \<times> event) list" where
  "pending decode q = map (\<lambda>r. (qr_id r, row_event decode r)) (unsent q)"

definition pending_pair :: "pending_event \<Rightarrow> int \<times> event" where
  "pending_pair p = (pe_id p, pe_event p)"

lemma unsent_sorted: "queue_inv decode q \<Longrightarrow> sort_key qr_id (unsent q) = unsent q"
proof -
  assume "queue_inv decode q"
  then have "sorted_wrt (<) (map qr_id (q_rows q))" by (simp add: queue_inv_def)
  then have "sorted_wrt (\<lambda>r s. qr_id r < qr_id s) (q_rows q)" by (simp add: sorted_wrt_map)
  then have "sorted_wrt (\<lambda>r s. qr_id r < qr_id s) (unsent q)" unfolding unsent_def by (rule sorted_wrt_filter)
  then have "sorted (map qr_id (unsent q))"
    unfolding sorted_map by (rule sorted_wrt_mono_rel [rotated]) simp
  then show ?thesis by (rule sort_key_id_if_sorted)
qed

lemma decode_rows_ok:
  "decode_rows decode rs = Inr ps \<Longrightarrow> map pending_pair ps = map (\<lambda>r. (qr_id r, row_event decode r)) rs"
  by (induction rs arbitrary: ps)
    (auto simp: res_bind_Inr_iff pending_pair_def row_event_def map_err_def split: sum.splits)

lemma decode_rows_total:
  "(\<forall>r \<in> set rs. \<exists>e. decode (qr_payload r) = Inr e) \<Longrightarrow> \<exists>ps. decode_rows decode rs = Inr ps"
  by (induction rs) auto

lemma take_batch_eq:
  assumes "queue_inv decode q"
  shows "\<exists>ps. take_batch decode None limit q = Inr ps \<and> map pending_pair ps = take (unat limit) (pending decode q)"
proof -
  let ?rs = "take (unat limit) (unsent q)"
  have eq: "take_batch decode None limit q = decode_rows decode ?rs"
    using unsent_sorted [OF assms] by (simp add: take_batch_def flip: unsent_def)
  have "\<forall>r \<in> set ?rs. \<exists>e. decode (qr_payload r) = Inr e"
    using assms by (auto simp: queue_inv_def dest: in_set_takeD)
  then obtain ps where ps: "decode_rows decode ?rs = Inr ps" using decode_rows_total by blast
  then show ?thesis using decode_rows_ok [OF ps] eq by (simp add: pending_def take_map)
qed

lemma enqueue_inv:
  assumes "queue_inv decode q" "decode (encode e) = Inr e" "enqueue encode db now e q = (Inr i, q')"
  shows "queue_inv decode q' \<and> pending decode q' = pending decode q @ [(i, e)] \<and> i = q_seq q + 1"
proof -
  have i: "i = q_seq q + 1" and q': "q' = q\<lparr>q_rows := q_rows q @ [\<lparr>qr_id = i, qr_created_at = now,
      qr_sent_at = None, qr_payload = encode e\<rparr>], q_seq := i\<rparr>"
    using assms(3) by (auto simp: enqueue_def Let_def split: option.splits if_splits)
  have u: "unsent q' = unsent q @ [\<lparr>qr_id = i, qr_created_at = now, qr_sent_at = None, qr_payload = encode e\<rparr>]"
    by (simp add: unsent_def q')
  have "queue_inv decode q'" unfolding queue_inv_def u
    using assms(1,2) i by (auto simp: queue_inv_def q' sorted_wrt_append)
  moreover have "pending decode q' = pending decode q @ [(i, e)]"
    using assms(2) by (simp add: pending_def u row_event_def)
  ultimately show ?thesis using i by simp
qed

lemma mark_sent_inv:
  assumes "queue_inv decode q" "mark_sent db now ids q = (Inr (), q')"
  shows "queue_inv decode q' \<and> pending decode q' = filter (\<lambda>p. fst p \<notin> set ids) (pending decode q)"
proof (cases "ids = []")
  case False
  let ?f = "\<lambda>r. if qr_id r \<in> set ids then r\<lparr>qr_sent_at := Some now\<rparr> else r"
  have q': "q' = q\<lparr>q_rows := map ?f (q_rows q)\<rparr>"
    using assms(2) False by (auto simp: mark_sent_def split: option.splits)
  have u: "unsent q' = filter (\<lambda>r. qr_id r \<notin> set ids) (unsent q)"
  proof -
    have "filter (\<lambda>r. qr_sent_at r = None) (map ?f rs) =
        filter (\<lambda>r. qr_id r \<notin> set ids) (filter (\<lambda>r. qr_sent_at r = None) rs)" for rs
      by (induction rs) auto
    then show ?thesis by (simp add: unsent_def q')
  qed
  have "map qr_id (q_rows q') = map qr_id (q_rows q)" by (simp add: q')
  then have "sorted_wrt (<) (map qr_id (q_rows q'))" using assms(1) by (simp add: queue_inv_def)
  then have "queue_inv decode q'" unfolding queue_inv_def u
    using assms(1) by (auto simp: queue_inv_def q' split: if_splits)
  moreover have "pending decode q' = filter (\<lambda>p. fst p \<notin> set ids) (pending decode q)"
    by (simp add: pending_def u filter_map o_def)
  ultimately show ?thesis by simp
qed (use assms in \<open>simp add: mark_sent_def\<close>)

lemma purge_inv:
  assumes "queue_inv decode q" "purge_sent_older_than db cutoff q = (r, q')"
  shows "queue_inv decode q' \<and> pending decode q' = pending decode q \<and> unsent q' = unsent q"
proof (cases db)
  case None
  define dead where "dead = (\<lambda>r :: qrow. case qr_sent_at r of Some t \<Rightarrow> t < cutoff | None \<Rightarrow> False)"
  have q': "q' = q\<lparr>q_rows := filter (\<lambda>r. \<not> dead r) (q_rows q)\<rparr>"
    using assms(2) None by (simp add: purge_sent_older_than_def dead_def)
  have u: "unsent q' = unsent q"
    by (auto simp: unsent_def q' dead_def intro!: filter_cong split: option.splits)
  have "sorted_wrt (<) (map qr_id (q_rows q'))"
    using assms(1) unfolding queue_inv_def sorted_wrt_map q' by (simp add: sorted_wrt_filter)
  then have "queue_inv decode q'" using assms(1) unfolding queue_inv_def u by (auto simp: q')
  then show ?thesis using u by (simp add: pending_def)
qed (use assms in \<open>simp add: purge_sent_older_than_def\<close>)

lemma pending_ids_distinct: "queue_inv decode q \<Longrightarrow> distinct (map fst (pending decode q))"
proof -
  assume "queue_inv decode q"
  then have "sorted_wrt (<) (map qr_id (q_rows q))" by (simp add: queue_inv_def)
  then have "distinct (map qr_id (q_rows q))" by (simp add: strict_sorted_iff)
  then have "distinct (map qr_id (unsent q))" by (simp add: unsent_def distinct_map_filter)
  then show ?thesis by (simp add: pending_def o_def)
qed

interpretation sq: pending_queue "queue_inv decode" "pending decode" "\<lambda>e. decode (encode e) = Inr e"
  "enqueue encode db now"
  "\<lambda>n q. case take_batch decode db n q of Inl e \<Rightarrow> Inl e | Inr b \<Rightarrow> Inr (map pending_pair b)"
  "\<lambda>ids. mark_sent db now ids"
  for encode decode db now
proof unfold_locales
  fix q e i q'
  assume "queue_inv decode q" "decode (encode e) = Inr e" "enqueue encode db now e q = (Inr i, q')"
  then show "queue_inv decode q' \<and> pending decode q' = pending decode q @ [(i, e)]"
    using enqueue_inv by blast
next
  fix e q x q'
  assume "enqueue encode db now e q = (Inl x, q')"
  then show "q' = q" by (auto simp: enqueue_def Let_def split: option.splits if_splits)
next
  fix q n b
  assume q: "queue_inv decode q"
    and b: "(case take_batch decode db n q of Inl e \<Rightarrow> Inl e | Inr b \<Rightarrow> Inr (map pending_pair b)) = Inr b"
  then have "db = None" by (auto simp: take_batch_def split: option.splits)
  with b take_batch_eq [OF q, of n] show "b = take (unat n) (pending decode q)" by auto
next
  fix q ids q'
  assume "queue_inv decode q" "mark_sent db now ids q = (Inr (), q')"
  then show "queue_inv decode q' \<and> pending decode q' = filter (\<lambda>p. fst p \<notin> set ids) (pending decode q)"
    by (rule mark_sent_inv)
next
  fix ids q x q'
  assume "mark_sent db now ids q = (Inl x, q')"
  then show "q' = q" by (auto simp: mark_sent_def split: option.splits if_splits)
next
  fix q
  assume "queue_inv decode q"
  then show "distinct (map fst (pending decode q))" by (rule pending_ids_distinct)
qed

section \<open>Refinement of a list of pending events\<close>

text \<open>Sequences of operations with the outcomes of their statements, on the table and on the list of the
  pending events, oldest first. What an operation answers is a \<open>queue_answer\<close>.\<close>

datatype queue_request =
    OEnqueue "rstr option" int event
  | OTake "rstr option" u32
  | OMark "rstr option" int "int list"
  | OPurge "rstr option" int
  | OCount "rstr option"

datatype queue_answer = AId int | ABatch "(int \<times> event) list" | ADone | ACount nat | AError

fun queue_op ::
  "(event \<Rightarrow> u8 list) \<Rightarrow> (u8 list \<Rightarrow> rstr + event) \<Rightarrow> queue_request \<Rightarrow> event_queue \<Rightarrow> queue_answer \<times> event_queue" where
  "queue_op encode decode (OEnqueue db now e) q =
     (case enqueue encode db now e q of (Inl _, q) \<Rightarrow> (AError, q) | (Inr i, q) \<Rightarrow> (AId i, q))"
| "queue_op encode decode (OTake db n) q =
     (case take_batch decode db n q of Inl _ \<Rightarrow> (AError, q) | Inr b \<Rightarrow> (ABatch (map pending_pair b), q))"
| "queue_op encode decode (OMark db now ids) q =
     (case mark_sent db now ids q of (Inl _, q) \<Rightarrow> (AError, q) | (Inr _, q) \<Rightarrow> (ADone, q))"
| "queue_op encode decode (OPurge db cutoff) q =
     (case purge_sent_older_than db cutoff q of (Inl _, q) \<Rightarrow> (AError, q) | (Inr _, q) \<Rightarrow> (ADone, q))"
| "queue_op encode decode (OCount db) q =
     (case pending_count db q of Inl _ \<Rightarrow> (AError, q) | Inr n \<Rightarrow> (ACount n, q))"

fun queue_run ::
  "(event \<Rightarrow> u8 list) \<Rightarrow> (u8 list \<Rightarrow> rstr + event) \<Rightarrow> queue_request list \<Rightarrow> event_queue \<Rightarrow> queue_answer list \<times> event_queue" where
  "queue_run encode decode [] q = ([], q)"
| "queue_run encode decode (x # xs) q =
     (let (a, q) = queue_op encode decode x q; (as, q) = queue_run encode decode xs q in (a # as, q))"

text \<open>The list: its next id and its entries.\<close>

fun fifo_op :: "queue_request \<Rightarrow> int \<times> (int \<times> event) list \<Rightarrow> queue_answer \<times> int \<times> (int \<times> event) list" where
  "fifo_op (OEnqueue db now e) (n, l) =
     (if db \<noteq> None \<or> n \<ge> max_i64 then (AError, n, l) else (AId (n + 1), n + 1, l @ [(n + 1, e)]))"
| "fifo_op (OTake db k) (n, l) = (if db \<noteq> None then (AError, n, l) else (ABatch (take (unat k) l), n, l))"
| "fifo_op (OMark db now ids) (n, l) =
     (if ids = [] then (ADone, n, l)
      else if db \<noteq> None then (AError, n, l) else (ADone, n, filter (\<lambda>p. fst p \<notin> set ids) l))"
| "fifo_op (OPurge db cutoff) (n, l) = (if db \<noteq> None then AError else ADone, n, l)"
| "fifo_op (OCount db) (n, l) = (if db \<noteq> None then AError else ACount (length l), n, l)"

fun fifo_run :: "queue_request list \<Rightarrow> int \<times> (int \<times> event) list \<Rightarrow> queue_answer list \<times> int \<times> (int \<times> event) list" where
  "fifo_run [] s = ([], s)"
| "fifo_run (x # xs) s = (let (a, s) = fifo_op x s; (as, s) = fifo_run xs s in (a # as, s))"

definition queue_abs :: "(u8 list \<Rightarrow> rstr + event) \<Rightarrow> event_queue \<Rightarrow> int \<times> (int \<times> event) list" where
  "queue_abs decode q = (q_seq q, pending decode q)"

fun stores_well :: "(event \<Rightarrow> u8 list) \<Rightarrow> (u8 list \<Rightarrow> rstr + event) \<Rightarrow> queue_request \<Rightarrow> bool" where
  "stores_well encode decode (OEnqueue db now e) \<longleftrightarrow> decode (encode e) = Inr e"
| "stores_well encode decode _ \<longleftrightarrow> True"

lemma queue_op_refines:
  assumes "queue_inv decode q" "stores_well encode decode x" "queue_op encode decode x q = (a, q')"
  shows "queue_inv decode q' \<and> fifo_op x (queue_abs decode q) = (a, queue_abs decode q')"
proof (cases x)
  case (OEnqueue db now e)
  obtain r q1 where e: "enqueue encode db now e q = (r, q1)" by fastforce
  show ?thesis
  proof (cases r)
    case (Inl y)
    with assms(1,3) OEnqueue e show ?thesis
      by (auto simp: enqueue_def queue_abs_def Let_def split: option.splits if_splits)
  next
    case (Inr i)
    note inv = enqueue_inv [OF assms(1) _ e [unfolded Inr]]
    have "q_seq q1 = i" "db = None" "\<not> q_seq q \<ge> max_i64"
      using e Inr by (auto simp: enqueue_def Let_def split: option.splits if_splits)
    with inv assms(2,3) OEnqueue e Inr show ?thesis by (auto simp: queue_abs_def)
  qed
next
  case (OTake db n)
  show ?thesis
  proof (cases db)
    case None
    obtain b where "take_batch decode None n q = Inr b" "map pending_pair b = take (unat n) (pending decode q)"
      using take_batch_eq [OF assms(1)] by blast
    with assms(1,3) OTake None show ?thesis by (auto simp: queue_abs_def)
  qed (use assms OTake in \<open>auto simp: take_batch_def queue_abs_def\<close>)
next
  case (OMark db now ids)
  obtain r q1 where m: "mark_sent db now ids q = (r, q1)" by fastforce
  have seq: "q_seq q1 = q_seq q" using m by (auto simp: mark_sent_def split: if_splits option.splits)
  show ?thesis
  proof (cases r)
    case (Inl y)
    then have "ids \<noteq> []" "db \<noteq> None" "q1 = q" using m by (auto simp: mark_sent_def split: if_splits option.splits)
    with assms(1,3) OMark m Inl show ?thesis by (auto simp: queue_abs_def)
  next
    case (Inr u)
    then have "ids = [] \<or> db = None" using m by (auto simp: mark_sent_def split: if_splits option.splits)
    moreover have "queue_inv decode q1 \<and> pending decode q1 = filter (\<lambda>p. fst p \<notin> set ids) (pending decode q)"
      by (rule mark_sent_inv [OF assms(1)]) (use m Inr in simp)
    ultimately show ?thesis using assms(3) OMark m Inr seq by (auto simp: queue_abs_def)
  qed
next
  case (OPurge db cutoff)
  obtain r q1 where m: "purge_sent_older_than db cutoff q = (r, q1)" by fastforce
  have "q_seq q1 = q_seq q" "isl r \<longleftrightarrow> db \<noteq> None"
    using m by (auto simp: purge_sent_older_than_def Let_def split: option.splits)
  with purge_inv [OF assms(1) m] assms(3) OPurge m show ?thesis
    by (cases r) (auto simp: queue_abs_def)
next
  case (OCount db)
  with assms(1,3) show ?thesis
    by (cases db) (auto simp: pending_count_def queue_abs_def pending_def unsent_def)
qed

text \<open>C11: the table refines a list of the pending events, oldest first: any sequence of operations, with any
  failures of their statements, answers as the list does and leaves the table that the list describes; a
  failed operation changes neither, and a purge never removes a pending event.\<close>

theorem queue_refines_fifo:
  assumes "queue_inv decode q" "list_all (stores_well encode decode) xs" "queue_run encode decode xs q = (as, q')"
  shows "queue_inv decode q' \<and> fifo_run xs (queue_abs decode q) = (as, queue_abs decode q')"
  using assms
proof (induction xs arbitrary: q as)
  case (Cons x xs)
  obtain a q1 where o: "queue_op encode decode x q = (a, q1)" by fastforce
  obtain as' q2 where r: "queue_run encode decode xs q1 = (as', q2)" by fastforce
  have "queue_inv decode q1 \<and> fifo_op x (queue_abs decode q) = (a, queue_abs decode q1)"
    using queue_op_refines [OF Cons.prems(1) _ o] Cons.prems(2) by simp
  with Cons.IH [of q1 as'] Cons.prems(2,3) o r show ?case by auto
qed simp

theorem queue_refines_fifo_witness:
  "fst (queue_run (\<lambda>e. as_bytes (ev_event_id e)) (\<lambda>b. Inr (sample_event (map unat b)))
     [OEnqueue None 7 (sample_event (lit ''a'')), OEnqueue (Some []) 8 (sample_event (lit ''b'')), OPurge None 9, OCount None]
     \<lparr>q_rows = [], q_seq = 0\<rparr>) = [AId 1, AError, ADone, ACount 1]"
proof -
  let ?enc = "\<lambda>e. as_bytes (ev_event_id e)" let ?dec = "\<lambda>b. Inr (sample_event (map unat b)) :: rstr + event"
  let ?q = "\<lparr>q_rows = [], q_seq = 0\<rparr>"
  let ?xs = "[OEnqueue None 7 (sample_event (lit ''a'')), OEnqueue (Some []) 8 (sample_event (lit ''b'')), OPurge None 9, OCount None]"
  obtain as q' where r: "queue_run ?enc ?dec ?xs ?q = (as, q')" by fastforce
  have "list_all (stores_well ?enc ?dec) ?xs"
    by (simp add: sample_event_def as_bytes_def lit_def unat_of_nat_small)
  moreover have "queue_inv ?dec ?q" by (simp add: queue_inv_def unsent_def)
  ultimately have "fifo_run ?xs (queue_abs ?dec ?q) = (as, queue_abs ?dec q')"
    using queue_refines_fifo [OF _ _ r] by blast
  then have "as = [AId 1, AError, ADone, ACount 1]" by (simp add: queue_abs_def pending_def unsent_def max_i64_def)
  with r show ?thesis by simp
qed

end
