(* ===== verification/Uploader.thy ===== *)
theory Uploader
  imports Event_Queue
begin

text \<open>
  The task that moves the queue to the manager, \<open>scrooge-agent-bin/src/event_uploader.rs\<close>:
  \<open>drain_once\<close> takes a batch, sends it, marks it sent; the task repeats it every tick and exits on
  the first error or on shutdown. \<open>up_step\<close> is the same task with its await points apart, so that
  other tasks enqueue events in between.
\<close>

section \<open>The task\<close>

definition TICK_INTERVAL :: nat where
  "TICK_INTERVAL = 5"

definition BATCH_LIMIT :: u32 where
  "BATCH_LIMIT = 50"

datatype drain_error = DQueue queue_error | DChannelClosed

definition batch_message :: "rstr \<Rightarrow> event list \<Rightarrow> agent_message" where
  "batch_message uuid evs = Some (AEvents \<lparr>eb_batch_id = uuid, eb_events = evs\<rparr>)"

definition drain_once ::
  "(u8 list \<Rightarrow> rstr + event) \<Rightarrow> rstr option \<Rightarrow> rstr option \<Rightarrow> int \<Rightarrow> rstr \<Rightarrow>
   agent_message chan \<Rightarrow> event_queue \<Rightarrow> (drain_error + unit) \<times> agent_message chan \<times> event_queue" where
  "drain_once decode db_take db_mark now uuid ch q =
     (case take_batch decode db_take BATCH_LIMIT q of
        Inl e \<Rightarrow> (Inl (DQueue e), ch, q)
      | Inr batch \<Rightarrow>
          if batch = [] then (Inr (), ch, q)
          else let ids = map pe_id batch;
                   events = map pe_event batch;
                   msg = batch_message uuid events
               in case ch_send msg ch of
                    None \<Rightarrow> (Inl DChannelClosed, ch, q)
                  | Some ch \<Rightarrow>
                      (case mark_sent db_mark now ids q of
                         (Inl e, q) \<Rightarrow> (Inl (DQueue e), ch, q)
                       | (Inr _, q) \<Rightarrow> (Inr (), ch, q)))"

text \<open>What wakes the task: a tick (with the outcomes of its two statements, the time and the batch
  id), or the shutdown signal.\<close>

datatype wake = Tick "rstr option" "rstr option" int rstr | Shutdown

fun uploader_loop ::
  "(u8 list \<Rightarrow> rstr + event) \<Rightarrow> wake list \<Rightarrow> agent_message chan \<Rightarrow> event_queue \<Rightarrow>
   agent_message chan \<times> event_queue" where
  "uploader_loop decode [] ch q = (ch, q)"
| "uploader_loop decode (Shutdown # ws) ch q = (ch, q)"
| "uploader_loop decode (Tick db_take db_mark now uuid # ws) ch q =
     (case drain_once decode db_take db_mark now uuid ch q of
        (Inl e, ch, q) \<Rightarrow> (ch, q)
      | (Inr _, ch, q) \<Rightarrow> uploader_loop decode ws ch q)"

section \<open>What it sends\<close>

text \<open>The events of the batches in a channel.\<close>

fun sent_events :: "agent_message list \<Rightarrow> event list" where
  "sent_events [] = []"
| "sent_events (Some (AEvents b) # ms) = eb_events b @ sent_events ms"
| "sent_events (_ # ms) = sent_events ms"

lemma sent_events_append [simp]: "sent_events (ms @ ns) = sent_events ms @ sent_events ns"
  by (induction ms rule: sent_events.induct) auto

lemma batch_limit [simp]: "unat BATCH_LIMIT = 50"
  by (simp add: BATCH_LIMIT_def)

lemma drain_once_ok:
  assumes q: "queue_inv decode q" and ch: "\<not> ch_closed ch"
    and d: "drain_once decode None None now uuid ch q = (r, ch', q')"
  shows "r = Inr () \<and> queue_inv decode q' \<and> pending decode q' = drop 50 (pending decode q) \<and>
    sent_events (ch_msgs ch') = sent_events (ch_msgs ch) @ map snd (take 50 (pending decode q)) \<and>
    \<not> ch_closed ch'"
proof -
  obtain ps where ps: "take_batch decode None BATCH_LIMIT q = Inr ps"
    "map pending_pair ps = take 50 (pending decode q)"
    using take_batch_eq [OF q, of BATCH_LIMIT] by auto
  have ids: "map pe_id ps = map fst (take 50 (pending decode q))"
    and evs: "map pe_event ps = map snd (take 50 (pending decode q))"
    unfolding ps(2) [symmetric] by (simp_all add: pending_pair_def o_def)
  show ?thesis
  proof (cases "ps = []")
    case True
    with ps(2) have "pending decode q = []" by simp
    with d ps(1) True q ch show ?thesis by (auto simp: drain_once_def)
  next
    case False
    obtain s q1 where m: "mark_sent None now (map pe_id ps) q = (s, q1)" by fastforce
    then have s: "s = Inr ()" by (auto simp: mark_sent_def split: if_splits)
    have inv: "queue_inv decode q1 \<and> pending decode q1 = drop 50 (pending decode q)"
      using sq.mark_batch [OF q, of None now 50 q1] m s unfolding ids by simp
    show ?thesis using d ps(1) False ch m s inv evs
      by (auto simp: drain_once_def Let_def ch_send_def batch_message_def)
  qed
qed

lemma drain_once_batches:
  "drain_once decode db_take db_mark now uuid ch q = (r, ch', q') \<Longrightarrow>
    \<exists>bs. ch_msgs ch' = ch_msgs ch @ map (\<lambda>b. Some (AEvents b)) bs"
proof -
  assume d: "drain_once decode db_take db_mark now uuid ch q = (r, ch', q')"
  have "ch' = ch \<or> (\<exists>evs. ch_send (batch_message uuid evs) ch = Some ch')"
    using d by (auto simp: drain_once_def Let_def split: sum.splits option.splits if_splits prod.splits)
  then show ?thesis
  proof
    assume "\<exists>evs. ch_send (batch_message uuid evs) ch = Some ch'"
    then obtain evs where "ch_msgs ch' = ch_msgs ch @ [batch_message uuid evs]" by (auto simp: ch_send_Some)
    then show ?thesis
      by (intro exI [of _ "[\<lparr>eb_batch_id = uuid, eb_events = evs\<rparr>]"]) (simp add: batch_message_def)
  qed (auto intro: exI [of _ "[]"])
qed

lemma uploader_loop_batches:
  "uploader_loop decode ws ch q = (ch', q') \<Longrightarrow> \<exists>bs. ch_msgs ch' = ch_msgs ch @ map (\<lambda>b. Some (AEvents b)) bs"
proof (induction ws arbitrary: ch q)
  case (Cons w ws)
  show ?case
  proof (cases w)
    case (Tick db_take db_mark now uuid)
    obtain r ch1 q1 where d: "drain_once decode db_take db_mark now uuid ch q = (r, ch1, q1)" by (metis prod_cases3)
    obtain bs where bs: "ch_msgs ch1 = ch_msgs ch @ map (\<lambda>b. Some (AEvents b)) bs"
      using drain_once_batches [OF d] by blast
    show ?thesis
    proof (cases r)
      case (Inl e)
      with Cons.prems Tick d bs show ?thesis by auto
    next
      case (Inr u)
      with Cons.prems Tick d have "uploader_loop decode ws ch1 q1 = (ch', q')" by simp
      with Cons.IH obtain cs where "ch_msgs ch' = ch_msgs ch1 @ map (\<lambda>b. Some (AEvents b)) cs" by blast
      with bs show ?thesis by (intro exI [of _ "bs @ cs"]) simp
    qed
  qed (use Cons.prems in \<open>auto intro: exI [of _ "[]"]\<close>)
qed (auto intro: exI [of _ "[]"])

lemma uploader_loop_ok:
  assumes "queue_inv decode q" "\<not> ch_closed ch" "list_all (\<lambda>w. \<exists>now uuid. w = Tick None None now uuid) ws"
    and "uploader_loop decode ws ch q = (ch', q')"
  shows "sent_events (ch_msgs ch') = sent_events (ch_msgs ch) @ map snd (take (50 * length ws) (pending decode q))
    \<and> pending decode q' = drop (50 * length ws) (pending decode q)"
  using assms
proof (induction ws arbitrary: ch q)
  case (Cons w ws)
  obtain now uuid where w: "w = Tick None None now uuid" using Cons.prems(3) by auto
  obtain r ch1 q1 where d: "drain_once decode None None now uuid ch q = (r, ch1, q1)" by (metis prod_cases3)
  note ok = drain_once_ok [OF Cons.prems(1,2) d]
  have "uploader_loop decode ws ch1 q1 = (ch', q')" using Cons.prems(4) w d ok by simp
  with Cons.IH [of q1 ch1] Cons.prems(3) ok
  have IH: "sent_events (ch_msgs ch') = sent_events (ch_msgs ch1) @ map snd (take (50 * length ws) (pending decode q1))"
    "pending decode q' = drop (50 * length ws) (pending decode q1)" by simp_all
  have "take 50 xs @ take (50 * length ws) (drop 50 xs) = take (50 * length (w # ws)) xs" for xs :: "(int \<times> event) list"
    by (simp add: take_add)
  then have "map snd (take 50 xs) @ map snd (take (50 * length ws) (drop 50 xs)) =
      map snd (take (50 * length (w # ws)) xs)" for xs :: "(int \<times> event) list"
    by (metis map_append)
  with IH ok show ?case by (simp add: add.commute)
qed auto

text \<open>With the database and the channel up, \<open>n\<close> ticks of the task send exactly the oldest
  \<open>50 n\<close> pending events, each once and in order, and remove exactly those from the queue; so enough
  ticks empty it.\<close>

theorem uploader_drains:
  assumes "queue_inv decode q" "\<not> ch_closed ch" "list_all (\<lambda>w. \<exists>now uuid. w = Tick None None now uuid) ws"
    and "uploader_loop decode ws ch q = (ch', q')"
  shows "sent_events (ch_msgs ch') = sent_events (ch_msgs ch) @ map snd (take (50 * length ws) (pending decode q))
    \<and> pending decode q' = drop (50 * length ws) (pending decode q)"
  using assms by (rule uploader_loop_ok)

text \<open>A codec for the events with the given ids, for the witnesses.\<close>

definition id_encode :: "event \<Rightarrow> u8 list" where
  "id_encode e = as_bytes (ev_event_id e)"

definition id_decode :: "u8 list \<Rightarrow> rstr + event" where
  "id_decode b = Inr (sample_event (map unat b))"

definition two_event_queue :: event_queue where
  "two_event_queue =
     (let q = \<lparr>q_rows = [], q_seq = 0\<rparr>;
          q = snd (enqueue id_encode None 7 (sample_event (lit ''a'')) q);
          q = snd (enqueue id_encode None 8 (sample_event (lit ''b'')) q)
      in q)"

lemma two_event_queue_inv: "queue_inv id_decode two_event_queue"
  by (simp add: two_event_queue_def enqueue_def queue_inv_def unsent_def id_decode_def max_i64_def Let_def)

theorem uploader_drains_witness:
  "pending id_decode (snd (uploader_loop id_decode [Tick None None 9 (lit ''x'')] \<lparr>ch_msgs = [], ch_closed = False\<rparr>
     two_event_queue)) = drop (50 * length [Tick None None 9 (lit ''x'')]) (pending id_decode two_event_queue)"
proof -
  obtain ch' q' where run: "uploader_loop id_decode [Tick None None 9 (lit ''x'')]
      \<lparr>ch_msgs = [], ch_closed = False\<rparr> two_event_queue = (ch', q')" by fastforce
  from uploader_drains [OF two_event_queue_inv _ _ run] show ?thesis unfolding run by simp
qed

text \<open>One failed read of the queue ends the task, whatever ticks would follow.\<close>

lemma db_error_stops_uploader: "uploader_loop decode (Tick (Some e) db_mark now uuid # ws) ch q = (ch, q)"
  by (simp add: drain_once_def take_batch_def)

section \<open>Interleaved with the other tasks\<close>

text \<open>Where the task is: between ticks, with a batch taken, with a batch sent, or ended.\<close>

datatype up_pc = UIdle | UTaken "pending_event list" | USent "int list" | UExited

record up_state =
  u_pc :: up_pc
  u_chan :: "agent_message chan"
  u_queue :: event_queue

text \<open>
  The steps: another task enqueues an event the codec represents (the event is the label), the three
  operations of \<open>drain_once\<close> and their failures, the session closing the channel, and
  the session aborting the task at any await point.
\<close>

inductive up_step ::
  "(event \<Rightarrow> u8 list) \<Rightarrow> (u8 list \<Rightarrow> rstr + event) \<Rightarrow> event list \<Rightarrow> up_state \<Rightarrow> up_state \<Rightarrow> bool"
  for encode decode where
  up_enqueue: "decode (encode e) = Inr e \<Longrightarrow> enqueue encode db now e q = (Inr i, q') \<Longrightarrow>
     up_step encode decode [e] \<lparr>u_pc = pc, u_chan = ch, u_queue = q\<rparr> \<lparr>u_pc = pc, u_chan = ch, u_queue = q'\<rparr>"
| up_take: "take_batch decode db BATCH_LIMIT q = Inr b \<Longrightarrow> b \<noteq> [] \<Longrightarrow>
     up_step encode decode [] \<lparr>u_pc = UIdle, u_chan = ch, u_queue = q\<rparr> \<lparr>u_pc = UTaken b, u_chan = ch, u_queue = q\<rparr>"
| up_take_err: "take_batch decode db BATCH_LIMIT q = Inl e \<Longrightarrow>
     up_step encode decode [] \<lparr>u_pc = UIdle, u_chan = ch, u_queue = q\<rparr> \<lparr>u_pc = UExited, u_chan = ch, u_queue = q\<rparr>"
| up_send: "ch_send (batch_message uuid (map pe_event b)) ch = Some ch' \<Longrightarrow>
     up_step encode decode [] \<lparr>u_pc = UTaken b, u_chan = ch, u_queue = q\<rparr>
       \<lparr>u_pc = USent (map pe_id b), u_chan = ch', u_queue = q\<rparr>"
| up_send_err: "ch_send (batch_message uuid (map pe_event b)) ch = None \<Longrightarrow>
     up_step encode decode [] \<lparr>u_pc = UTaken b, u_chan = ch, u_queue = q\<rparr> \<lparr>u_pc = UExited, u_chan = ch, u_queue = q\<rparr>"
| up_mark: "mark_sent db now ids q = (Inr (), q') \<Longrightarrow>
     up_step encode decode [] \<lparr>u_pc = USent ids, u_chan = ch, u_queue = q\<rparr> \<lparr>u_pc = UIdle, u_chan = ch, u_queue = q'\<rparr>"
| up_mark_err: "mark_sent db now ids q = (Inl e, q') \<Longrightarrow>
     up_step encode decode [] \<lparr>u_pc = USent ids, u_chan = ch, u_queue = q\<rparr> \<lparr>u_pc = UExited, u_chan = ch, u_queue = q'\<rparr>"
| up_close: "up_step encode decode [] \<lparr>u_pc = pc, u_chan = ch, u_queue = q\<rparr>
     \<lparr>u_pc = pc, u_chan = ch\<lparr>ch_closed := True\<rparr>, u_queue = q\<rparr>"
| up_abort: "up_step encode decode [] \<lparr>u_pc = pc, u_chan = ch, u_queue = q\<rparr>
     \<lparr>u_pc = UExited, u_chan = ch, u_queue = q\<rparr>"

inductive up_run ::
  "(event \<Rightarrow> u8 list) \<Rightarrow> (u8 list \<Rightarrow> rstr + event) \<Rightarrow> event list \<Rightarrow> up_state \<Rightarrow> up_state \<Rightarrow> bool"
  for encode decode where
  up_refl: "up_run encode decode [] s s"
| up_trans: "up_run encode decode es s t \<Longrightarrow> up_step encode decode fs t u \<Longrightarrow> up_run encode decode (es @ fs) s u"

text \<open>The composed \<open>drain_once\<close> is a run of these steps.\<close>

lemma drain_once_steps:
  assumes "drain_once decode db_take db_mark now uuid ch q = (r, ch', q')"
  shows "up_run encode decode [] \<lparr>u_pc = UIdle, u_chan = ch, u_queue = q\<rparr>
    \<lparr>u_pc = (case r of Inl _ \<Rightarrow> UExited | Inr _ \<Rightarrow> UIdle), u_chan = ch', u_queue = q'\<rparr>"
proof (cases "take_batch decode db_take BATCH_LIMIT q")
  case (Inl e)
  with assms have "r = Inl (DQueue e) \<and> ch' = ch \<and> q' = q" by (simp add: drain_once_def)
  with up_trans [OF up_refl up_take_err [OF Inl]] show ?thesis by simp
next
  case (Inr b)
  show ?thesis
  proof (cases "b = []")
    case True
    with assms Inr have "r = Inr () \<and> ch' = ch \<and> q' = q" by (simp add: drain_once_def)
    with up_refl show ?thesis by simp
  next
    case False
    note taken = up_trans [OF up_refl up_take [OF Inr False], of encode ch]
    show ?thesis
    proof (cases "ch_send (batch_message uuid (map pe_event b)) ch")
      case None
      with assms Inr False have "r = Inl DChannelClosed \<and> ch' = ch \<and> q' = q"
        by (simp add: drain_once_def Let_def)
      with up_trans [OF taken up_send_err [OF None]] show ?thesis by simp
    next
      case (Some ch1)
      note sent = up_trans [OF taken up_send [OF Some]]
      obtain m q1 where m: "mark_sent db_mark now (map pe_id b) q = (m, q1)" by fastforce
      show ?thesis
      proof (cases m)
        case (Inl e)
        with assms Inr False Some m have "r = Inl (DQueue e) \<and> ch' = ch1 \<and> q' = q1"
          by (simp add: drain_once_def Let_def)
        with up_trans [OF sent up_mark_err [OF m [unfolded Inl]]] show ?thesis by simp
      next
        case (Inr u)
        with assms False Some m \<open>take_batch decode db_take BATCH_LIMIT q = Inr b\<close>
        have "r = Inr () \<and> ch' = ch1 \<and> q' = q1" by (simp add: drain_once_def Let_def)
        with up_trans [OF sent up_mark] m Inr show ?thesis by simp
      qed
    qed
  qed
qed

text \<open>What is sent, followed by what is pending without the \<open>k\<close> events sent and not yet marked, is
  what was pending at the start followed by what was enqueued since.\<close>

definition up_inv :: "(u8 list \<Rightarrow> rstr + event) \<Rightarrow> event list \<Rightarrow> up_state \<Rightarrow> bool" where
  "up_inv decode evs s \<longleftrightarrow> queue_inv decode (u_queue s) \<and>
     (let p = pending decode (u_queue s)
      in \<exists>k \<le> 50. k \<le> length p \<and> evs = sent_events (ch_msgs (u_chan s)) @ map snd (drop k p) \<and>
         (case u_pc s of
            UIdle \<Rightarrow> k = 0
          | UTaken b \<Rightarrow> k = 0 \<and> length b \<le> 50 \<and> map pending_pair b = take (length b) p
          | USent ids \<Rightarrow> ids = map fst (take k p)
          | UExited \<Rightarrow> True))"

lemma up_inv_step: "up_step encode decode fs s t \<Longrightarrow> up_inv decode evs s \<Longrightarrow> up_inv decode (evs @ fs) t"
proof (induction rule: up_step.induct)
  case (up_enqueue e db now q i q' pc ch)
  then have q': "queue_inv decode q'" "pending decode q' = pending decode q @ [(i, e)]"
    using enqueue_inv by (auto simp: up_inv_def)
  from up_enqueue.prems obtain k where "k \<le> 50" "k \<le> length (pending decode q)"
    "evs = sent_events (ch_msgs ch) @ map snd (drop k (pending decode q))"
    "case pc of UIdle \<Rightarrow> k = 0
       | UTaken b \<Rightarrow> k = 0 \<and> length b \<le> 50 \<and> map pending_pair b = take (length b) (pending decode q)
       | USent ids \<Rightarrow> ids = map fst (take k (pending decode q)) | UExited \<Rightarrow> True"
    by (auto simp: up_inv_def Let_def)
  moreover have "map pending_pair b = take (length b) (pending decode q) \<Longrightarrow> length b \<le> length (pending decode q)" for b
    by (metis length_map length_take min.cobounded1)
  ultimately show ?case unfolding up_inv_def Let_def using q'
    by (auto intro!: exI [of _ k] split: up_pc.splits)
next
  case (up_take db q b ch)
  then have q: "queue_inv decode q" "db = None"
    by (auto simp: up_inv_def take_batch_def split: option.splits)
  obtain ps where "take_batch decode None BATCH_LIMIT q = Inr ps"
    "map pending_pair ps = take (unat BATCH_LIMIT) (pending decode q)"
    using take_batch_eq [OF q(1)] by blast
  with up_take.hyps(1) q(2) have b: "map pending_pair b = take 50 (pending decode q)" by simp
  then have "length b = min (length (pending decode q)) 50" by (metis length_map length_take min.commute)
  then have "length b \<le> 50" "map pending_pair b = take (length b) (pending decode q)"
    using b by (auto simp: min_def)
  with up_take.prems show ?case by (auto simp: up_inv_def Let_def)
next
  case (up_send uuid b ch ch' q)
  then have b: "map pending_pair b = take (length b) (pending decode q)" "length b \<le> 50"
    and evs: "evs = sent_events (ch_msgs ch) @ map snd (pending decode q)" and q: "queue_inv decode q"
    by (auto simp: up_inv_def Let_def)
  have len: "length b \<le> length (pending decode q)" using b(1) by (metis length_map length_take min.cobounded1)
  have "map pe_id b = map fst (map pending_pair b)" "map pe_event b = map snd (map pending_pair b)"
    by (simp_all add: pending_pair_def o_def)
  then have ids: "map pe_id b = map fst (take (length b) (pending decode q))"
    and ev: "map pe_event b = map snd (take (length b) (pending decode q))" unfolding b(1) by simp_all
  have "sent_events (ch_msgs ch') = sent_events (ch_msgs ch) @ map pe_event b"
    using up_send.hyps by (auto simp: ch_send_Some batch_message_def)
  then have "evs = sent_events (ch_msgs ch') @ map snd (drop (length b) (pending decode q))"
    using evs ev by (simp flip: map_append)
  then show ?case using q b(2) len ids by (auto simp: up_inv_def Let_def intro!: exI [of _ "length b"])
next
  case (up_mark db now ids q q' ch)
  then obtain k where k: "k \<le> 50" "k \<le> length (pending decode q)" "ids = map fst (take k (pending decode q))"
    "evs = sent_events (ch_msgs ch) @ map snd (drop k (pending decode q))" and q: "queue_inv decode q"
    by (auto simp: up_inv_def Let_def)
  have "queue_inv decode q' \<and> pending decode q' = drop k (pending decode q)"
    using sq.mark_batch [OF q, of db now k q'] up_mark.hyps k(3) by simp
  then show ?case using k(4) by (auto simp: up_inv_def Let_def)
next
  case (up_mark_err db now ids q e q' ch)
  then have "q' = q" using sq.mark_err by blast
  with up_mark_err.prems show ?case by (auto simp: up_inv_def Let_def)
next
  case (up_abort pc ch q)
  then show ?case unfolding up_inv_def Let_def by auto
qed (auto simp: up_inv_def Let_def)

lemma up_inv_run: "up_run encode decode es s t \<Longrightarrow> up_inv decode evs s \<Longrightarrow> up_inv decode (evs @ es) t"
proof (induction rule: up_run.induct)
  case (up_trans es s t fs u)
  then show ?case using up_inv_step [of encode decode fs t u "evs @ es"] by simp
qed simp

text \<open>However the task, the enqueuing tasks and the end of the session interleave, every event
  pending at the start or enqueued since is sent or still pending, in order; between ticks exactly one
  of the two, and after a crash of the task at most one batch of 50 is both.\<close>

theorem uploader_loses_nothing:
  assumes "queue_inv decode q" "sent_events (ch_msgs ch) = []"
    and "up_run encode decode es \<lparr>u_pc = UIdle, u_chan = ch, u_queue = q\<rparr> t"
  shows "queue_inv decode (u_queue t) \<and>
    (\<exists>k \<le> 50. map snd (pending decode q) @ es =
       sent_events (ch_msgs (u_chan t)) @ map snd (drop k (pending decode (u_queue t))) \<and>
       (u_pc t = UIdle \<longrightarrow> k = 0))"
proof -
  have "up_inv decode (map snd (pending decode q)) \<lparr>u_pc = UIdle, u_chan = ch, u_queue = q\<rparr>"
    using assms(1,2) by (simp add: up_inv_def Let_def)
  note inv = up_inv_run [OF assms(3) this]
  then obtain k where k: "k \<le> 50"
    "map snd (pending decode q) @ es =
       sent_events (ch_msgs (u_chan t)) @ map snd (drop k (pending decode (u_queue t)))"
    and pc: "case u_pc t of UIdle \<Rightarrow> k = 0
       | UTaken b \<Rightarrow> k = 0 \<and> length b \<le> 50 \<and> map pending_pair b = take (length b) (pending decode (u_queue t))
       | USent ids \<Rightarrow> ids = map fst (take k (pending decode (u_queue t))) | UExited \<Rightarrow> True"
    unfolding up_inv_def Let_def by blast
  from pc have "u_pc t = UIdle \<longrightarrow> k = 0" by auto
  with k inv show ?thesis unfolding up_inv_def by blast
qed

theorem uploader_loses_nothing_witness:
  "\<exists>k \<le> 50. map snd (pending id_decode two_event_queue) @ [] =
     sent_events (ch_msgs \<lparr>ch_msgs = [], ch_closed = True\<rparr>) @ map snd (drop k (pending id_decode two_event_queue))"
proof -
  have "up_run id_encode id_decode ([] @ []) \<lparr>u_pc = UIdle, u_chan = \<lparr>ch_msgs = [], ch_closed = False\<rparr>, u_queue = two_event_queue\<rparr>
     \<lparr>u_pc = UIdle, u_chan = \<lparr>ch_msgs = [], ch_closed = False\<rparr>\<lparr>ch_closed := True\<rparr>, u_queue = two_event_queue\<rparr>"
    by (rule up_trans [OF up_refl up_close])
  from uploader_loses_nothing [OF two_event_queue_inv _ this] show ?thesis by auto
qed

end
