(* ===== verification/Agent_Files.thy ===== *)
theory Agent_Files
  imports Prelude
begin

text \<open>
  The files the agent keeps, \<open>scrooge-agent-bin/src/state.rs\<close>: paths and their joining, the
  identity saved after enrollment and loaded at start. A file system is the map from paths to
  contents. Each write has an outcome: it succeeds, or fails and leaves what it left.
\<close>

section \<open>Paths and files\<close>

text \<open>\<open>Path::join\<close> on Unix: an absolute second path replaces the first.\<close>

definition path_join :: "rstr \<Rightarrow> rstr \<Rightarrow> rstr" where
  "path_join d f =
     (if f \<noteq> [] \<and> hd f = 47 then f
      else if d = [] \<or> last d = 47 then d @ f else d @ [47] @ f)"

type_synonym 'c files = "rstr \<Rightarrow> 'c option"

text \<open>\<open>fs::write\<close>: \<open>Some (e, left)\<close> is an error \<open>e\<close> that leaves \<open>left\<close> in the file.\<close>

definition fs_write :: "(rstr \<times> 'c option) option \<Rightarrow> rstr \<Rightarrow> 'c \<Rightarrow> 'c files \<Rightarrow> (rstr + unit) \<times> 'c files" where
  "fs_write outcome path c fs =
     (case outcome of None \<Rightarrow> (Inr (), fs(path := Some c)) | Some (e, left) \<Rightarrow> (Inl e, fs(path := left)))"

definition fs_read :: "rstr option \<Rightarrow> rstr \<Rightarrow> 'c files \<Rightarrow> rstr + 'c" where
  "fs_read err path fs =
     (case err of Some e \<Rightarrow> Inl e | None \<Rightarrow> ok_or (lit ''No such file or directory'') (fs path))"

section \<open>The identity of the agent\<close>

definition CERT_FILENAME :: rstr where "CERT_FILENAME = lit ''agent.cert''"
definition KEY_FILENAME :: rstr where "KEY_FILENAME = lit ''agent.key''"
definition ID_FILENAME :: rstr where "ID_FILENAME = lit ''agent.id''"

text \<open>A UUID is its 128 bits; its text form and its parser are parameters (crate \<open>uuid\<close>).\<close>

type_synonym uuid = "128 word"

record agent_state =
  as_agent_id :: uuid
  as_cert_pem :: rstr
  as_key_pem :: rstr

datatype state_error = SRead rstr | SWrite rstr | SParseId | SCreate rstr | SChmod rstr

definition ws_trim :: "rstr \<Rightarrow> rstr" where
  "ws_trim s = rev (dropWhile is_whitespace (rev (dropWhile is_whitespace s)))"

definition state_load ::
  "(rstr \<Rightarrow> uuid option) \<Rightarrow> (rstr \<Rightarrow> rstr option) \<Rightarrow> rstr \<Rightarrow> rstr files \<Rightarrow> state_error + agent_state option" where
  "state_load parse_uuid rd data_dir fs =
     (let cert_path = path_join data_dir CERT_FILENAME;
          key_path = path_join data_dir KEY_FILENAME;
          id_path = path_join data_dir ID_FILENAME
      in if fs cert_path = None \<or> fs key_path = None \<or> fs id_path = None then Inr None
         else res_bind (map_err SRead (fs_read (rd cert_path) cert_path fs)) (\<lambda>cert_pem.
              res_bind (map_err SRead (fs_read (rd key_path) key_path fs)) (\<lambda>key_pem.
              res_bind (map_err SRead (fs_read (rd id_path) id_path fs)) (\<lambda>id_raw.
              res_bind (ok_or SParseId (parse_uuid (ws_trim id_raw))) (\<lambda>agent_id.
              Inr (Some \<lparr>as_agent_id = agent_id, as_cert_pem = cert_pem, as_key_pem = key_pem\<rparr>))))))"

text \<open>The outcomes of the steps of \<open>save\<close>: creating the directory, the three writes, the chmod.\<close>

record save_outcome =
  so_mkdir :: "rstr option"
  so_cert :: "(rstr \<times> rstr option) option"
  so_key :: "(rstr \<times> rstr option) option"
  so_id :: "(rstr \<times> rstr option) option"
  so_chmod :: "rstr option"

definition state_save ::
  "(uuid \<Rightarrow> rstr) \<Rightarrow> save_outcome \<Rightarrow> agent_state \<Rightarrow> rstr \<Rightarrow> rstr files \<Rightarrow> (state_error + unit) \<times> rstr files" where
  "state_save show_uuid o' s data_dir fs =
     (case so_mkdir o' of Some e \<Rightarrow> (Inl (SCreate e), fs) | None \<Rightarrow>
      (case fs_write (so_cert o') (path_join data_dir CERT_FILENAME) (as_cert_pem s) fs of
         (Inl e, fs) \<Rightarrow> (Inl (SWrite e), fs)
       | (Inr _, fs) \<Rightarrow>
      (case fs_write (so_key o') (path_join data_dir KEY_FILENAME) (as_key_pem s) fs of
         (Inl e, fs) \<Rightarrow> (Inl (SWrite e), fs)
       | (Inr _, fs) \<Rightarrow>
      (case fs_write (so_id o') (path_join data_dir ID_FILENAME) (show_uuid (as_agent_id s)) fs of
         (Inl e, fs) \<Rightarrow> (Inl (SWrite e), fs)
       | (Inr _, fs) \<Rightarrow>
      (case so_chmod o' of Some e \<Rightarrow> (Inl (SChmod e), fs) | None \<Rightarrow> (Inr (), fs))))))"

lemma path_join_inj: "hd f \<noteq> 47 \<Longrightarrow> hd g \<noteq> 47 \<Longrightarrow> path_join d f = path_join d g \<longleftrightarrow> f = g"
  by (auto simp: path_join_def)

lemma state_paths_distinct:
  "distinct [path_join d CERT_FILENAME, path_join d KEY_FILENAME, path_join d ID_FILENAME]"
proof -
  have "hd CERT_FILENAME \<noteq> 47" "hd KEY_FILENAME \<noteq> 47" "hd ID_FILENAME \<noteq> 47"
    by (simp_all add: CERT_FILENAME_def KEY_FILENAME_def ID_FILENAME_def lit_def)
  then show ?thesis
    by (simp add: path_join_inj) (simp add: CERT_FILENAME_def KEY_FILENAME_def ID_FILENAME_def)
qed

text \<open>A save that succeeds leaves the three files as they are loaded, and no other file changed.\<close>

lemma state_save_ok:
  assumes "state_save show_uuid out s d fs = (Inr (), fs')"
  shows "fs' = fs(path_join d CERT_FILENAME \<mapsto> as_cert_pem s, path_join d KEY_FILENAME \<mapsto> as_key_pem s,
    path_join d ID_FILENAME \<mapsto> show_uuid (as_agent_id s))"
  using assms by (auto simp: state_save_def fs_write_def split: option.splits prod.splits)

lemma state_load_saved:
  assumes "state_save show_uuid out s d fs = (Inr (), fs')"
    and "parse_uuid (ws_trim (show_uuid (as_agent_id s))) = Some (as_agent_id s)"
  shows "state_load parse_uuid (\<lambda>_. None) d fs' = Inr (Some s)"
  using state_paths_distinct [of d] assms(2) unfolding state_save_ok [OF assms(1)]
  by (simp add: state_load_def fs_read_def Let_def)

text \<open>Whatever step of \<open>save\<close> fails on a directory without an identity, loading it afterwards finds
  no identity, exactly the saved one, or an error when the id file was cut short; a successful save
  loads back as it was.\<close>

theorem save_then_load:
  assumes fresh: "fs (path_join d ID_FILENAME) = None"
    and uuid: "parse_uuid (ws_trim (show_uuid (as_agent_id s))) = Some (as_agent_id s)"
    and torn: "\<And>e c. so_id o' = Some (e, Some c) \<Longrightarrow> parse_uuid (ws_trim c) = None"
    and save: "state_save show_uuid o' s d fs = (r, fs')"
  shows "state_load parse_uuid (\<lambda>_. None) d fs' \<in> {Inr None, Inr (Some s), Inl SParseId}
    \<and> (r = Inr () \<longrightarrow> state_load parse_uuid (\<lambda>_. None) d fs' = Inr (Some s))"
proof -
  note dist = state_paths_distinct [of d]
  show ?thesis
    using save fresh uuid torn dist
    by (auto simp: state_save_def state_load_def fs_write_def fs_read_def Let_def split: option.splits prod.splits)
qed

theorem save_then_load_witness:
  "state_load (\<lambda>s. if s = lit ''0'' then Some 0 else None) (\<lambda>_. None) (lit ''d'')
     (snd (state_save (\<lambda>_. lit ''0'') \<lparr>so_mkdir = None, so_cert = None, so_key = Some (lit ''full'', None),
        so_id = None, so_chmod = None\<rparr> \<lparr>as_agent_id = 0, as_cert_pem = lit ''c'', as_key_pem = lit ''k''\<rparr>
        (lit ''d'') (\<lambda>_. None)))
   \<in> {Inr None, Inr (Some \<lparr>as_agent_id = 0, as_cert_pem = lit ''c'', as_key_pem = lit ''k''\<rparr>), Inl SParseId}"
proof -
  let ?o = "\<lparr>so_mkdir = None, so_cert = None, so_key = Some (lit ''full'', None), so_id = None, so_chmod = None\<rparr>"
  let ?s = "\<lparr>as_agent_id = 0, as_cert_pem = lit ''c'', as_key_pem = lit ''k''\<rparr>"
  let ?p = "\<lambda>s. if s = lit ''0'' then Some 0 else None :: uuid option"
  obtain r fs' where save: "state_save (\<lambda>_. lit ''0'') ?o ?s (lit ''d'') (\<lambda>_. None) = (r, fs')" by fastforce
  have "ws_trim (lit ''0'') = lit ''0''" by code_simp
  then have "state_load ?p (\<lambda>_. None) (lit ''d'') fs' \<in> {Inr None, Inr (Some ?s), Inl SParseId}
    \<and> (r = Inr () \<longrightarrow> state_load ?p (\<lambda>_. None) (lit ''d'') fs' = Inr (Some ?s))"
    by (intro save_then_load [OF _ _ _ save]) simp_all
  then show ?thesis unfolding save by simp
qed

end
