(* ===== verification/Monitors.thy ===== *)
theory Monitors
  imports Default_Registry Uploader Agent_Files
begin

text \<open>
  The monitors of the Linux agent, \<open>scrooge-agent-linux/src/{lib,clipboard,filemon}.rs\<close>, and the
  collector of \<open>scrooge-agent-bin/src/main.rs\<close> that moves their events into the queue. The
  clipboard, the watched file system, SHA-256, the clock and fresh UUIDs are inputs. A monitor is a
  tokio task: it runs on, ends by itself, or panics, which ends it for good.
\<close>

section \<open>Common\<close>

datatype task_end = Running | Ended | Panicked

definition ET_FILE_CREATE :: int where "ET_FILE_CREATE = 10"
definition ET_FILE_WRITE :: int where "ET_FILE_WRITE = 12"
definition ET_FILE_DELETE :: int where "ET_FILE_DELETE = 13"
definition ET_CLIPBOARD_COPY :: int where "ET_CLIPBOARD_COPY = 30"
definition ET_AGENT_INTERNAL :: int where "ET_AGENT_INTERNAL = 99"
definition SEV_LOW :: int where "SEV_LOW = 1"
definition SEV_MEDIUM :: int where "SEV_MEDIUM = 2"

definition match_message :: "cmatch \<Rightarrow> pmatch" where
  "match_message m = \<lparr>pm_classifier_id = c_classifier m, pm_match_count = 1, pm_sample_excerpt = c_redacted m\<rparr>"

text \<open>Sends the events one by one; \<open>False\<close> when the channel is closed.\<close>

fun send_all :: "event list \<Rightarrow> event chan \<Rightarrow> bool \<times> event chan" where
  "send_all [] ch = (True, ch)"
| "send_all (e # es) ch = (case ch_send e ch of None \<Rightarrow> (False, ch) | Some ch \<Rightarrow> send_all es ch)"

section \<open>Clipboard\<close>

definition clip_event :: "rstr \<Rightarrow> int \<Rightarrow> rstr \<Rightarrow> rstr \<Rightarrow> u8 list \<Rightarrow> cmatch \<Rightarrow> event" where
  "clip_event uuid now user text text_hash m =
     \<lparr>ev_event_id = uuid, ev_timestamp_ns = now, ev_agent_id = [], ev_type = ET_CLIPBOARD_COPY,
      ev_severity = SEV_MEDIUM, ev_direction = 0, ev_user_name = user, ev_process_id = 0, ev_process_name = [],
      ev_details = Some (DClipboard \<lparr>ce_content_size = of_nat (blen text), ce_content_preview = c_redacted m,
        ce_content_hash = text_hash, ce_mime_type = lit ''text/plain'', ce_source_process_name = [],
        ce_was_cleared = False\<rparr>),
      ev_matched_policy_id = [], ev_matched_rule_id = [], ev_action_taken = 0,
      ev_matches = [match_message m], ev_forward_to_siem = False\<rparr>"

text \<open>A tick: what \<open>get_text\<close> gives (\<open>None\<close>: not available, or an error), and the UUID and time of
  the \<open>n\<close>-th event built in it.\<close>

record clip_tick =
  ct_read :: "rstr option"
  ct_uuid :: "nat \<Rightarrow> rstr"
  ct_now :: "nat \<Rightarrow> int"

definition clip_events :: "rstr \<Rightarrow> clip_tick \<Rightarrow> rstr \<Rightarrow> u8 list \<Rightarrow> cmatch list \<Rightarrow> event list" where
  "clip_events user t text h ms =
     map (\<lambda>i. clip_event (ct_uuid t i) (ct_now t i) user text h (ms ! i)) [0..<length ms]"

fun clipboard_loop ::
  "registry \<Rightarrow> (u8 list \<Rightarrow> u8 list) \<Rightarrow> rstr \<Rightarrow> clip_tick list \<Rightarrow> u8 list option \<Rightarrow> event chan \<Rightarrow>
   task_end \<times> event chan" where
  "clipboard_loop r sha user [] prev ch = (Running, ch)"
| "clipboard_loop r sha user (t # ts) prev ch =
     (case ct_read t of
        None \<Rightarrow> clipboard_loop r sha user ts prev ch
      | Some text \<Rightarrow>
          if text = [] then clipboard_loop r sha user ts prev ch
          else let h = sha (as_bytes text)
               in if prev = Some h then clipboard_loop r sha user ts prev ch
                  else case scan_all r text of
                    None \<Rightarrow> (Panicked, ch)
                  | Some ms \<Rightarrow>
                      if ms = [] then clipboard_loop r sha user ts (Some h) ch
                      else (case send_all (clip_events user t text h ms) ch of
                              (False, ch) \<Rightarrow> (Ended, ch)
                            | (True, ch) \<Rightarrow> clipboard_loop r sha user ts (Some h) ch))"

text \<open>The task: it ends at once when the clipboard cannot be opened (\<open>Some e\<close>).\<close>

definition clipboard_run ::
  "registry \<Rightarrow> (u8 list \<Rightarrow> u8 list) \<Rightarrow> rstr \<Rightarrow> rstr option \<Rightarrow> clip_tick list \<Rightarrow> event chan \<Rightarrow> task_end \<times> event chan" where
  "clipboard_run r sha user new ts ch =
     (case new of Some e \<Rightarrow> (Ended, ch) | None \<Rightarrow> clipboard_loop r sha user ts None ch)"

section \<open>Files\<close>

definition CONTENT_SCAN_MAX_BYTES :: u64 where
  "CONTENT_SCAN_MAX_BYTES = 5 * 1024 * 1024"

datatype notify_kind = NCreate | NModify | NRemove | NOther

text \<open>The file system as \<open>inspect_file\<close> sees it: metadata (regular file, length), contents.\<close>

record disk =
  dk_meta :: "rstr \<Rightarrow> (bool \<times> u64) option"
  dk_read :: "rstr \<Rightarrow> u8 list option"

definition inspect_file ::
  "registry \<Rightarrow> (u8 list \<Rightarrow> u8 list) \<Rightarrow> disk \<Rightarrow> rstr \<Rightarrow> (u64 \<times> u8 list \<times> pmatch list) option" where
  "inspect_file r sha dk path =
     (case dk_meta dk path of
        None \<Rightarrow> Some (0, [], [])
      | Some (is_file, len) \<Rightarrow>
          if \<not> is_file then Some (len, [], [])
          else if len > CONTENT_SCAN_MAX_BYTES then Some (len, [], [])
          else case dk_read dk path of
            None \<Rightarrow> Some (len, [], [])
          | Some bytes \<Rightarrow>
              (case from_utf8 bytes of
                 None \<Rightarrow> Some (len, sha bytes, [])
               | Some text \<Rightarrow>
                   map_option (\<lambda>ms. (len, sha bytes, map match_message ms)) (scan_all r text)))"

text \<open>\<open>Path::extension\<close>: what follows the last dot of the file name, unless that dot is its first char.\<close>

definition file_name :: "rstr \<Rightarrow> rstr" where
  "file_name p = rev (takeWhile (\<lambda>c. c \<noteq> 47) (dropWhile (\<lambda>c. c = 47) (rev p)))"

definition extension :: "rstr \<Rightarrow> rstr option" where
  "extension p =
     (let f = file_name p;
          ext = rev (takeWhile (\<lambda>c. c \<noteq> 46) (rev f));
          stem = rev (drop 1 (dropWhile (\<lambda>c. c \<noteq> 46) (rev f)))
      in if f = [] \<or> f = lit ''..'' \<or> \<not> 46 \<in> set f \<or> stem = [] then None else Some ext)"

definition file_event_type :: "notify_kind \<Rightarrow> int" where
  "file_event_type k = (case k of NCreate \<Rightarrow> ET_FILE_CREATE | NModify \<Rightarrow> ET_FILE_WRITE
     | NRemove \<Rightarrow> ET_FILE_DELETE | NOther \<Rightarrow> ET_AGENT_INTERNAL)"

definition file_build_event ::
  "registry \<Rightarrow> (u8 list \<Rightarrow> u8 list) \<Rightarrow> rstr \<Rightarrow> rstr \<Rightarrow> int \<Rightarrow> disk \<Rightarrow> notify_kind \<Rightarrow> rstr \<Rightarrow> event option" where
  "file_build_event r sha user uuid now dk k path =
     (case inspect_file r sha dk path of
        None \<Rightarrow> None
      | Some (size_bytes, sha, matches) \<Rightarrow>
          Some \<lparr>ev_event_id = uuid, ev_timestamp_ns = now, ev_agent_id = [], ev_type = file_event_type k,
            ev_severity = (if matches = [] then SEV_LOW else SEV_MEDIUM), ev_direction = 0,
            ev_user_name = user, ev_process_id = 0, ev_process_name = [],
            ev_details = Some (DFile \<lparr>fe_path = path, fe_old_path = [], fe_destination_path = [],
              fe_size_bytes = (if unat size_bytes < 2 ^ 63 then int (unat size_bytes) else 0),
              fe_sha256 = sha, fe_mime_type = [],
              fe_file_extension = (case extension path of Some e \<Rightarrow> e | None \<Rightarrow> [])\<rparr>),
            ev_matched_policy_id = [], ev_matched_rule_id = [], ev_action_taken = 0,
            ev_matches = matches, ev_forward_to_siem = False\<rparr>)"

text \<open>One path of a notification: the disk as it is then, the UUID and the time.\<close>

record file_input =
  fi_path :: rstr
  fi_disk :: disk
  fi_uuid :: rstr
  fi_now :: int

fun filemon_paths ::
  "registry \<Rightarrow> (u8 list \<Rightarrow> u8 list) \<Rightarrow> rstr \<Rightarrow> notify_kind \<Rightarrow> file_input list \<Rightarrow> event chan \<Rightarrow> task_end \<times> event chan" where
  "filemon_paths r sha user k [] ch = (Running, ch)"
| "filemon_paths r sha user k (i # is) ch =
     (case file_build_event r sha user (fi_uuid i) (fi_now i) (fi_disk i) k (fi_path i) of
        None \<Rightarrow> (Panicked, ch)
      | Some ev \<Rightarrow>
          (case ch_send ev ch of
             None \<Rightarrow> (Ended, ch)
           | Some ch \<Rightarrow> filemon_paths r sha user k is ch))"

text \<open>The receive loop over notifications, \<open>None\<close> being an error of the watcher.\<close>

fun filemon_loop ::
  "registry \<Rightarrow> (u8 list \<Rightarrow> u8 list) \<Rightarrow> rstr \<Rightarrow> (notify_kind \<times> file_input list) option list \<Rightarrow> event chan \<Rightarrow>
   task_end \<times> event chan" where
  "filemon_loop r sha user [] ch = (Running, ch)"
| "filemon_loop r sha user (None # ns) ch = filemon_loop r sha user ns ch"
| "filemon_loop r sha user (Some (k, is) # ns) ch =
     (case filemon_paths r sha user k is ch of
        (Running, ch) \<Rightarrow> filemon_loop r sha user ns ch
      | (e, ch) \<Rightarrow> (e, ch))"

text \<open>The task: it ends at once without paths or when there is no watcher. A path that cannot be watched is only logged.\<close>

definition filemon_run ::
  "registry \<Rightarrow> (u8 list \<Rightarrow> u8 list) \<Rightarrow> rstr \<Rightarrow> rstr list \<Rightarrow> rstr option \<Rightarrow> (notify_kind \<times> file_input list) option list \<Rightarrow>
   event chan \<Rightarrow> task_end \<times> event chan" where
  "filemon_run r sha user paths watcher ns ch =
     (if paths = [] then (Ended, ch)
      else case watcher of Some e \<Rightarrow> (Ended, ch) | None \<Rightarrow> filemon_loop r sha user ns ch)"

section \<open>The platform agent\<close>

datatype monitor_task = FilemonTask "rstr list" | ClipboardTask

record linux_agent =
  la_classifiers :: registry
  la_watch_paths :: "rstr list"
  la_tasks :: "monitor_task list"

definition linux_agent_new :: "registry \<Rightarrow> rstr list \<Rightarrow> linux_agent" where
  "linux_agent_new r paths = \<lparr>la_classifiers = r, la_watch_paths = paths, la_tasks = []\<rparr>"

definition register_task :: "monitor_task \<Rightarrow> linux_agent \<Rightarrow> linux_agent" where
  "register_task t a = a\<lparr>la_tasks := la_tasks a @ [t]\<rparr>"

definition start_filemon :: "linux_agent \<Rightarrow> linux_agent" where
  "start_filemon a = (if la_watch_paths a = [] then a else register_task (FilemonTask (la_watch_paths a)) a)"

definition start_clipscreen :: "linux_agent \<Rightarrow> linux_agent" where
  "start_clipscreen a = register_task ClipboardTask a"

text \<open>The tasks \<open>shutdown\<close> aborts, and the agent after it.\<close>

definition linux_shutdown :: "linux_agent \<Rightarrow> monitor_task list \<times> linux_agent" where
  "linux_shutdown a = (la_tasks a, a\<lparr>la_tasks := []\<rparr>)"

section \<open>The collector\<close>

text \<open>Each event received is enqueued; an error is logged and the event is gone.\<close>

fun collector ::
  "(event \<Rightarrow> u8 list) \<Rightarrow> (event \<times> rstr option \<times> int) list \<Rightarrow> event_queue \<Rightarrow> event_queue" where
  "collector encode [] q = q"
| "collector encode ((ev, db, now) # is) q = collector encode is (snd (enqueue encode db now ev q))"

section \<open>What the monitors send\<close>

lemma send_all_open:
  "\<not> ch_closed ch \<Longrightarrow> send_all es ch = (True, ch\<lparr>ch_msgs := ch_msgs ch @ es\<rparr>)"
  by (induction es arbitrary: ch) (simp_all add: ch_send_def)

lemma send_all_msgs: "send_all es ch = (b, ch') \<Longrightarrow> \<exists>k. ch_msgs ch' = ch_msgs ch @ take k es"
proof (induction es arbitrary: ch)
  case (Cons e es)
  show ?case
  proof (cases "ch_send e ch")
    case None
    with Cons.prems show ?thesis by (intro exI [of _ 0]) simp
  next
    case (Some ch1)
    with Cons.prems have "send_all es ch1 = (b, ch')" by simp
    from Cons.IH [OF this] obtain k where "ch_msgs ch' = ch_msgs ch1 @ take k es" by blast
    with Some show ?thesis by (intro exI [of _ "Suc k"]) (simp add: ch_send_Some)
  qed
qed simp

text \<open>The texts that differ from the one before.\<close>

fun changed :: "rstr option \<Rightarrow> rstr list \<Rightarrow> rstr list" where
  "changed p [] = []"
| "changed p (x # xs) = (if p = Some x then changed p xs else x # changed (Some x) xs)"

lemma changed_remdups: "changed None xs = remdups_adj xs"
proof -
  have ch: "changed (Some x) xs = tl (remdups_adj (x # xs))" for x xs
    by (induction xs arbitrary: x) auto
  show ?thesis by (cases xs) (simp_all add: ch remdups_adj_Cons_alt del: remdups_adj.simps(3))
qed

definition texts_read :: "clip_tick list \<Rightarrow> rstr list" where
  "texts_read ts = filter (\<lambda>x. x \<noteq> []) (map the (filter (\<lambda>x. x \<noteq> None) (map ct_read ts)))"

text \<open>What an event says: the hash of the text and the match.\<close>

definition clip_summary :: "event \<Rightarrow> u8 list \<times> pmatch list" where
  "clip_summary e = (case ev_details e of Some (DClipboard c) \<Rightarrow> ce_content_hash c | _ \<Rightarrow> [], ev_matches e)"

lemma clip_events_summary:
  "map clip_summary (clip_events user t text h ms) = map (\<lambda>m. (h, [match_message m])) ms"
proof -
  have "map clip_summary (clip_events user t text h ms) =
      map (\<lambda>m. (h, [match_message m])) (map ((!) ms) [0..<length ms])"
    by (simp add: clip_events_def clip_event_def clip_summary_def o_def)
  then show ?thesis by (simp only: map_nth)
qed

lemma clipboard_changes:
  assumes "\<not> ch_closed ch" "\<forall>x \<in> set (texts_read ts). scan_all r x \<noteq> None"
    and "inj_on (\<lambda>x. sha (as_bytes x)) (set (texts_read ts) \<union> set_option p)"
  shows "\<exists>ch'. clipboard_loop r sha user ts (map_option (\<lambda>x. sha (as_bytes x)) p) ch = (Running, ch') \<and>
    map clip_summary (ch_msgs ch') = map clip_summary (ch_msgs ch) @
      concat (map (\<lambda>x. map (\<lambda>m. (sha (as_bytes x), [match_message m])) (the (scan_all r x)))
        (changed p (texts_read ts)))"
  using assms
proof (induction ts arbitrary: p ch)
  case (Cons t ts)
  show ?case
  proof (cases "ct_read t = None \<or> ct_read t = Some []")
    case True
    then have "texts_read (t # ts) = texts_read ts" by (auto simp: texts_read_def)
    with Cons True show ?thesis by auto
  next
    case False
    then obtain x where x: "ct_read t = Some x" "x \<noteq> []" by auto
    then have tr: "texts_read (t # ts) = x # texts_read ts" by (simp add: texts_read_def)
    let ?h = "\<lambda>x. sha (as_bytes x)"
    have eq: "map_option ?h p = Some (?h x) \<longleftrightarrow> p = Some x"
      using Cons.prems(3) tr by (cases p) (auto dest: inj_onD)
    show ?thesis
    proof (cases "p = Some x")
      case True
      have "inj_on ?h (set (texts_read ts) \<union> set_option p)"
        by (rule inj_on_subset [OF Cons.prems(3)]) (auto simp: tr)
      with Cons.IH [of ch p] Cons.prems(1,2) tr True eq x show ?thesis by auto
    next
      case False
      obtain ms where ms: "scan_all r x = Some ms" using Cons.prems(2) tr by auto
      let ?ch = "ch\<lparr>ch_msgs := ch_msgs ch @ clip_events user t x (?h x) ms\<rparr>"
      have run: "clipboard_loop r sha user (t # ts) (map_option ?h p) ch =
          clipboard_loop r sha user ts (map_option ?h (Some x)) ?ch"
        using x ms eq False send_all_open [OF Cons.prems(1)]
        by (auto simp: Let_def clip_events_def)
      have "inj_on ?h (set (texts_read ts) \<union> set_option (Some x))"
        by (rule inj_on_subset [OF Cons.prems(3)]) (auto simp: tr)
      with Cons.IH [of ?ch "Some x"] Cons.prems(1,2) tr
      obtain ch' where "clipboard_loop r sha user ts (map_option ?h (Some x)) ?ch = (Running, ch')"
        "map clip_summary (ch_msgs ch') = map clip_summary (ch_msgs ?ch) @
          concat (map (\<lambda>x. map (\<lambda>m. (?h x, [match_message m])) (the (scan_all r x))) (changed (Some x) (texts_read ts)))"
        by auto
      with run False tr ms show ?thesis by (simp add: clip_events_summary)
    qed
  qed
qed (simp add: texts_read_def)

text \<open>While no scan panics, the clipboard task sends one event for each match of each text that
  differs from the one before, in order, with the hash of that text, and nothing for a text that
  stays.\<close>

theorem clipboard_reports_changes:
  assumes "\<not> ch_closed ch" "\<forall>x \<in> set (texts_read ts). scan_all r x \<noteq> None"
    and "inj_on (\<lambda>x. sha (as_bytes x)) (set (texts_read ts))"
  shows "\<exists>ch'. clipboard_loop r sha user ts None ch = (Running, ch') \<and>
    map clip_summary (ch_msgs ch') = map clip_summary (ch_msgs ch) @
      concat (map (\<lambda>x. map (\<lambda>m. (sha (as_bytes x), [match_message m])) (the (scan_all r x)))
        (remdups_adj (texts_read ts)))"
  using clipboard_changes [of ch ts r sha None user] assms by (simp add: changed_remdups)

definition clip_tick_of :: "rstr \<Rightarrow> clip_tick" where
  "clip_tick_of x = \<lparr>ct_read = Some x, ct_uuid = \<lambda>_. [], ct_now = \<lambda>_. 0\<rparr>"

theorem clipboard_reports_changes_witness:
  "\<exists>ch'. clipboard_loop (with_defaults ref_regexes) id [] [clip_tick_of (lit ''44051401359''),
      clip_tick_of (lit ''44051401359''), clip_tick_of (lit ''hi'')] None \<lparr>ch_msgs = [], ch_closed = False\<rparr> = (Running, ch')
    \<and> length (ch_msgs ch') = 1"
proof -
  let ?r = "with_defaults ref_regexes"
  let ?ts = "[clip_tick_of (lit ''44051401359''), clip_tick_of (lit ''44051401359''), clip_tick_of (lit ''hi'')]"
  have t: "texts_read ?ts = [lit ''44051401359'', lit ''44051401359'', lit ''hi'']"
    by (simp add: texts_read_def clip_tick_of_def)
  have s1: "length (the (scan_all ?r (lit ''44051401359''))) = 1" "scan_all ?r (lit ''44051401359'') \<noteq> None"
    and s2: "scan_all ?r (lit ''hi'') = Some []" by (code_simp, code_simp, code_simp)
  have d: "as_bytes (lit ''44051401359'') \<noteq> as_bytes (lit ''hi'')" by code_simp
  have "\<not> ch_closed \<lparr>ch_msgs = [], ch_closed = False\<rparr>" by simp
  moreover have "\<forall>x \<in> set (texts_read ?ts). scan_all ?r x \<noteq> None" using s1 s2 by (simp add: t)
  moreover have "inj_on (\<lambda>x. id (as_bytes x)) (set (texts_read ?ts))" using d by (simp add: t inj_on_def)
  ultimately obtain ch' where ch': "clipboard_loop ?r id [] ?ts None \<lparr>ch_msgs = [], ch_closed = False\<rparr> = (Running, ch')"
    "map clip_summary (ch_msgs ch') = map clip_summary [] @
      concat (map (\<lambda>x. map (\<lambda>m. (id (as_bytes x), [match_message m])) (the (scan_all ?r x)))
        (remdups_adj (texts_read ?ts)))"
    using clipboard_reports_changes [of "\<lparr>ch_msgs = [], ch_closed = False\<rparr>" ?ts ?r id "[]"] by auto
  have "length (map clip_summary (ch_msgs ch')) = 1" unfolding ch'(2) using s1 s2 by (simp add: t)
  then have "length (ch_msgs ch') = 1" by (simp only: length_map)
  with ch'(1) show ?thesis by blast
qed

text \<open>On the default registry, a clipboard text with an isolated IBAN-like word whose check digits
  are decimal digits of three bytes ends the clipboard task by a panic: nothing copied later is
  scanned or reported.\<close>

theorem clipboard_task_dies:
  assumes "regexes_ok nd wd rs" "ct_read t = Some (u @ (a @ [c, d] @ r) @ w)"
    and "prev \<noteq> Some (sha (as_bytes (u @ (a @ [c, d] @ r) @ w)))"
    and "list_all is_ascii_uppercase a" "length a = 2" "nd c" "nd d"
    and "list_all is_alnum_upper r" "11 \<le> length r" "blen (a @ [c, d] @ r) \<le> 34" "3 \<le> length (utf8 c)"
    and "u = [] \<or> \<not> wd (last u) \<and> last u \<noteq> 32" "w = [] \<or> \<not> wd (hd w) \<and> hd w \<noteq> 32"
  shows "clipboard_loop (with_defaults rs) sha user (t # ts) prev ch = (Panicked, ch)"
proof -
  have "iban_regex nd wd (re_iban rs)" using assms(1) by (simp add: regexes_ok_def)
  from iban_regex.scan_panics [OF this assms(4-13)]
  have "scan_all (with_defaults rs) (u @ (a @ [c, d] @ r) @ w) = None" by (simp only: defaults_None_iff)
  with assms(2,3) show ?thesis by (simp add: Let_def)
qed

theorem clipboard_task_dies_witness:
  "clipboard_loop (with_defaults ref_regexes) id []
     (clip_tick_of (lit ''('' @ (lit ''PL'' @ [2406, 2407] @ lit ''12345678901'') @ lit '')'') # [clip_tick_of (lit ''44051401359'')])
     None \<lparr>ch_msgs = [], ch_closed = False\<rparr> = (Panicked, \<lparr>ch_msgs = [], ch_closed = False\<rparr>)"
proof (rule clipboard_task_dies [OF ref_regexes_ok])
  show "list_all is_ascii_uppercase (lit ''PL'')" "length (lit ''PL'') = 2" by (code_simp, code_simp)
  show "eval_nd 2406" "eval_nd 2407" by (simp_all add: eval_nd_def)
  show "list_all is_alnum_upper (lit ''12345678901'')" by code_simp
  show "11 \<le> length (lit ''12345678901'')" by simp
  have "length (utf8 2406) = 3" "length (utf8 2407) = 3" by (simp_all add: utf8_def)
  moreover have "blen (lit ''PL'') = 2" "blen (lit ''12345678901'') = 11" by (code_simp, code_simp)
  ultimately show "blen (lit ''PL'' @ [2406, 2407] @ lit ''12345678901'') \<le> 34"
    "3 \<le> length (utf8 2406)" by simp_all
  show "lit ''('' = [] \<or> \<not> eval_wd (last (lit ''('')) \<and> last (lit ''('') \<noteq> 32"
    "lit '')'' = [] \<or> \<not> eval_wd (hd (lit '')'')) \<and> hd (lit '')'') \<noteq> 32" by (code_simp, code_simp)
qed (simp_all add: clip_tick_of_def)

text \<open>The fields of an event that are made from what was found: at most four digits in each.\<close>

definition event_redacted :: "event \<Rightarrow> bool" where
  "event_redacted e \<longleftrightarrow> (\<forall>m \<in> set (ev_matches e). digits_shown (pm_sample_excerpt m) \<le> 4) \<and>
     (case ev_details e of Some (DClipboard c) \<Rightarrow> digits_shown (ce_content_preview c) \<le> 4 | _ \<Rightarrow> True)"

lemma registry_redacted:
  "registry_ok r \<Longrightarrow> scan_all r t = Some ms \<Longrightarrow> m \<in> set ms \<Longrightarrow> digits_shown (c_redacted m) \<le> 4"
  using scan_all_reports [of r t ms m] by (simp add: reports_def)

lemma send_redacted:
  "send_all es ch = (b, ch') \<Longrightarrow> list_all event_redacted (ch_msgs ch) \<Longrightarrow> list_all event_redacted es \<Longrightarrow>
   list_all event_redacted (ch_msgs ch')"
  using send_all_msgs [of es ch b ch'] by (fastforce simp: list_all_iff dest: in_set_takeD)

lemma clipboard_redacted:
  "registry_ok r \<Longrightarrow> list_all event_redacted (ch_msgs ch) \<Longrightarrow>
   list_all event_redacted (ch_msgs (snd (clipboard_loop r sha user ts prev ch)))"
proof (induction ts arbitrary: prev ch)
  case (Cons t ts)
  have "list_all event_redacted (clip_events user t x h ms)" if "scan_all r x = Some ms" for x h ms
    using registry_redacted [OF Cons.prems(1) that]
    by (auto simp: list_all_iff clip_events_def clip_event_def event_redacted_def match_message_def)
  then show ?case using Cons
    by (auto simp: Let_def dest!: send_redacted split: option.split prod.split bool.split)
qed simp

lemma inspect_redacted:
  "registry_ok r \<Longrightarrow> inspect_file r sha dk path = Some (n, h, ms) \<Longrightarrow> m \<in> set ms \<Longrightarrow>
   digits_shown (pm_sample_excerpt m) \<le> 4"
  using registry_redacted
  by (auto simp: inspect_file_def match_message_def split: option.splits if_splits) 

lemma file_event_redacted:
  "registry_ok r \<Longrightarrow> file_build_event r sha user i n dk k path = Some e \<Longrightarrow> event_redacted e"
  using inspect_redacted
  by (auto simp: file_build_event_def event_redacted_def split: option.splits)

lemma filemon_paths_redacted:
  "registry_ok r \<Longrightarrow> list_all event_redacted (ch_msgs ch) \<Longrightarrow>
   list_all event_redacted (ch_msgs (snd (filemon_paths r sha user k is ch)))"
proof (induction "is" arbitrary: ch)
  case (Cons i "is")
  then show ?case using file_event_redacted [OF Cons.prems(1)]
    by (auto simp: ch_send_Some split: option.split)
qed simp

lemma filemon_redacted:
  "registry_ok r \<Longrightarrow> list_all event_redacted (ch_msgs ch) \<Longrightarrow>
   list_all event_redacted (ch_msgs (snd (filemon_loop r sha user ns ch)))"
proof (induction r sha user ns ch rule: filemon_loop.induct)
  case (3 r sha user k "is" ns ch)
  have "list_all event_redacted (ch_msgs (snd (filemon_paths r sha user k is ch)))"
    using filemon_paths_redacted 3 by blast
  with 3 show ?case by (auto split: prod.split task_end.split)
qed simp_all

text \<open>What of a text, and of the contents of a file, there is to see in events: the length, the digest, and the
  classifiers and redacted forms of the matches.\<close>

definition text_view ::
  "registry \<Rightarrow> (u8 list \<Rightarrow> u8 list) \<Rightarrow> rstr \<Rightarrow> nat \<times> bool \<times> u8 list \<times> pmatch list option" where
  "text_view r sha t = (blen t, t = [], sha (as_bytes t), map_option (map match_message) (scan_all r t))"

definition bytes_view :: "registry \<Rightarrow> (u8 list \<Rightarrow> u8 list) \<Rightarrow> u8 list \<Rightarrow> u8 list \<times> pmatch list option option" where
  "bytes_view r sha b = (sha b, map_option (\<lambda>t. map_option (map match_message) (scan_all r t)) (from_utf8 b))"

definition same_tick :: "registry \<Rightarrow> (u8 list \<Rightarrow> u8 list) \<Rightarrow> clip_tick \<Rightarrow> clip_tick \<Rightarrow> bool" where
  "same_tick r sha t u \<longleftrightarrow> ct_uuid t = ct_uuid u \<and> ct_now t = ct_now u \<and>
     map_option (text_view r sha) (ct_read t) = map_option (text_view r sha) (ct_read u)"

definition same_input :: "registry \<Rightarrow> (u8 list \<Rightarrow> u8 list) \<Rightarrow> file_input \<Rightarrow> file_input \<Rightarrow> bool" where
  "same_input r sha i j \<longleftrightarrow> fi_path i = fi_path j \<and> fi_uuid i = fi_uuid j \<and> fi_now i = fi_now j \<and>
     dk_meta (fi_disk i) (fi_path i) = dk_meta (fi_disk j) (fi_path j) \<and>
     map_option (bytes_view r sha) (dk_read (fi_disk i) (fi_path i)) =
     map_option (bytes_view r sha) (dk_read (fi_disk j) (fi_path j))"

definition same_notice ::
  "registry \<Rightarrow> (u8 list \<Rightarrow> u8 list) \<Rightarrow> (notify_kind \<times> file_input list) option \<Rightarrow> (notify_kind \<times> file_input list) option \<Rightarrow> bool" where
  "same_notice r sha = rel_option (rel_prod (=) (list_all2 (same_input r sha)))"

lemma clip_event_view:
  assumes "match_message m = match_message n" "blen x = blen y"
  shows "clip_event uuid now user x h m = clip_event uuid now user y h n"
  using assms by (simp add: clip_event_def match_message_def)

lemma clip_events_view:
  assumes "ct_uuid t = ct_uuid u" "ct_now t = ct_now u" "blen x = blen y" "map match_message ms = map match_message ns"
  shows "clip_events user t x h ms = clip_events user u y h ns"
proof -
  have l: "length ms = length ns" using assms(4) map_eq_imp_length_eq by blast
  have "match_message (ms ! i) = match_message (ns ! i)" if "i < length ns" for i
    using that l assms(4) by (metis nth_map)
  with l assms(1-3) show ?thesis by (auto simp: clip_events_def intro!: clip_event_view)
qed

lemma clipboard_view:
  "list_all2 (same_tick r sha) ts us \<Longrightarrow>
   clipboard_loop r sha user ts prev ch = clipboard_loop r sha user us prev ch"
proof (induction ts us arbitrary: prev ch rule: list_all2_induct)
  case (Cons t ts u us)
  show ?case
  proof (cases "ct_read t")
    case None
    with Cons show ?thesis by (simp add: same_tick_def)
  next
    case (Some x)
    then obtain y where y: "ct_read u = Some y" "blen x = blen y" "x = [] \<longleftrightarrow> y = []" "sha (as_bytes x) = sha (as_bytes y)"
      "map_option (map match_message) (scan_all r x) = map_option (map match_message) (scan_all r y)"
      using Cons.hyps(1) by (cases "ct_read u") (auto simp: same_tick_def text_view_def)
    show ?thesis
    proof (cases "scan_all r x")
      case None
      with y Some Cons.IH show ?thesis by (simp add: Let_def)
    next
      case (Some ms)
      then obtain ns where ns: "scan_all r y = Some ns" "map match_message ms = map match_message ns"
        using y(5) by (cases "scan_all r y") auto
      have "clip_events user t x h ms = clip_events user u y h ns" for h
        using Cons.hyps(1) y(2) ns(2) by (intro clip_events_view) (simp_all add: same_tick_def)
      moreover have "ms = [] \<longleftrightarrow> ns = []" using ns(2) by (metis map_is_Nil_conv)
      ultimately show ?thesis using \<open>ct_read t = Some x\<close> y Some ns(1) Cons.IH
        by (simp add: Let_def split: prod.split bool.split)
    qed
  qed
qed simp

lemma inspect_by_view:
  "inspect_file r sha dk path =
     (case dk_meta dk path of
        None \<Rightarrow> Some (0, [], [])
      | Some (is_file, len) \<Rightarrow>
          if \<not> is_file \<or> len > CONTENT_SCAN_MAX_BYTES then Some (len, [], [])
          else case map_option (bytes_view r sha) (dk_read dk path) of
            None \<Rightarrow> Some (len, [], [])
          | Some (h, None) \<Rightarrow> Some (len, h, [])
          | Some (h, Some found) \<Rightarrow> map_option (\<lambda>ms. (len, h, ms)) found)"
  by (auto simp: inspect_file_def bytes_view_def option.map_comp o_def split: option.split prod.split)

lemma inspect_view:
  assumes "same_input r sha i j"
  shows "inspect_file r sha (fi_disk i) (fi_path i) = inspect_file r sha (fi_disk j) (fi_path j)"
  using assms unfolding same_input_def inspect_by_view by (elim conjE) (simp only:)

lemma filemon_paths_view:
  "list_all2 (same_input r sha) is js \<Longrightarrow> filemon_paths r sha user k is ch = filemon_paths r sha user k js ch"
proof (induction "is" js arbitrary: ch rule: list_all2_induct)
  case (Cons i "is" j js)
  have "file_build_event r sha user (fi_uuid i) (fi_now i) (fi_disk i) k (fi_path i) =
      file_build_event r sha user (fi_uuid j) (fi_now j) (fi_disk j) k (fi_path j)"
    using inspect_view [OF Cons.hyps(1)] Cons.hyps(1) by (simp add: file_build_event_def same_input_def)
  with Cons.IH show ?case by (simp add: ch_send_def split: option.split)
qed simp

lemma filemon_view:
  "list_all2 (same_notice r sha) ns ms \<Longrightarrow> filemon_loop r sha user ns ch = filemon_loop r sha user ms ch"
proof (induction ns ms arbitrary: ch rule: list_all2_induct)
  case (Cons n ns m ms)
  then show ?case
    by (cases n; cases m) (auto simp: same_notice_def filemon_paths_view split: prod.split task_end.split)
qed simp

text \<open>C31: what the monitors send on the default registry, all fields of all events, depends on what is copied and on the
  contents of the watched files only through their lengths, their SHA-256 digests and the classifiers and redacted
  forms of what is found in them, and these show at most four digits each. Paths, times and the name of the user
  are no content.\<close>

theorem monitors_disclose_four_digits:
  assumes "regexes_ok nd wd rs" "list_all event_redacted (ch_msgs ch)"
    and "list_all2 (same_tick (with_defaults rs) sha) ts us" "list_all2 (same_notice (with_defaults rs) sha) ns ms"
  shows "clipboard_run (with_defaults rs) sha user new ts ch = clipboard_run (with_defaults rs) sha user new us ch \<and>
    filemon_run (with_defaults rs) sha user paths watcher ns ch = filemon_run (with_defaults rs) sha user paths watcher ms ch \<and>
    list_all event_redacted (ch_msgs (snd (clipboard_run (with_defaults rs) sha user new ts ch))) \<and>
    list_all event_redacted (ch_msgs (snd (filemon_run (with_defaults rs) sha user paths watcher ns ch)))"
  using clipboard_redacted filemon_redacted with_defaults_ok [OF assms(1)] assms(2)
    clipboard_view [OF assms(3)] filemon_view [OF assms(4)]
  by (auto simp: clipboard_run_def filemon_run_def split: option.split)

text \<open>Two numbers with the same last four digits, and a digest that tells nothing.\<close>

lemma alike_pesels:
  "text_view (with_defaults ref_regexes) (\<lambda>_. []) (lit ''44051401359'') =
   text_view (with_defaults ref_regexes) (\<lambda>_. []) (lit ''00000021359'')"
  by code_simp

theorem monitors_disclose_four_digits_witness:
  "clipboard_run (with_defaults ref_regexes) (\<lambda>_. []) [] None [clip_tick_of (lit ''44051401359'')] \<lparr>ch_msgs = [], ch_closed = False\<rparr> =
   clipboard_run (with_defaults ref_regexes) (\<lambda>_. []) [] None [clip_tick_of (lit ''00000021359'')] \<lparr>ch_msgs = [], ch_closed = False\<rparr>"
proof -
  have "list_all2 (same_tick (with_defaults ref_regexes) (\<lambda>_. []))
      [clip_tick_of (lit ''44051401359'')] [clip_tick_of (lit ''00000021359'')]"
    using alike_pesels by (simp add: same_tick_def clip_tick_of_def)
  from monitors_disclose_four_digits [OF ref_regexes_ok _ this, where ns = "[]" and ms = "[]"] show ?thesis by simp
qed

text \<open>For a regular file of ASCII text up to 5 MiB, the event carries exactly the matches of the
  registry, the hash of the contents, and medium severity exactly when there is a match.\<close>

theorem file_event_reports:
  assumes "regexes_ok nd wd rs" "is_ascii t" "dk_meta dk path = Some (True, n)" "n \<le> CONTENT_SCAN_MAX_BYTES"
    and "dk_read dk path = Some (as_bytes t)"
  shows "\<exists>ms e f. scan_all (with_defaults rs) t = Some ms \<and>
    file_build_event (with_defaults rs) sha user uuid now dk k path = Some e \<and>
    ev_matches e = map match_message ms \<and> ev_severity e = (if ms = [] then SEV_LOW else SEV_MEDIUM) \<and>
    ev_type e = file_event_type k \<and> ev_details e = Some (DFile f) \<and> fe_path f = path \<and>
    fe_sha256 f = sha (as_bytes t)"
proof -
  obtain ms where ms: "scan_all (with_defaults rs) t = Some ms"
    using defaults_ascii_total [OF assms(1,2)] by blast
  have "inspect_file (with_defaults rs) sha dk path = Some (n, sha (as_bytes t), map match_message ms)"
  proof -
    have "\<not> n > CONTENT_SCAN_MAX_BYTES" using assms(4) by (simp only: not_less)
    then show ?thesis using assms(3,5) ms from_utf8_ascii [OF assms(2)] by (simp add: inspect_file_def)
  qed
  with ms show ?thesis by (simp add: file_build_event_def)
qed

theorem file_event_reports_witness:
  "\<exists>ms e f. scan_all (with_defaults ref_regexes) (lit ''44051401359'') = Some ms \<and>
    file_build_event (with_defaults ref_regexes) id [] [] 0 \<lparr>dk_meta = \<lambda>_. Some (True, 11),
      dk_read = \<lambda>_. Some (as_bytes (lit ''44051401359''))\<rparr> NCreate (lit ''/a.txt'') = Some e \<and>
    ev_matches e = map match_message ms \<and> ev_severity e = (if ms = [] then SEV_LOW else SEV_MEDIUM) \<and>
    ev_type e = file_event_type NCreate \<and> ev_details e = Some (DFile f) \<and> fe_path f = lit ''/a.txt'' \<and>
    fe_sha256 f = id (as_bytes (lit ''44051401359''))"
proof (rule file_event_reports [OF ref_regexes_ok])
  show "is_ascii (lit ''44051401359'')" by code_simp
  show "11 \<le> CONTENT_SCAN_MAX_BYTES" by (simp add: CONTENT_SCAN_MAX_BYTES_def word_le_nat_alt)
qed simp_all

section \<open>The collector feeds the queue\<close>

text \<open>While the database is up, every event received is pending afterwards, behind what was
  pending, in order of arrival.\<close>

theorem collector_enqueues:
  assumes "queue_inv decode q" "list_all (\<lambda>(e, db, _). db = None \<and> decode (encode e) = Inr e) is"
    and "q_seq q + int (length is) \<le> max_i64"
  shows "queue_inv decode (collector encode is q) \<and>
    map snd (pending decode (collector encode is q)) = map snd (pending decode q) @ map fst is"
  using assms
proof (induction "is" arbitrary: q)
  case (Cons i "is")
  obtain e now where i: "i = (e, None, now)" "decode (encode e) = Inr e" using Cons.prems(2) by (cases i) auto
  obtain n q' where q': "enqueue encode None now e q = (Inr n, q')" "q_seq q' = q_seq q + 1"
    using Cons.prems(3) by (auto simp: enqueue_def Let_def)
  note inv = enqueue_inv [OF Cons.prems(1) i(2) q'(1)]
  with Cons.IH [of q'] Cons.prems(2,3) q'(2) i q'(1) show ?case by simp
qed simp

theorem collector_enqueues_witness:
  "map snd (pending id_decode (collector id_encode [] two_event_queue)) = map snd (pending id_decode two_event_queue) @ map fst []"
  using collector_enqueues [OF two_event_queue_inv, of id_encode "[]"]
  by (simp add: two_event_queue_def enqueue_def max_i64_def Let_def)

end
