(* ===== verification/Agent_Stream.thy ===== *)
theory Agent_Stream
  imports Proto Agent_Files
begin

text \<open>
  The agent's side of the stream, \<open>scrooge-agent-bin/src/stream.rs\<close>: the reconnect loop with its
  exponential backoff, the connection parameters, the heartbeat, and the handling of what the
  manager sends, which stores policies as files and acknowledges them.
\<close>

section \<open>Reconnecting\<close>

definition RECONNECT_MIN :: nat where "RECONNECT_MIN = 1"
definition RECONNECT_MAX :: nat where "RECONNECT_MAX = 60"
definition CHANNEL_CAPACITY :: nat where "CHANNEL_CAPACITY = 64"

text \<open>One turn of the loop: the shutdown flag read first, how the connection attempt ends, and whether
  the shutdown signal interrupts the sleep.\<close>

datatype attempt = ConnectFailed | SessionError | SessionEnded

record turn =
  tn_shutdown :: bool
  tn_attempt :: attempt
  tn_interrupted :: bool

text \<open>The sleeps of \<open>run_with_reconnect\<close>, in seconds, and whether it returned.\<close>

fun run_with_reconnect :: "nat \<Rightarrow> turn list \<Rightarrow> nat list \<times> bool" where
  "run_with_reconnect backoff [] = ([], False)"
| "run_with_reconnect backoff (t # ts) =
     (if tn_shutdown t then ([], True)
      else let backoff = (case tn_attempt t of SessionEnded \<Rightarrow> RECONNECT_MIN | _ \<Rightarrow> backoff)
           in if tn_interrupted t then ([], True)
              else let (sleeps, done) = run_with_reconnect (min (backoff * 2) RECONNECT_MAX) ts
                   in (backoff # sleeps, done))"

text \<open>The host of \<open>host:port\<close>, the name the manager's certificate must carry.\<close>

definition endpoint_host :: "rstr \<Rightarrow> rstr" where
  "endpoint_host endpoint = takeWhile (\<lambda>c. c \<noteq> 58) endpoint"

record tls_params =
  tls_ca :: "u8 list"
  tls_cert :: "u8 list"
  tls_key :: "u8 list"
  tls_domain :: rstr
  tls_uri :: rstr

text \<open>\<open>connect\<close>: the transport, a parameter; \<open>rd\<close>: the read errors.\<close>

definition build_channel ::
  "(tls_params \<Rightarrow> rstr + 'ch) \<Rightarrow> (rstr \<Rightarrow> rstr option) \<Rightarrow> u8 list files \<Rightarrow>
   rstr \<Rightarrow> rstr \<Rightarrow> rstr \<Rightarrow> rstr \<Rightarrow> rstr + 'ch" where
  "build_channel connect rd fs endpoint ca_cert_path cert_path key_path =
     res_bind (fs_read (rd ca_cert_path) ca_cert_path fs) (\<lambda>ca_pem.
     res_bind (fs_read (rd cert_path) cert_path fs) (\<lambda>cert_pem.
     res_bind (fs_read (rd key_path) key_path fs) (\<lambda>key_pem.
     connect \<lparr>tls_ca = ca_pem, tls_cert = cert_pem, tls_key = key_pem,
              tls_domain = endpoint_host endpoint, tls_uri = lit ''https://'' @ endpoint\<rparr>)))"

section \<open>Heartbeats and inbound messages\<close>

definition agent_status_default :: agent_status where
  "agent_status_default = \<lparr>st_events_in_queue = 0, st_events_dropped = 0, st_offline_mode = False,
     st_cpu_percent = 0, st_mem_bytes = 0, st_disk_used_bytes = 0\<rparr>"

definition heartbeat_message :: "int \<Rightarrow> rstr \<Rightarrow> agent_message" where
  "heartbeat_message now_ns version =
     Some (AHeartbeat \<lparr>hb_timestamp_ns = now_ns, hb_status = Some agent_status_default,
        hb_active_policy_ids = [], hb_active_policy_versions = [], hb_agent_version = version\<rparr>)"

text \<open>The heartbeat task: at each tick it sends one; it stops on shutdown or when the channel is closed.\<close>

fun heartbeat_loop :: "rstr \<Rightarrow> int option list \<Rightarrow> agent_message chan \<Rightarrow> agent_message chan" where
  "heartbeat_loop version [] ch = ch"
| "heartbeat_loop version (None # ts) ch = ch"
| "heartbeat_loop version (Some now # ts) ch =
     (case ch_send (heartbeat_message now version) ch of
        None \<Rightarrow> ch
      | Some ch \<Rightarrow> heartbeat_loop version ts ch)"

definition policy_path :: "rstr \<Rightarrow> rstr \<Rightarrow> rstr" where
  "policy_path policies_dir policy_id = path_join policies_dir (policy_id @ lit ''.msgpack'')"

definition ack_message :: "policy_ref \<Rightarrow> int \<Rightarrow> rstr \<Rightarrow> agent_message" where
  "ack_message p status err =
     Some (APolicyAck \<lparr>pa_policy_id = pref_policy_id p, pa_version = pref_version p,
        pa_status = status, pa_error_message = err\<rparr>)"

text \<open>The loop over the policies of an update, with the outcome of each write.\<close>

fun apply_policies ::
  "rstr \<Rightarrow> (rstr \<times> u8 list option) option list \<Rightarrow> policy_ref list \<Rightarrow> u8 list files \<Rightarrow> agent_message chan \<Rightarrow>
   u8 list files \<times> agent_message chan" where
  "apply_policies dir os [] fs ch = (fs, ch)"
| "apply_policies dir os (p # ps) fs ch =
     (let outcome = (case os of [] \<Rightarrow> None | x # _ \<Rightarrow> x);
          (r, fs) = fs_write outcome (policy_path dir (pref_policy_id p)) (pref_content_compiled p) fs;
          (status, err) = (case r of Inr _ \<Rightarrow> (1, []) | Inl e \<Rightarrow> (3, lit ''write error: '' @ e))
      in case ch_send (ack_message p status err) ch of
           None \<Rightarrow> (fs, ch)
         | Some ch \<Rightarrow> apply_policies dir (drop 1 os) ps fs ch)"

definition handle_inbound ::
  "rstr \<Rightarrow> rstr option \<Rightarrow> (rstr \<times> u8 list option) option list \<Rightarrow> manager_message \<Rightarrow>
   u8 list files \<Rightarrow> agent_message chan \<Rightarrow> u8 list files \<times> agent_message chan" where
  "handle_inbound policies_dir mkdir os msg fs ch =
     (case msg of
        Some (MHeartbeatAck _) \<Rightarrow> (fs, ch)
      | Some (MPolicy update) \<Rightarrow>
          (case mkdir of
             Some e \<Rightarrow> (fs, ch)
           | None \<Rightarrow> apply_policies policies_dir os (pu_policies update) fs ch)
      | Some (MCommand cmd) \<Rightarrow> (fs, ch)
      | None \<Rightarrow> (fs, ch))"

text \<open>What the inbound loop of a session receives, and its result.\<close>

datatype inbound = InMessage manager_message "rstr option" "(rstr \<times> u8 list option) option list"
  | InError rstr | InEnd | InShutdown

fun inbound_loop ::
  "rstr \<Rightarrow> inbound list \<Rightarrow> u8 list files \<Rightarrow> agent_message chan \<Rightarrow>
   (rstr + unit) option \<times> u8 list files \<times> agent_message chan" where
  "inbound_loop dir [] fs ch = (None, fs, ch)"
| "inbound_loop dir (InMessage m mkdir os # is) fs ch =
     (let (fs, ch) = handle_inbound dir mkdir os m fs ch in inbound_loop dir is fs ch)"
| "inbound_loop dir (InError e # is) fs ch = (Some (Inl e), fs, ch)"
| "inbound_loop dir (InEnd # is) fs ch = (Some (Inr ()), fs, ch)"
| "inbound_loop dir (InShutdown # is) fs ch = (Some (Inr ()), fs, ch)"

section \<open>The backoff\<close>

text \<open>The backoff starts at one second, doubles up to a minute over attempts that fail, and starts
  over after a session that ended cleanly: after \<open>n\<close> failures the sleep is \<open>min 60 (2 ^ n)\<close>.\<close>

theorem backoff_schedule:
  assumes "list_all (\<lambda>t. \<not> tn_shutdown t \<and> \<not> tn_interrupted t) (fs @ [e] @ gs)"
    and "list_all (\<lambda>t. tn_attempt t \<noteq> SessionEnded) (fs @ gs)" "tn_attempt e = SessionEnded"
  shows "run_with_reconnect RECONNECT_MIN (fs @ [e] @ gs) =
    (map (\<lambda>n. min 60 (2 ^ n)) [0..<length fs] @ [1] @ map (\<lambda>n. min 60 (2 ^ n)) [1..<Suc (length gs)], False)"
proof -
  have dbl: "min (min 60 (2 ^ k) * 2) RECONNECT_MAX = min 60 (2 ^ Suc k)" for k :: nat
    by (simp add: RECONNECT_MAX_def min_def)
  have run: "run_with_reconnect (min 60 (2 ^ k)) (xs @ ys) = (map (\<lambda>n. min 60 (2 ^ n)) [k..<k + length xs] @ s, d)"
    if "list_all (\<lambda>t. \<not> tn_shutdown t \<and> \<not> tn_interrupted t \<and> tn_attempt t \<noteq> SessionEnded) xs"
      "run_with_reconnect (min 60 (2 ^ (k + length xs))) ys = (s, d)" for xs ys k s d
    using that
  proof (induction xs arbitrary: k)
    case (Cons x xs)
    have at: "(case tn_attempt x of SessionEnded \<Rightarrow> RECONNECT_MIN | _ \<Rightarrow> min 60 (2 ^ k)) = (min 60 (2 ^ k) :: nat)"
      using Cons.prems(1) by (cases "tn_attempt x") auto
    have "run_with_reconnect (min 60 (2 ^ Suc k)) (xs @ ys) =
        (map (\<lambda>n. min 60 (2 ^ n)) [Suc k..<Suc k + length xs] @ s, d)"
      by (rule Cons.IH) (use Cons.prems in simp_all)
    moreover have "[k..<k + length (x # xs)] = k # [Suc k..<Suc k + length xs]"
      by (simp add: upt_conv_Cons del: upt_Suc)
    ultimately show ?case using Cons.prems(1) at
      by (simp add: dbl Let_def del: power_Suc upt_Suc)
  qed simp
  have 1: "RECONNECT_MIN = min 60 (2 ^ 0)" by (simp add: RECONNECT_MIN_def)
  have 2: "min (RECONNECT_MIN * 2) RECONNECT_MAX = min 60 (2 ^ 1)"
    by (simp add: RECONNECT_MIN_def RECONNECT_MAX_def)
  have fs: "list_all (\<lambda>t. \<not> tn_shutdown t \<and> \<not> tn_interrupted t \<and> tn_attempt t \<noteq> SessionEnded) fs"
    and gs: "list_all (\<lambda>t. \<not> tn_shutdown t \<and> \<not> tn_interrupted t \<and> tn_attempt t \<noteq> SessionEnded) gs"
    and e: "\<not> tn_shutdown e" "\<not> tn_interrupted e"
    using assms by (auto simp: list_all_iff)
  have g: "run_with_reconnect (min 60 (2 ^ 1)) gs = (map (\<lambda>n. min 60 (2 ^ n)) [1..<Suc (length gs)], False)"
    using run [OF gs, of 1 "[]" "[]" False] by (simp del: upt_Suc)
  have "run_with_reconnect b (e # gs) = (1 # map (\<lambda>n. min 60 (2 ^ n)) [1..<Suc (length gs)], False)" for b
    using e assms(3) g 2 by (simp add: Let_def RECONNECT_MIN_def)
  then have "run_with_reconnect (min 60 (2 ^ (0 + length fs))) ([e] @ gs) =
      (1 # map (\<lambda>n. min 60 (2 ^ n)) [1..<Suc (length gs)], False)" by (simp only: append_Cons append_Nil)
  from run [OF fs this] show ?thesis unfolding 1 by (simp only: append_Cons append_Nil add_0)
qed

theorem backoff_schedule_witness:
  "run_with_reconnect RECONNECT_MIN
     (replicate 2 \<lparr>tn_shutdown = False, tn_attempt = ConnectFailed, tn_interrupted = False\<rparr> @
      [\<lparr>tn_shutdown = False, tn_attempt = SessionEnded, tn_interrupted = False\<rparr>] @ []) =
   (map (\<lambda>n. min 60 (2 ^ n)) [0..<length (replicate 2 \<lparr>tn_shutdown = False, tn_attempt = ConnectFailed,
      tn_interrupted = False\<rparr>)] @ [1] @ map (\<lambda>n. min 60 (2 ^ n)) [1..<Suc (length ([] :: turn list))], False)"
  by (rule backoff_schedule) (simp_all add: numeral_2_eq_2)

section \<open>Policies on disk\<close>

lemma apply_policies_ok:
  assumes "\<not> ch_closed ch" "list_all (\<lambda>x. x = None) os"
    and "apply_policies dir os ps fs ch = (fs', ch')"
  shows "ch' = ch\<lparr>ch_msgs := ch_msgs ch @ map (\<lambda>p. ack_message p 1 []) ps\<rparr> \<and>
    fs' = fold (\<lambda>p f. f(policy_path dir (pref_policy_id p) := Some (pref_content_compiled p))) ps fs"
  using assms
proof (induction ps arbitrary: os fs ch)
  case (Cons p ps)
  have os: "(case os of [] \<Rightarrow> None | x # _ \<Rightarrow> x) = None" "list_all (\<lambda>x. x = None) (drop 1 os)"
    using Cons.prems(2) by (cases os; simp)+
  have "apply_policies dir (drop 1 os) ps (fs(policy_path dir (pref_policy_id p) := Some (pref_content_compiled p)))
      (ch\<lparr>ch_msgs := ch_msgs ch @ [ack_message p 1 []]\<rparr>) = (fs', ch')"
    using Cons.prems(1,3) os(1) by (simp add: Let_def fs_write_def ch_send_def)
  from Cons.IH [OF _ os(2) this] Cons.prems(1) show ?case by simp
qed simp

lemma fold_files:
  assumes "\<And>p. p \<in> set ps \<Longrightarrow> f p = k \<longleftrightarrow> P p"
  shows "fold (\<lambda>p g. g(f p := Some (c p))) ps fs k =
    (case find P (rev ps) of Some p \<Rightarrow> Some (c p) | None \<Rightarrow> fs k)"
  using assms
proof (induction ps rule: rev_induct)
  case (snoc p ps)
  then show ?case by (auto split: option.split)
qed simp

lemma policy_path_inj:
  assumes "hd (i @ [46]) \<noteq> 47" "hd (j @ [46]) \<noteq> 47"
  shows "policy_path d i = policy_path d j \<longleftrightarrow> i = j"
proof -
  have "hd (i @ lit ''.msgpack'') \<noteq> 47" "hd (j @ lit ''.msgpack'') \<noteq> 47"
    using assms by (cases i; cases j; simp add: lit_def)+
  then show ?thesis by (simp add: policy_path_def path_join_inj)
qed

text \<open>With the disk and the channel up, an update stores the last content sent under each policy
  id, acknowledges every policy once, in order, as applied, and touches no other file.\<close>

theorem policy_update_applied:
  assumes "\<not> ch_closed ch" "list_all (\<lambda>x. x = None) os"
    and "\<And>p. p \<in> set (pu_policies u) \<Longrightarrow> hd (pref_policy_id p @ [46]) \<noteq> 47" "hd (i @ [46]) \<noteq> 47"
    and "handle_inbound dir None os (Some (MPolicy u)) fs ch = (fs', ch')"
  shows "fs' (policy_path dir i) =
      (case find (\<lambda>p. pref_policy_id p = i) (rev (pu_policies u)) of
         Some p \<Rightarrow> Some (pref_content_compiled p)
       | None \<Rightarrow> fs (policy_path dir i))
    \<and> ch_msgs ch' = ch_msgs ch @ map (\<lambda>p. ack_message p 1 []) (pu_policies u)"
proof -
  have "apply_policies dir os (pu_policies u) fs ch = (fs', ch')" using assms(5) by (simp add: handle_inbound_def)
  note app = apply_policies_ok [OF assms(1,2) this]
  have "\<And>p. p \<in> set (pu_policies u) \<Longrightarrow>
      policy_path dir (pref_policy_id p) = policy_path dir i \<longleftrightarrow> pref_policy_id p = i"
    using policy_path_inj assms(3,4) by blast
  from fold_files [OF this, where c = pref_content_compiled and fs = fs] app show ?thesis by simp
qed

definition sample_ref :: "rstr \<Rightarrow> u8 list \<Rightarrow> policy_ref" where
  "sample_ref i c = \<lparr>pref_policy_id = i, pref_version = 1, pref_content_compiled = c, pref_content_hash = [],
     pref_priority = 0\<rparr>"

theorem policy_update_applied_witness:
  "fst (handle_inbound (lit ''d'') None [] (Some (MPolicy \<lparr>pu_policies = [sample_ref (lit ''p'') [1], sample_ref (lit ''p'') [2]],
     pu_full_replace = True, pu_remove_policy_ids = []\<rparr>)) (\<lambda>_. None) \<lparr>ch_msgs = [], ch_closed = False\<rparr>)
     (policy_path (lit ''d'') (lit ''p'')) = Some [2]"
proof -
  let ?u = "\<lparr>pu_policies = [sample_ref (lit ''p'') [1], sample_ref (lit ''p'') [2]],
     pu_full_replace = True, pu_remove_policy_ids = []\<rparr>"
  obtain fs' ch' where h: "handle_inbound (lit ''d'') None [] (Some (MPolicy ?u)) (\<lambda>_. None)
      \<lparr>ch_msgs = [], ch_closed = False\<rparr> = (fs', ch')" by fastforce
  have i: "hd (lit ''p'' @ [46]) \<noteq> 47" by (simp add: lit_def)
  have ps: "hd (pref_policy_id p @ [46]) \<noteq> 47" if "p \<in> set (pu_policies ?u)" for p
    using that i by (auto simp: sample_ref_def)
  have "fs' (policy_path (lit ''d'') (lit ''p'')) =
      (case find (\<lambda>p. pref_policy_id p = lit ''p'') (rev (pu_policies ?u)) of
         Some p \<Rightarrow> Some (pref_content_compiled p) | None \<Rightarrow> None)"
    using policy_update_applied [OF _ _ ps i h] by simp
  then show ?thesis unfolding h by (simp add: sample_ref_def)
qed

text \<open>The agent keeps the file of a policy that an update tells it to remove, by name or by a full
  replacement that no longer lists it.\<close>

theorem removed_policy_stays:
  assumes "\<not> ch_closed ch" "list_all (\<lambda>x. x = None) os"
    and "\<And>p. p \<in> set (pu_policies u) \<Longrightarrow> hd (pref_policy_id p @ [46]) \<noteq> 47" "hd (i @ [46]) \<noteq> 47"
    and "pu_full_replace u \<or> i \<in> set (pu_remove_policy_ids u)" "i \<notin> pref_policy_id ` set (pu_policies u)"
    and "handle_inbound dir None os (Some (MPolicy u)) fs ch = (fs', ch')"
  shows "fs' (policy_path dir i) = fs (policy_path dir i)"
proof -
  have "apply_policies dir os (pu_policies u) fs ch = (fs', ch')" using assms(7) by (simp add: handle_inbound_def)
  note app = apply_policies_ok [OF assms(1,2) this]
  have eq: "\<And>p. p \<in> set (pu_policies u) \<Longrightarrow>
      policy_path dir (pref_policy_id p) = policy_path dir i \<longleftrightarrow> pref_policy_id p = i"
    using policy_path_inj assms(3,4) by blast
  have "find (\<lambda>p. pref_policy_id p = i) (rev (pu_policies u)) = None"
    using assms(6) by (auto simp: find_None_iff)
  moreover have "fold (\<lambda>p g. g(policy_path dir (pref_policy_id p) := Some (pref_content_compiled p)))
      (pu_policies u) fs (policy_path dir i) =
    (case find (\<lambda>p. pref_policy_id p = i) (rev (pu_policies u)) of
       Some p \<Rightarrow> Some (pref_content_compiled p) | None \<Rightarrow> fs (policy_path dir i))"
    by (rule fold_files) (rule eq)
  ultimately show ?thesis using app by simp
qed

theorem removed_policy_stays_witness:
  "fst (handle_inbound (lit ''d'') None [] (Some (MPolicy \<lparr>pu_policies = [], pu_full_replace = True,
     pu_remove_policy_ids = [lit ''p'']\<rparr>)) (\<lambda>_. Some [1]) \<lparr>ch_msgs = [], ch_closed = False\<rparr>)
     (policy_path (lit ''d'') (lit ''p'')) = Some [1]"
proof -
  let ?u = "\<lparr>pu_policies = [], pu_full_replace = True, pu_remove_policy_ids = [lit ''p'']\<rparr>"
  obtain fs' ch' where h: "handle_inbound (lit ''d'') None [] (Some (MPolicy ?u)) (\<lambda>_. Some [1])
      \<lparr>ch_msgs = [], ch_closed = False\<rparr> = (fs', ch')" by fastforce
  have "hd (lit ''p'' @ [46]) \<noteq> 47" by (simp add: lit_def)
  from removed_policy_stays [OF _ _ _ this _ _ h] show ?thesis unfolding h by simp
qed

end
