(* ===== verification/Policy_Rules.thy ===== *)
theory Policy_Rules
  imports Prelude
begin

text \<open>
  The rules of a policy, \<open>scrooge-policy/src/rules.rs\<close>: their data types, the size parser of the
  conditions with its \<open>u64\<close> arithmetic, and the validation of a rule. Compiling a regex is a
  parameter (\<open>regex_new\<close>, the error of \<open>regex::Regex::new\<close> or none), as is the upper
  case of chars beyond ASCII (\<open>up\<close>).
\<close>

section \<open>Data\<close>

datatype severity = Low | Medium | High | Critical

datatype action = LogOnly | LogAndAlert | WarnUser | Block | Quarantine | LockWorkstation | KillProcess

datatype source =
    SrcUsb (src_except_serials: "rstr list")
  | SrcNetworkDownload (src_domains: "rstr list") (src_domains_except: "rstr list")
  | SrcEmailAttachment
  | SrcDirectory (src_paths: "rstr list") (src_recursive: bool)
  | SrcFileMatch (src_classifiers: "rstr list")
  | SrcAny

datatype destination =
    DstDirectory (dst_paths: "rstr list") (dst_recursive: bool)
  | DstUsb (dst_except_serials: "rstr list")
  | DstNetworkUpload (dst_domains: "rstr list")
  | DstClipboard
  | DstPrint
  | DstAnyExternal
  | DstAny

type_synonym file_size = u64

record conditions =
  file_size_min :: "file_size option"
  file_size_max :: "file_size option"
  file_extensions :: "rstr list"
  filename_regex :: "rstr option"
  path_regex :: "rstr option"

record rule =
  rule_id :: rstr
  rule_name :: rstr
  rule_enabled :: bool
  rule_severity :: severity
  rule_sources :: "source list"
  rule_destinations :: "destination list"
  rule_conditions :: "conditions option"
  rule_action :: action
  rule_forward_to_siem :: bool
  rule_notify_user :: bool
  rule_message :: "rstr option"

text \<open>\<open>PolicyError\<close>, the messages as constructors over what they quote. The errors of the YAML,
  MessagePack and regex crates are carried as they are.\<close>

datatype validation_error =
    UnsupportedApiVersion rstr
  | UnsupportedKind rstr
  | EmptyName
  | BadName rstr
  | DuplicateRuleId rstr rstr
  | EmptyRuleId
  | BadRuleId rstr

datatype policy_error =
    YamlError rstr
  | ValidationError validation_error
  | MsgpackError rstr
  | RegexCompileError rstr rstr

section \<open>File sizes\<close>

definition trim_start :: "rstr \<Rightarrow> rstr" where
  "trim_start s = dropWhile is_whitespace s"

definition trim_end :: "rstr \<Rightarrow> rstr" where
  "trim_end s = rev (dropWhile is_whitespace (rev s))"

definition trim :: "rstr \<Rightarrow> rstr" where
  "trim s = trim_end (trim_start s)"

definition to_uppercase :: "(rchar \<Rightarrow> rstr) \<Rightarrow> rstr \<Rightarrow> rstr" where
  "to_uppercase up s =
     concat (map (\<lambda>c. if c < 128 then [if is_ascii_lowercase c then c - 32 else c] else up c) s)"

text \<open>\<open>str::parse::<u64>\<close> on a run of ASCII digits: it fails on the empty string and on overflow.\<close>

definition digits_value :: "rstr \<Rightarrow> nat" where
  "digits_value s = foldl (\<lambda>n c. n * 10 + (c - 48)) 0 s"

definition parse_u64 :: "rstr \<Rightarrow> u64 option" where
  "parse_u64 s = (if s = [] \<or> 2 ^ 64 \<le> digits_value s then None else Some (of_nat (digits_value s)))"

datatype size_error = InvalidNumber rstr | UnknownUnit rstr

definition parse_size :: "(rchar \<Rightarrow> rstr) \<Rightarrow> rstr \<Rightarrow> size_error + u64" where
  "parse_size up s =
     (let s = trim s;
          num_part = takeWhile is_ascii_digit s;
          unit_part = dropWhile is_ascii_digit s
      in res_bind (ok_or (InvalidNumber num_part) (parse_u64 num_part)) (\<lambda>num.
         let unit = to_uppercase up (trim unit_part)
         in res_bind
              (if unit = [] \<or> unit = lit ''B'' then Inr 1
               else if unit = lit ''KB'' \<or> unit = lit ''K'' then Inr 1024
               else if unit = lit ''MB'' \<or> unit = lit ''M'' then Inr (1024 * 1024)
               else if unit = lit ''GB'' \<or> unit = lit ''G'' then Inr (1024 * 1024 * 1024)
               else Inl (UnknownUnit unit))
              (\<lambda>multiplier. Inr (num * multiplier))))"

text \<open>The value the YAML crate hands to \<open>FileSize::deserialize\<close>; of a number only \<open>as_u64\<close>
  is used.\<close>

datatype yaml_value = YNumber "u64 option" | YString rstr | YOther

datatype file_size_error = NegativeSize | BadSize size_error | NotSize

definition file_size_deserialize :: "(rchar \<Rightarrow> rstr) \<Rightarrow> yaml_value \<Rightarrow> file_size_error + file_size" where
  "file_size_deserialize up v =
     (case v of
        YNumber n \<Rightarrow> ok_or NegativeSize n
      | YString s \<Rightarrow> map_err BadSize (parse_size up s)
      | YOther \<Rightarrow> Inl NotSize)"

section \<open>Validation of a rule\<close>

definition slug_char :: "rchar \<Rightarrow> bool" where
  "slug_char c \<longleftrightarrow> is_ascii_lowercase c \<or> is_ascii_digit c \<or> c = 45"

text \<open>One optional regex of the conditions, with the field name its error carries.\<close>

definition check_regex :: "(rstr \<Rightarrow> rstr option) \<Rightarrow> rstr \<Rightarrow> rstr option \<Rightarrow> policy_error + unit" where
  "check_regex regex_new field re =
     (case re of
        None \<Rightarrow> Inr ()
      | Some r \<Rightarrow> (case regex_new r of Some e \<Rightarrow> Inl (RegexCompileError field e) | None \<Rightarrow> Inr ()))"

definition rule_validate :: "(rstr \<Rightarrow> rstr option) \<Rightarrow> rule \<Rightarrow> policy_error + unit" where
  "rule_validate regex_new r =
     (if rule_id r = [] then Inl (ValidationError EmptyRuleId)
      else if \<not> list_all slug_char (rule_id r) then Inl (ValidationError (BadRuleId (rule_id r)))
      else case rule_conditions r of
        None \<Rightarrow> Inr ()
      | Some conds \<Rightarrow>
          res_bind (check_regex regex_new (lit ''rule['' @ rule_id r @ lit ''].conditions.filename_regex'')
              (filename_regex conds)) (\<lambda>_.
            check_regex regex_new (lit ''rule['' @ rule_id r @ lit ''].conditions.path_regex'')
              (path_regex conds)))"

section \<open>Sizes\<close>

text \<open>What a size means: a number and the factor of its unit, as natural numbers.\<close>

definition unit_factor :: "rstr \<Rightarrow> nat option" where
  "unit_factor unit =
     (if unit = [] \<or> unit = lit ''B'' then Some 1
      else if unit = lit ''KB'' \<or> unit = lit ''K'' then Some 1024
      else if unit = lit ''MB'' \<or> unit = lit ''M'' then Some (1024 ^ 2)
      else if unit = lit ''GB'' \<or> unit = lit ''G'' then Some (1024 ^ 3) else None)"

lemma parse_size_eq:
  "parse_size up s =
     (let num = takeWhile is_ascii_digit (trim s);
          unit = to_uppercase up (trim (dropWhile is_ascii_digit (trim s)))
      in if num = [] \<or> 2 ^ 64 \<le> digits_value num then Inl (InvalidNumber num)
         else case unit_factor unit of
           None \<Rightarrow> Inl (UnknownUnit unit)
         | Some k \<Rightarrow> Inr (of_nat (digits_value num * k)))"
  by (simp add: parse_size_def parse_u64_def unit_factor_def Let_def)

lemma trim_start_digits: "d \<noteq> [] \<Longrightarrow> list_all is_ascii_digit d \<Longrightarrow> trim_start (d @ t) = d @ t"
  by (cases d) (auto simp: trim_start_def is_whitespace_def is_ascii_digit_def)

lemma takeWhile_digits: "list_all is_ascii_digit d \<Longrightarrow> t = [] \<or> \<not> is_ascii_digit (hd t) \<Longrightarrow>
    takeWhile is_ascii_digit (d @ t) = d \<and> dropWhile is_ascii_digit (d @ t) = t"
  by (cases t) (auto simp: list_all_iff takeWhile_append dropWhile_append takeWhile_eq_all_conv)

lemma letter_props: "is_ascii_lowercase c \<or> is_ascii_uppercase c \<Longrightarrow>
    \<not> is_whitespace c \<and> \<not> is_ascii_digit c"
  by (auto simp: ascii_class_defs is_whitespace_def)

text \<open>A number, optional blanks and a unit in any case.\<close>

lemma parse_size_spec:
  assumes d: "d \<noteq> []" "list_all is_ascii_digit d" "digits_value d < 2 ^ 64"
    and u: "u \<noteq> []" "list_all (\<lambda>c. is_ascii_lowercase c \<or> is_ascii_uppercase c) u"
    and k: "unit_factor (to_uppercase up u) = Some k"
  shows "parse_size up (d @ replicate n 32 @ u) = Inr (of_nat (digits_value d * k))"
proof -
  let ?t = "replicate n 32 @ u"
  have nws: "\<not> is_whitespace (hd u)" "\<not> is_whitespace (last u)" "\<not> is_ascii_digit (hd u)"
    using u letter_props [of "hd u"] letter_props [of "last u"] by (simp_all add: list_all_iff)
  have te: "trim_end (x @ u) = x @ u" for x
    using u(1) nws(2) by (cases u rule: rev_cases) (auto simp: trim_end_def)
  have ts: "trim_start ?t = u"
    using u(1) nws(1) by (cases u) (auto simp: trim_start_def dropWhile_append is_whitespace_def)
  have "hd ?t = 32 \<or> hd ?t = hd u" by (cases n) auto
  then have "\<not> is_ascii_digit (hd ?t)" using nws(3) by (auto simp: is_ascii_digit_def)
  then have "takeWhile is_ascii_digit (d @ ?t) = d \<and> dropWhile is_ascii_digit (d @ ?t) = ?t"
    using takeWhile_digits [OF d(2)] by blast
  moreover have "trim (d @ ?t) = d @ ?t"
    using te [of "d @ replicate n 32"] trim_start_digits [OF d(1,2)] by (simp add: trim_def)
  moreover have "trim ?t = u" using te [of "[]"] ts by (simp add: trim_def)
  ultimately show ?thesis using d k by (simp add: parse_size_eq Let_def not_le)
qed

text \<open>A size written as a number, blanks and a unit in any case parses to the number times the
  unit, modulo \<open>2 ^ 64\<close>: exactly that product when it fits \<open>u64\<close>, a smaller size when not.\<close>

theorem parse_size_value:
  assumes "d \<noteq> []" "list_all is_ascii_digit d" "digits_value d < 2 ^ 64"
    and "u \<noteq> []" "list_all (\<lambda>c. is_ascii_lowercase c \<or> is_ascii_uppercase c) u"
    and "unit_factor (to_uppercase up u) = Some k"
  shows "\<exists>v. parse_size up (d @ replicate n 32 @ u) = Inr v \<and> unat v = (digits_value d * k) mod 2 ^ 64
    \<and> (digits_value d * k < 2 ^ 64 \<longrightarrow> unat v = digits_value d * k)"
proof -
  have "unat (of_nat m :: u64) = m mod 2 ^ 64" for m
    by (simp add: unsigned_of_nat take_bit_eq_mod)
  from this [of "digits_value d * k"] parse_size_spec [OF assms] show ?thesis by (metis mod_less)
qed

theorem parse_size_value_witness:
  "\<exists>v. parse_size (\<lambda>c. [c]) (lit ''2'' @ replicate 1 32 @ lit ''mb'') = Inr v
    \<and> unat v = (digits_value (lit ''2'') * 1024 ^ 2) mod 2 ^ 64
    \<and> (digits_value (lit ''2'') * 1024 ^ 2 < 2 ^ 64 \<longrightarrow> unat v = digits_value (lit ''2'') * 1024 ^ 2)"
proof (rule parse_size_value)
  show "digits_value (lit ''2'') < 2 ^ 64" by (simp add: digits_value_def lit_def)
  show "unit_factor (to_uppercase (\<lambda>c. [c]) (lit ''mb'')) = Some (1024 ^ 2)"
    by (simp add: unit_factor_def to_uppercase_def lit_def is_ascii_lowercase_def)
qed (code_simp+)

text \<open>The product overflows: a maximal size of \<open>17179869184GB\<close> is accepted as 0 bytes.\<close>

theorem parse_size_wraps_to_zero: "parse_size up (lit ''17179869184GB'') = Inr 0"
proof -
  have "parse_size up (lit ''17179869184'' @ replicate 0 32 @ lit ''GB'') =
      Inr (of_nat (digits_value (lit ''17179869184'') * 1024 ^ 3))"
  proof (rule parse_size_spec)
    show "digits_value (lit ''17179869184'') < 2 ^ 64" by (simp add: digits_value_def lit_def)
    show "unit_factor (to_uppercase up (lit ''GB'')) = Some (1024 ^ 3)"
      by (simp add: unit_factor_def to_uppercase_def lit_def is_ascii_lowercase_def)
  qed (code_simp+)
  moreover have "of_nat (digits_value (lit ''17179869184'') * 1024 ^ 3) = (0 :: u64)"
    by (simp add: digits_value_def lit_def)
  moreover have "lit ''17179869184'' @ replicate 0 32 @ lit ''GB'' = lit ''17179869184GB''" by (simp add: lit_def)
  ultimately show ?thesis by simp
qed

end
