(* ===== verification/Policy_Doc.thy ===== *)
theory Policy_Doc
  imports Policy_Rules
begin

text \<open>
  A policy document, \<open>scrooge-policy/src/lib.rs\<close>, its validation, and its compilation,
  \<open>compile.rs\<close>. The YAML parser, the MessagePack encoder and decoder and SHA-256 are
  parameters. A \<open>HashMap\<close> is the list of its entries in the order it iterates over them, which
  Rust does not fix; two maps are equal when they hold the same entries.
\<close>

section \<open>Data\<close>

record metadata =
  md_name :: rstr
  md_description :: "rstr option"
  md_version :: u32

record target_match =
  tm_os :: "rstr list"
  tm_tags :: "(rstr \<times> rstr) list"
  tm_groups :: "rstr list"
  tm_agent_ids :: "rstr list"

record target_exclude =
  te_hostnames :: "rstr list"
  te_agent_ids :: "rstr list"

record targets =
  t_match :: target_match
  t_exclude :: target_exclude

record policy_rules =
  pr_inbound :: "rule list"
  pr_outbound :: "rule list"

record file_patterns =
  fp_include :: "rstr list"
  fp_exclude :: "rstr list"

record monitored_path =
  mp_path :: rstr
  mp_recursive :: bool
  mp_events :: "rstr list"
  mp_file_patterns :: file_patterns

record policy =
  api_version :: rstr
  kind :: rstr
  p_metadata :: metadata
  p_targets :: targets
  p_priority :: "32 word"
  p_rules :: policy_rules
  p_monitored_paths :: "monitored_path list"
  p_classifiers :: "rstr list"

definition default_version :: u32 where
  "default_version = 1"

definition default_file_events :: "rstr list" where
  "default_file_events = [lit ''create'', lit ''modify'', lit ''delete'', lit ''rename'']"

section \<open>Validation\<close>

fun validate_rules :: "(rstr \<Rightarrow> rstr option) \<Rightarrow> rstr \<Rightarrow> rstr list \<Rightarrow> rule list \<Rightarrow> policy_error + unit" where
  "validate_rules regex_new name ids [] = Inr ()"
| "validate_rules regex_new name ids (r # rs) =
     (if rule_id r \<in> set ids then Inl (ValidationError (DuplicateRuleId (rule_id r) name))
      else res_bind (rule_validate regex_new r)
             (\<lambda>_. validate_rules regex_new name (rule_id r # ids) rs))"

definition policy_validate :: "(rstr \<Rightarrow> rstr option) \<Rightarrow> policy \<Rightarrow> policy_error + unit" where
  "policy_validate regex_new p =
     (if api_version p \<noteq> lit ''scroogedlp.io/v1''
      then Inl (ValidationError (UnsupportedApiVersion (api_version p)))
      else if kind p \<noteq> lit ''Policy'' then Inl (ValidationError (UnsupportedKind (kind p)))
      else if md_name (p_metadata p) = [] then Inl (ValidationError EmptyName)
      else if \<not> list_all slug_char (md_name (p_metadata p))
      then Inl (ValidationError (BadName (md_name (p_metadata p))))
      else validate_rules regex_new (md_name (p_metadata p)) []
             (pr_inbound (p_rules p) @ pr_outbound (p_rules p)))"

definition from_yaml ::
  "(rstr \<Rightarrow> rstr + policy) \<Rightarrow> (rstr \<Rightarrow> rstr option) \<Rightarrow> rstr \<Rightarrow> policy_error + policy" where
  "from_yaml parse regex_new yaml =
     res_bind (map_err YamlError (parse yaml)) (\<lambda>p.
     res_bind (policy_validate regex_new p) (\<lambda>_. Inr p))"

section \<open>Compilation\<close>

record compiled_policy =
  cp_name :: rstr
  cp_version :: u32
  cp_msgpack :: "u8 list"
  cp_hash :: rstr

text \<open>Lower-case hex of the digest bytes.\<close>

definition hex_digit :: "nat \<Rightarrow> rchar" where
  "hex_digit n = (if n < 10 then 48 + n else 87 + n)"

definition hex_bytes :: "u8 list \<Rightarrow> rstr" where
  "hex_bytes bs = concat (map (\<lambda>b. [hex_digit (unat b div 16), hex_digit (unat b mod 16)]) bs)"

definition sha256_hex :: "(u8 list \<Rightarrow> u8 list) \<Rightarrow> u8 list \<Rightarrow> rstr" where
  "sha256_hex sha256 bytes = hex_bytes (sha256 bytes)"

definition from_policy ::
  "(policy \<Rightarrow> rstr + u8 list) \<Rightarrow> (u8 list \<Rightarrow> u8 list) \<Rightarrow> policy \<Rightarrow> policy_error + compiled_policy" where
  "from_policy to_vec sha256 p =
     res_bind (map_err MsgpackError (to_vec p)) (\<lambda>msgpack.
     Inr \<lparr>cp_name = md_name (p_metadata p), cp_version = md_version (p_metadata p),
          cp_msgpack = msgpack, cp_hash = sha256_hex sha256 msgpack\<rparr>)"

definition policy_compile ::
  "(policy \<Rightarrow> rstr + u8 list) \<Rightarrow> (u8 list \<Rightarrow> u8 list) \<Rightarrow> policy \<Rightarrow> policy_error + compiled_policy" where
  "policy_compile to_vec sha256 p = from_policy to_vec sha256 p"

definition policy_decode :: "(u8 list \<Rightarrow> rstr + policy) \<Rightarrow> compiled_policy \<Rightarrow> rstr + policy" where
  "policy_decode from_slice c = from_slice (cp_msgpack c)"

text \<open>\<open>PartialEq\<close> of policies: the tags are compared as maps.\<close>

definition policy_eq :: "policy \<Rightarrow> policy \<Rightarrow> bool" where
  "policy_eq p q \<longleftrightarrow>
     (let tp = tm_tags (t_match (p_targets p)); tq = tm_tags (t_match (p_targets q))
      in (\<forall>k \<in> fst ` (set tp \<union> set tq). map_of tp k = map_of tq k)
         \<and> p\<lparr>p_targets := (p_targets p)\<lparr>t_match := (t_match (p_targets p))\<lparr>tm_tags := tq\<rparr>\<rparr>\<rparr> = q)"

section \<open>What a valid policy is\<close>

definition slug :: "rstr \<Rightarrow> bool" where
  "slug s \<longleftrightarrow> s \<noteq> [] \<and> list_all slug_char s"

definition regex_ok :: "(rstr \<Rightarrow> rstr option) \<Rightarrow> rstr option \<Rightarrow> bool" where
  "regex_ok regex_new re \<longleftrightarrow> (case re of None \<Rightarrow> True | Some r \<Rightarrow> regex_new r = None)"

definition rule_valid :: "(rstr \<Rightarrow> rstr option) \<Rightarrow> rule \<Rightarrow> bool" where
  "rule_valid regex_new r \<longleftrightarrow> slug (rule_id r) \<and>
     (case rule_conditions r of None \<Rightarrow> True
      | Some c \<Rightarrow> regex_ok regex_new (filename_regex c) \<and> regex_ok regex_new (path_regex c))"

lemma check_regex_ok [simp]: "check_regex regex_new f re = Inr u \<longleftrightarrow> regex_ok regex_new re"
  by (auto simp: check_regex_def regex_ok_def split: option.splits)

lemma rule_validate_ok: "rule_validate regex_new r = Inr () \<longleftrightarrow> rule_valid regex_new r"
  by (auto simp: rule_validate_def rule_valid_def slug_def res_bind_Inr_iff split: option.splits)

lemma validate_rules_ok:
  "validate_rules regex_new name ids rs = Inr () \<longleftrightarrow>
     distinct (map rule_id rs) \<and> set ids \<inter> rule_id ` set rs = {} \<and> list_all (rule_valid regex_new) rs"
proof (induction regex_new name ids rs rule: validate_rules.induct)
  case (2 regex_new name ids r rs)
  have "res_bind (rule_validate regex_new r) (\<lambda>_. validate_rules regex_new name (rule_id r # ids) rs) = Inr ()
      \<longleftrightarrow> rule_validate regex_new r = Inr () \<and> validate_rules regex_new name (rule_id r # ids) rs = Inr ()"
    by (auto simp: res_bind_Inr_iff)
  with 2 show ?case by (auto simp: rule_validate_ok)
qed simp

text \<open>Validation accepts exactly the policies of the supported version and kind, with a slug for
  a name, rule ids that are slugs and distinct across both directions, and regexes that compile.\<close>

theorem policy_validate_iff:
  "policy_validate regex_new p = Inr () \<longleftrightarrow>
     api_version p = lit ''scroogedlp.io/v1'' \<and> kind p = lit ''Policy'' \<and> slug (md_name (p_metadata p))
     \<and> (let rs = pr_inbound (p_rules p) @ pr_outbound (p_rules p)
        in distinct (map rule_id rs) \<and> list_all (rule_valid regex_new) rs)"
  by (auto simp: policy_validate_def validate_rules_ok slug_def Let_def)

text \<open>The error of a rejected policy names the first rule that is wrong: all before it are valid
  with distinct ids, and it repeats an earlier id or fails its own validation.\<close>

theorem validate_rules_first_error:
  assumes "validate_rules regex_new name [] rs = Inl e"
  shows "\<exists>as r bs. rs = as @ r # bs \<and> validate_rules regex_new name [] as = Inr () \<and>
    (if rule_id r \<in> rule_id ` set as then e = ValidationError (DuplicateRuleId (rule_id r) name)
     else rule_validate regex_new r = Inl e)"
proof -
  have "\<exists>as r bs. rs = as @ r # bs \<and> validate_rules regex_new name ids as = Inr () \<and>
      (if rule_id r \<in> set ids \<union> rule_id ` set as then e = ValidationError (DuplicateRuleId (rule_id r) name)
       else rule_validate regex_new r = Inl e)"
    if "validate_rules regex_new name ids rs = Inl e" for ids
    using that
  proof (induction rs arbitrary: ids)
    case (Cons r rs)
    show ?case
    proof (cases "rule_id r \<in> set ids \<or> (\<exists>e. rule_validate regex_new r = Inl e)")
      case True
      with Cons.prems show ?thesis
        by (intro exI [of _ "[]"] exI [of _ r] exI [of _ rs]) (auto split: if_splits)
    next
      case False
      then have ok: "rule_id r \<notin> set ids" "rule_validate regex_new r = Inr ()"
        by (auto, cases "rule_validate regex_new r") auto
      with Cons.prems have "validate_rules regex_new name (rule_id r # ids) rs = Inl e" by simp
      from Cons.IH [OF this] obtain as s bs where IH: "rs = as @ s # bs"
        "validate_rules regex_new name (rule_id r # ids) as = Inr ()"
        "if rule_id s \<in> set (rule_id r # ids) \<union> rule_id ` set as
         then e = ValidationError (DuplicateRuleId (rule_id s) name) else rule_validate regex_new s = Inl e"
        by blast
      then show ?thesis using ok
        by (intro exI [of _ "r # as"] exI [of _ s] exI [of _ bs]) auto
    qed
  qed simp
  from this [OF assms] show ?thesis by simp
qed

definition sample_rule :: "rstr \<Rightarrow> rule" where
  "sample_rule i = \<lparr>rule_id = i, rule_name = lit ''r'', rule_enabled = True, rule_severity = High,
     rule_sources = [SrcAny], rule_destinations = [DstClipboard], rule_conditions = None, rule_action = Block,
     rule_forward_to_siem = False, rule_notify_user = True, rule_message = None\<rparr>"

theorem validate_rules_first_error_witness:
  "\<exists>as r bs. [sample_rule (lit ''a''), sample_rule (lit ''b''), sample_rule (lit ''a'')] = as @ r # bs \<and>
    validate_rules (\<lambda>_. None) (lit ''p'') [] as = Inr () \<and>
    (if rule_id r \<in> rule_id ` set as
     then ValidationError (DuplicateRuleId (lit ''a'') (lit ''p'')) = ValidationError (DuplicateRuleId (rule_id r) (lit ''p''))
     else rule_validate (\<lambda>_. None) r = Inl (ValidationError (DuplicateRuleId (lit ''a'') (lit ''p''))))"
  by (rule validate_rules_first_error) code_simp

section \<open>Compiled policies\<close>

lemma from_policy_ok:
  "from_policy to_vec sha256 p = Inr c \<longleftrightarrow> (\<exists>b. to_vec p = Inr b \<and>
     c = \<lparr>cp_name = md_name (p_metadata p), cp_version = md_version (p_metadata p),
          cp_msgpack = b, cp_hash = sha256_hex sha256 b\<rparr>)"
  by (cases "to_vec p") (auto simp: from_policy_def)

lemma hex_bytes_shape:
  "length (hex_bytes bs) = 2 * length bs \<and>
   list_all (\<lambda>c. is_ascii_digit c \<or> (97 \<le> c \<and> c \<le> 102)) (hex_bytes bs)"
proof (induction bs)
  case (Cons b bs)
  have "unat b < 256" using unsigned_less [of b] by simp
  then have "unat b div 16 < 16" "unat b mod 16 < 16" by simp_all
  with Cons show ?case by (auto simp: hex_bytes_def hex_digit_def is_ascii_digit_def)
qed (simp add: hex_bytes_def)

text \<open>Two policies that are equal, their two tags iterated in different orders, compile to
  different payloads: the encoder writes the entries of a map in iteration order, so the payload is
  not a function of the policy.\<close>

theorem compile_depends_on_map_order:
  assumes tags: "tm_tags (t_match (p_targets p)) = [(k, v), (l, w)]" "k \<noteq> l"
    and q: "q = p\<lparr>p_targets := (p_targets p)\<lparr>t_match := (t_match (p_targets p))\<lparr>tm_tags := [(l, w), (k, v)]\<rparr>\<rparr>\<rparr>"
    and enc: "inj_on to_vec {p, q}"
    and c: "policy_compile to_vec sha256 p = Inr c" "policy_compile to_vec sha256 q = Inr d"
  shows "policy_eq p q \<and> cp_msgpack c \<noteq> cp_msgpack d"
proof
  show "policy_eq p q" using tags q by (auto simp: policy_eq_def Let_def)
  have "tm_tags (t_match (p_targets q)) = [(l, w), (k, v)]" using q by simp
  then have "p \<noteq> q" using tags by auto
  then have "to_vec p \<noteq> to_vec q" using enc by (simp add: inj_on_def)
  then show "cp_msgpack c \<noteq> cp_msgpack d"
    using c by (auto simp: policy_compile_def from_policy_ok)
qed

definition sample_policy :: "rstr \<Rightarrow> (rstr \<times> rstr) list \<Rightarrow> policy" where
  "sample_policy name tags = \<lparr>api_version = lit ''scroogedlp.io/v1'', kind = lit ''Policy'',
     p_metadata = \<lparr>md_name = name, md_description = None, md_version = default_version\<rparr>,
     p_targets = \<lparr>t_match = \<lparr>tm_os = [], tm_tags = tags, tm_groups = [], tm_agent_ids = []\<rparr>,
       t_exclude = \<lparr>te_hostnames = [], te_agent_ids = []\<rparr>\<rparr>,
     p_priority = 0, p_rules = \<lparr>pr_inbound = [], pr_outbound = [sample_rule (lit ''a'')]\<rparr>,
     p_monitored_paths = [], p_classifiers = []\<rparr>"

theorem compile_depends_on_map_order_witness:
  "policy_eq (sample_policy (lit ''p'') [(lit ''dep'', lit ''hr''), (lit ''site'', lit ''x'')])
     (sample_policy (lit ''p'') [(lit ''site'', lit ''x''), (lit ''dep'', lit ''hr'')]) \<and> [0 :: u8] \<noteq> [1]"
proof -
  let ?p = "sample_policy (lit ''p'') [(lit ''dep'', lit ''hr''), (lit ''site'', lit ''x'')]"
  let ?q = "sample_policy (lit ''p'') [(lit ''site'', lit ''x''), (lit ''dep'', lit ''hr'')]"
  let ?enc = "\<lambda>x. Inr (if x = ?p then [0] else [1]) :: rstr + u8 list"
  have tags: "tm_tags (t_match (p_targets ?p)) = [(lit ''dep'', lit ''hr''), (lit ''site'', lit ''x'')]"
    by (simp add: sample_policy_def)
  have q: "?q = ?p\<lparr>p_targets := (p_targets ?p)\<lparr>t_match := (t_match (p_targets ?p))
      \<lparr>tm_tags := [(lit ''site'', lit ''x''), (lit ''dep'', lit ''hr'')]\<rparr>\<rparr>\<rparr>"
    by (simp add: sample_policy_def)
  have ne: "?q \<noteq> ?p" by (simp add: sample_policy_def)
  then have inj: "inj_on ?enc {?p, ?q}" by (simp add: inj_on_def)
  obtain c d where "policy_compile ?enc id ?p = Inr c" "cp_msgpack c = [0]"
    "policy_compile ?enc id ?q = Inr d" "cp_msgpack d = [1]"
    using ne by (simp add: policy_compile_def from_policy_ok)
  with compile_depends_on_map_order [OF tags _ q inj, of id c d] show ?thesis by simp
qed

end
