(* ===== verification/Manager_Db.thy ===== *)
theory Manager_Db
  imports Policy_Doc Agent_Files
begin

text \<open>
  The tables of the manager's PostgreSQL database, \<open>src/migrations\<close>, as lists of rows, with the
  SQL statements of \<open>scrooge-manager-bin/src/grpc.rs\<close> and \<open>scrooge-manager-api/src\<close> as functions on
  them. A statement runs atomically; its outcome is an argument of the handler that runs it (\<open>Some e\<close>:
  it fails with \<open>e\<close> and changes nothing), and the violation of a constraint of the schema is an error
  of its own. Times are numbers; the clock is an argument.
\<close>

section \<open>Rows\<close>

datatype json =
    JNull | JBool bool | JNum int | JStr rstr | JArr "json list" | JObj "(rstr \<times> json) list"

record agent_row =
  ag_id :: uuid
  ag_hostname :: rstr
  ag_os :: rstr
  ag_os_version :: rstr
  ag_arch :: rstr
  ag_agent_version :: rstr
  ag_enrolled_at :: int
  ag_last_seen :: "int option"
  ag_status :: rstr
  ag_cert_fingerprint :: rstr

record policy_row =
  po_name :: rstr
  po_version :: int
  po_content_yaml :: rstr
  po_content_compiled :: "u8 list"
  po_content_hash :: rstr
  po_targets :: json
  po_priority :: int
  po_enabled :: bool
  po_created_at :: int
  po_updated_at :: int
  po_created_by :: "uuid option"
  po_updated_by :: "uuid option"

record history_row =
  hi_id :: int
  hi_policy_name :: rstr
  hi_version :: int
  hi_content_yaml :: rstr
  hi_changed_by :: "uuid option"
  hi_changed_at :: int
  hi_change_reason :: "rstr option"

record assignment_row =
  pas_agent_id :: uuid
  pas_policy_name :: rstr
  pas_assigned_version :: int
  pas_acked_version :: "int option"
  pas_last_pushed_at :: "int option"

record event_row =
  er_id :: uuid
  er_timestamp :: int
  er_agent_id :: uuid
  er_event_type :: rstr
  er_severity :: rstr
  er_direction :: "rstr option"
  er_matched_policy :: "rstr option"
  er_matched_rule :: "rstr option"
  er_action_taken :: "rstr option"
  er_details :: json
  er_forwarded_to_syslog :: bool

record user_row =
  us_id :: uuid
  us_username :: rstr
  us_password_hash :: rstr
  us_role :: rstr
  us_last_login :: "int option"
  us_enabled :: bool

record refresh_row =
  rt_token_hash :: rstr
  rt_user_id :: uuid
  rt_expires_at :: int
  rt_revoked :: bool

record enrollment_row =
  et_token_hash :: rstr
  et_description :: "rstr option"
  et_expires_at :: "int option"
  et_max_uses :: "int option"
  et_uses_count :: int
  et_created_by :: "uuid option"

record db =
  db_agents :: "agent_row list"
  db_policies :: "policy_row list"
  db_history :: "history_row list"
  db_history_seq :: int
  db_assignments :: "assignment_row list"
  db_events :: "event_row list"
  db_users :: "user_row list"
  db_refresh :: "refresh_row list"
  db_enrollment :: "enrollment_row list"

text \<open>\<open>sqlx::Error\<close>: what the driver reports, no row where one is required, or a violated constraint.\<close>

datatype sqlx_error = SqlDriver rstr | SqlRowNotFound | SqlConstraint rstr

type_synonym outcome = "rstr option"

definition sql_exec :: "outcome \<Rightarrow> (db \<Rightarrow> db) \<Rightarrow> db \<Rightarrow> (sqlx_error + unit) \<times> db" where
  "sql_exec out stmt d = (case out of Some e \<Rightarrow> (Inl (SqlDriver e), d) | None \<Rightarrow> (Inr (), stmt d))"

definition sql_query :: "outcome \<Rightarrow> (db \<Rightarrow> 'a) \<Rightarrow> db \<Rightarrow> sqlx_error + 'a" where
  "sql_query out q d = (case out of Some e \<Rightarrow> Inl (SqlDriver e) | None \<Rightarrow> Inr (q d))"

lemma sql_exec_simps [simp]:
  "sql_exec (Some e) stmt d = (Inl (SqlDriver e), d)" "sql_exec None stmt d = (Inr (), stmt d)"
  by (simp_all add: sql_exec_def)

lemma sql_query_simps [simp]:
  "sql_query (Some e) q d = Inl (SqlDriver e)" "sql_query None q d = Inr (q d)"
  by (simp_all add: sql_query_def)

text \<open>\<open>i32\<close> arithmetic as a release build does it.\<close>

definition wrap_i32 :: "int \<Rightarrow> int" where
  "wrap_i32 i = (i + 2 ^ 31) mod 2 ^ 32 - 2 ^ 31"

definition is_i32 :: "int \<Rightarrow> bool" where
  "is_i32 i \<longleftrightarrow> - (2 ^ 31) \<le> i \<and> i < 2 ^ 31"

lemma wrap_i32_id: "is_i32 i \<Longrightarrow> wrap_i32 i = i"
  by (simp add: wrap_i32_def is_i32_def)

lemma is_i32_wrap: "is_i32 (wrap_i32 i)"
proof -
  have "0 \<le> (i + 2 ^ 31) mod 2 ^ 32" "(i + 2 ^ 31) mod 2 ^ 32 < 2 ^ 32" by simp_all
  then show ?thesis by (simp add: wrap_i32_def is_i32_def)
qed

text \<open>\<open>u32::try_from(i32)\<close> and back.\<close>

definition u32_of_i32 :: "int \<Rightarrow> u32 option" where
  "u32_of_i32 i = (if 0 \<le> i then Some (of_int i) else None)"

definition i32_of_u32 :: "u32 \<Rightarrow> int option" where
  "i32_of_u32 w = (if unat w < 2 ^ 31 then Some (int (unat w)) else None)"

definition unwrap_or :: "'a \<Rightarrow> 'a option \<Rightarrow> 'a" where
  "unwrap_or d x = (case x of Some a \<Rightarrow> a | None \<Rightarrow> d)"

lemma unwrap_or_simps [simp]: "unwrap_or d (Some a) = a" "unwrap_or d None = d"
  by (simp_all add: unwrap_or_def)

lemma version_roundtrip:
  assumes "0 \<le> v" "is_i32 v"
  shows "unwrap_or 0 (i32_of_u32 (unwrap_or 0 (u32_of_i32 v))) = v"
proof -
  have lt: "nat v < 2 ^ LENGTH(32)" using assms by (simp add: is_i32_def)
  have "(of_int v :: u32) = of_nat (nat v)" using assms(1) by simp
  then have "unat (of_int v :: u32) = nat v" using unat_of_nat_small [OF lt] by (simp only:)
  then show ?thesis using assms by (simp add: u32_of_i32_def i32_of_u32_def is_i32_def nat_less_iff)
qed

section \<open>Updating rows\<close>

definition upd :: "('r \<Rightarrow> bool) \<Rightarrow> ('r \<Rightarrow> 'r) \<Rightarrow> 'r list \<Rightarrow> 'r list" where
  "upd P f rs = map (\<lambda>r. if P r then f r else r) rs"

lemma upd_simps [simp]:
  "upd P f [] = []" "upd P f (r # rs) = (if P r then f r else r) # upd P f rs"
  "upd P f (rs @ ss) = upd P f rs @ upd P f ss" "length (upd P f rs) = length rs"
  by (simp_all add: upd_def)

lemma find_upd:
  assumes "\<And>r. Q (f r) = Q r"
  shows "find Q (upd P f rs) = map_option (\<lambda>r. if P r then f r else r) (find Q rs)"
  by (induction rs) (auto simp: assms)

lemma find_SomeD: "find P xs = Some x \<Longrightarrow> x \<in> set xs \<and> P x"
  by (auto simp: find_Some_iff)

lemma set_upd: "set (upd P f rs) = (\<lambda>r. if P r then f r else r) ` set rs"
  by (simp add: upd_def)

lemma is_i32_of_u32: "is_i32 (unwrap_or 1 (i32_of_u32 w))"
proof (cases "unat w < 2 ^ 31")
  case True
  then have "unat w < 2147483648" by simp
  then have "int (unat w) < 2147483648" "- 2147483648 \<le> int (unat w)" by linarith+
  with True show ?thesis by (simp add: i32_of_u32_def is_i32_def)
qed (simp add: i32_of_u32_def is_i32_def)

lemma set_upd_key: "(\<And>r. k (f r) = k r) \<Longrightarrow> k ` set (upd P f rs) = k ` set rs"
  by (induction rs) auto

lemma map_upd_key: "(\<And>r. k (f r) = k r) \<Longrightarrow> map k (upd P f rs) = map k rs"
  by (induction rs) auto

definition empty_db :: db where
  "empty_db = \<lparr>db_agents = [], db_policies = [], db_history = [], db_history_seq = 0, db_assignments = [],
     db_events = [], db_users = [], db_refresh = [], db_enrollment = []\<rparr>"

end
