(* ===== verification/Agent_Registry.thy ===== *)
theory Agent_Registry
  imports Manager_Db Proto
begin

text \<open>
  The registry of connected agents and the commands sent through it, \<open>scrooge-manager-bin/src/grpc.rs\<close>:
  \<open>AgentRegistry\<close>, \<open>run_command_bridge\<close>, and what the streams of agents that come and go do to the
  agent_registry. An outbound channel is known by a number; a store maps the numbers to the channels.
\<close>

section \<open>The agent_registry\<close>

type_synonym agent_registry = "uuid \<Rightarrow> nat option"

definition new_registry :: agent_registry where
  "new_registry = (\<lambda>_. None)"

definition register_agent :: "uuid \<Rightarrow> nat \<Rightarrow> agent_registry \<Rightarrow> agent_registry" where
  "register_agent a tx r = r(a := Some tx)"

definition unregister_agent :: "uuid \<Rightarrow> agent_registry \<Rightarrow> agent_registry" where
  "unregister_agent a r = r(a := None)"

definition reg_get :: "uuid \<Rightarrow> agent_registry \<Rightarrow> nat option" where
  "reg_get a r = r a"

definition all_agent_ids :: "agent_registry \<Rightarrow> uuid set" where
  "all_agent_ids r = dom r"

datatype reg_op = Register uuid nat | Unregister uuid

fun reg_run ::
  "(uuid \<Rightarrow> nat \<Rightarrow> 'r \<Rightarrow> 'r) \<Rightarrow> (uuid \<Rightarrow> 'r \<Rightarrow> 'r) \<Rightarrow> reg_op list \<Rightarrow> 'r \<Rightarrow> 'r" where
  "reg_run reg unreg [] r = r"
| "reg_run reg unreg (Register a tx # ops) r = reg_run reg unreg ops (reg a tx r)"
| "reg_run reg unreg (Unregister a # ops) r = reg_run reg unreg ops (unreg a r)"

text \<open>The last word on an agent in a sequence of operations.\<close>

fun last_word :: "uuid \<Rightarrow> reg_op list \<Rightarrow> nat option \<Rightarrow> nat option" where
  "last_word a [] x = x"
| "last_word a (Register b tx # ops) x = last_word a ops (if a = b then Some tx else x)"
| "last_word a (Unregister b # ops) x = last_word a ops (if a = b then None else x)"

locale connected_agents =
  fixes start :: 'r
    and reg :: "uuid \<Rightarrow> nat \<Rightarrow> 'r \<Rightarrow> 'r"
    and unreg :: "uuid \<Rightarrow> 'r \<Rightarrow> 'r"
    and look :: "uuid \<Rightarrow> 'r \<Rightarrow> nat option"
    and ids :: "'r \<Rightarrow> uuid set"
  assumes look_start: "look a start = None"
    and look_reg: "look a (reg b tx r) = (if a = b then Some tx else look a r)"
    and look_unreg: "look a (unreg b r) = (if a = b then None else look a r)"
    and ids_look: "a \<in> ids r \<longleftrightarrow> look a r \<noteq> None"
begin

lemma look_run: "look a (reg_run reg unreg ops r) = last_word a ops (look a r)"
  by (induction ops arbitrary: r rule: last_word.induct [where P = "\<lambda>_ ops _. P ops" for P])
    (auto simp: look_reg look_unreg)

lemma look_run_start: "look a (reg_run reg unreg ops start) = last_word a ops None"
  by (simp add: look_run look_start)

lemma ids_run: "ids (reg_run reg unreg ops start) = {a. last_word a ops None \<noteq> None}"
  by (auto simp: ids_look look_run_start)

end

interpretation rg: connected_agents new_registry register_agent unregister_agent reg_get all_agent_ids
  by unfold_locales (auto simp: new_registry_def register_agent_def unregister_agent_def reg_get_def all_agent_ids_def)

section \<open>Commands\<close>

record command_request =
  rq_agent_id :: uuid
  rq_command_type :: int
  rq_payload :: "u8 list"
  rq_command_id :: rstr

datatype command_fate = Forwarded | Disconnecting | NotConnected

type_synonym channels = "nat \<Rightarrow> manager_message chan"

definition command_bridge_step ::
  "int \<Rightarrow> agent_registry \<Rightarrow> command_request \<Rightarrow> channels \<Rightarrow> command_fate \<times> channels" where
  "command_bridge_step now r req chs =
     (case reg_get (rq_agent_id req) r of
        None \<Rightarrow> (NotConnected, chs)
      | Some tx \<Rightarrow>
          (case ch_send (Some (MCommand \<lparr>cmd_command_id = rq_command_id req, cmd_type = rq_command_type req,
               cmd_payload = rq_payload req, cmd_issued_at_ns = now, cmd_deadline_ns = 0\<rparr>)) (chs tx) of
             None \<Rightarrow> (Disconnecting, chs)
           | Some ch \<Rightarrow> (Forwarded, chs(tx := ch))))"

text \<open>The bridge: each request with the clock and the registry it finds.\<close>

fun run_command_bridge ::
  "(int \<times> agent_registry \<times> command_request) list \<Rightarrow> channels \<Rightarrow> command_fate list \<times> channels" where
  "run_command_bridge [] chs = ([], chs)"
| "run_command_bridge ((now, r, req) # rs) chs =
     (let (f, chs) = command_bridge_step now r req chs; (fs, chs) = run_command_bridge rs chs
      in (f # fs, chs))"

section \<open>Streams that come and go\<close>

text \<open>
  The handler of a stream registers its channel when it accepts the stream; the task of its inbound
  loop unregisters the agent when the stream ends, however late that is noticed. \<open>sm_open\<close> holds the
  streams whose inbound loop still runs.
\<close>

record streams =
  sm_registry :: agent_registry
  sm_open :: "nat \<Rightarrow> uuid option"
  sm_next :: nat

datatype stream_event = Accepted uuid | Closed nat

definition no_streams :: streams where
  "no_streams = \<lparr>sm_registry = new_registry, sm_open = \<lambda>_. None, sm_next = 0\<rparr>"

inductive stream_step :: "streams \<Rightarrow> stream_event \<Rightarrow> streams \<Rightarrow> bool" where
  accept: "stream_step s (Accepted a)
    (s\<lparr>sm_registry := register_agent a (sm_next s) (sm_registry s), sm_open := (sm_open s)(sm_next s := Some a),
       sm_next := Suc (sm_next s)\<rparr>)"
| close: "sm_open s n = Some a \<Longrightarrow> stream_step s (Closed n)
    (s\<lparr>sm_registry := unregister_agent a (sm_registry s), sm_open := (sm_open s)(n := None)\<rparr>)"

inductive_cases stream_stepE: "stream_step s e s'"
inductive_simps stream_step_accept [simp]: "stream_step s (Accepted a) s'"
inductive_simps stream_step_close [simp]: "stream_step s (Closed n) s'"

inductive stream_run :: "streams \<Rightarrow> bool" where
  start: "stream_run no_streams"
| step: "stream_run s \<Longrightarrow> stream_step s e s' \<Longrightarrow> stream_run s'"

lemma stream_run_fresh: "stream_run s \<Longrightarrow> sm_open s n = Some a \<Longrightarrow> n < sm_next s"
proof (induction arbitrary: n a rule: stream_run.induct)
  case (step s e s')
  then show ?case
    by (fastforce elim!: stream_stepE split: if_splits dest: less_SucI)
qed (simp add: no_streams_def)

text \<open>The channel registered for an agent is always that of a stream of this agent which is still
  open: commands and policies never go to another agent.\<close>

theorem registered_stream_is_open:
  assumes "stream_run s" "reg_get a (sm_registry s) = Some n"
  shows "sm_open s n = Some a"
  using assms
proof (induction arbitrary: a n rule: stream_run.induct)
  case (step s e s')
  note fresh = stream_run_fresh [OF step.hyps(1)]
  from step.hyps(2) show ?case
  proof (cases rule: stream_step.cases)
    case (accept b)
    with step fresh show ?thesis by (fastforce simp: rg.look_reg split: if_splits)
  next
    case (close m b)
    with step.prems have "a \<noteq> b" "reg_get a (sm_registry s) = Some n"
      by (auto simp: rg.look_unreg split: if_splits)
    with step.IH close show ?thesis by auto
  qed
qed (simp add: no_streams_def rg.look_start)

definition one_stream :: streams where
  "one_stream = \<lparr>sm_registry = register_agent 5 0 new_registry, sm_open = [0 \<mapsto> 5], sm_next = 1\<rparr>"

lemma one_stream_step: "stream_step no_streams (Accepted 5) one_stream"
  by (simp add: no_streams_def one_stream_def)

theorem registered_stream_is_open_witness: "sm_open one_stream 0 = Some 5"
proof (rule registered_stream_is_open)
  show "stream_run one_stream" by (rule stream_run.step [OF stream_run.start one_stream_step])
  show "reg_get 5 (sm_registry one_stream) = Some 0" by (simp add: one_stream_def rg.look_reg)
qed

text \<open>The streams of an agent one at a time: a stream is accepted only when the agent's last is closed.\<close>

inductive serial_run :: "streams \<Rightarrow> bool" where
  start: "serial_run no_streams"
| accept: "serial_run s \<Longrightarrow> stream_step s (Accepted a) s' \<Longrightarrow> \<forall>n. sm_open s n \<noteq> Some a \<Longrightarrow> serial_run s'"
| close: "serial_run s \<Longrightarrow> stream_step s (Closed n) s' \<Longrightarrow> serial_run s'"

text \<open>As long as no agent reconnects before the manager has noticed the end of its last stream,
  every open stream is the one registered for its agent, so commands and policies reach it.\<close>

theorem serial_stream_is_registered:
  assumes "serial_run s" "sm_open s n = Some a"
  shows "reg_get a (sm_registry s) = Some n"
  using assms
proof (induction arbitrary: a n rule: serial_run.induct)
  case (accept s b s')
  then show ?case by (auto simp: rg.look_reg split: if_splits)
next
  case (close s m s')
  then obtain b where b: "sm_open s m = Some b" "sm_registry s' = unregister_agent b (sm_registry s)"
    "sm_open s' = (sm_open s)(m := None)" by auto
  with close.prems have n: "n \<noteq> m" "sm_open s n = Some a" by (auto split: if_splits)
  have "a \<noteq> b"
  proof
    assume "a = b"
    with close.IH [OF n(2)] close.IH [OF b(1)] n(1) show False by simp
  qed
  with close.IH [OF n(2)] b(2) show ?case by (simp add: rg.look_unreg)
qed (simp add: no_streams_def)

theorem serial_stream_is_registered_witness: "reg_get 5 (sm_registry one_stream) = Some 0"
proof (rule serial_stream_is_registered)
  show "serial_run one_stream"
    by (rule serial_run.accept [OF serial_run.start one_stream_step]) (simp add: no_streams_def)
  show "sm_open one_stream 0 = Some 5" by (simp add: one_stream_def)
qed

lemma stream_run_none: "stream_run s \<Longrightarrow> sm_next s \<le> n \<Longrightarrow> sm_open s n = None"
  using stream_run_fresh [of s n] by (cases "sm_open s n") auto

text \<open>C36: an agent that reconnects before the manager has noticed the end of its old stream is lost: at whatever state, the
  new stream is registered when it is accepted, the end of the old one unregisters it although it is open and the
  newest of all, and from then on the bridge drops every command to the connected agent.\<close>

theorem reconnect_is_unregistered:
  assumes "stream_run s" "sm_open s old = Some a"
    and "stream_step s (Accepted a) s1" "stream_step s1 (Closed old) s2" "rq_agent_id req = a"
  shows "reg_get a (sm_registry s1) = Some (sm_next s) \<and> sm_open s2 (sm_next s) = Some a \<and>
    (\<forall>n > sm_next s. sm_open s2 n = None) \<and> a \<notin> all_agent_ids (sm_registry s2) \<and>
    command_bridge_step now (sm_registry s2) req chs = (NotConnected, chs)"
proof -
  let ?new = "sm_next s"
  have "old < ?new" using stream_run_fresh [OF assms(1,2)] .
  then have s1: "sm_registry s1 = register_agent a ?new (sm_registry s)" "sm_open s1 = (sm_open s)(?new := Some a)"
    and s2: "sm_registry s2 = unregister_agent a (sm_registry s1)" "sm_open s2 = (sm_open s1)(old := None)"
    using assms(2-4) by auto
  have "sm_open s2 ?new = Some a" using s1 s2 \<open>old < ?new\<close> by simp
  moreover have "sm_open s2 n = None" if "?new < n" for n
    using that s1 s2 stream_run_none [OF assms(1), of n] by simp
  ultimately show ?thesis using s1(1) s2(1) assms(5)
    by (simp add: command_bridge_step_def rg.look_reg rg.look_unreg rg.ids_look)
qed

theorem reconnect_is_unregistered_witness:
  "\<exists>s1 s2. stream_step one_stream (Accepted 5) s1 \<and> stream_step s1 (Closed 0) s2 \<and> sm_open s2 1 = Some 5 \<and>
     command_bridge_step 9 (sm_registry s2) \<lparr>rq_agent_id = 5, rq_command_type = 3, rq_payload = [], rq_command_id = []\<rparr>
       (\<lambda>_. \<lparr>ch_msgs = [], ch_closed = False\<rparr>) = (NotConnected, \<lambda>_. \<lparr>ch_msgs = [], ch_closed = False\<rparr>)"
proof -
  let ?q = "\<lparr>rq_agent_id = 5, rq_command_type = 3, rq_payload = [], rq_command_id = []\<rparr>"
  let ?chs = "\<lambda>_. \<lparr>ch_msgs = [], ch_closed = False\<rparr> :: manager_message chan"
  have r: "stream_run one_stream" by (rule stream_run.step [OF stream_run.start one_stream_step])
  have o: "sm_open one_stream 0 = Some 5" "sm_next one_stream = 1" by (simp_all add: one_stream_def)
  obtain s1 where s1: "stream_step one_stream (Accepted 5) s1" by simp
  then have "sm_open s1 0 = Some 5" using o by auto
  then obtain s2 where s2: "stream_step s1 (Closed 0) s2" by simp
  have "rq_agent_id ?q = 5" by simp
  from reconnect_is_unregistered [OF r o(1) s1 s2 this, of 9 ?chs] s1 s2 o(2) show ?thesis by auto
qed

end
