(* ===== verification/Policy_Push.thy ===== *)
theory Policy_Push
  imports Agent_Registry "HOL-Library.Multiset"
begin

text \<open>
  Pushing policies to agents, \<open>scrooge-manager-bin/src/grpc.rs\<close>: \<open>load_pending_policies\<close>,
  \<open>mark_assigned\<close>, \<open>mark_acked\<close>, the initial push of a stream and the broadcast of
  \<open>run_policy_push_bridge\<close>. The order of names in the database (its collation) is a parameter.
\<close>

section \<open>ORDER BY\<close>

fun insort_by :: "('a \<Rightarrow> 'a \<Rightarrow> bool) \<Rightarrow> 'a \<Rightarrow> 'a list \<Rightarrow> 'a list" where
  "insort_by le x [] = [x]"
| "insort_by le x (y # ys) = (if le x y then x # y # ys else y # insort_by le x ys)"

definition order_by :: "('a \<Rightarrow> 'a \<Rightarrow> bool) \<Rightarrow> 'a list \<Rightarrow> 'a list" where
  "order_by le xs = foldr (insort_by le) xs []"

lemma mset_insort_by: "mset (insort_by le x ys) = add_mset x (mset ys)"
  by (induction ys) auto

lemma order_by_simps: "order_by le [] = []" "order_by le (x # xs) = insort_by le x (order_by le xs)"
  by (simp_all add: order_by_def)

lemma mset_order_by: "mset (order_by le xs) = mset xs"
  by (induction xs) (simp_all add: order_by_simps mset_insort_by)

lemma set_order_by [simp]: "set (order_by le xs) = set xs"
  using mset_order_by [of le xs] by (metis set_mset_mset)

lemma sorted_insort_by:
  assumes "\<And>x y. le x y \<or> le y x" "\<And>x y z. le x y \<Longrightarrow> le y z \<Longrightarrow> le x z" "sorted_wrt le ys"
  shows "sorted_wrt le (insort_by le x ys)"
  using assms(3)
proof (induction ys)
  case (Cons y ys)
  have "z \<in> set (insort_by le x ys) \<Longrightarrow> z = x \<or> z \<in> set ys" for z
    using mset_insort_by [of le x ys] by (metis insert_iff set_mset_add_mset_insert set_mset_mset)
  with Cons assms(1,2) show ?case by (auto, blast+)
qed simp

lemma sorted_order_by:
  assumes "\<And>x y. le x y \<or> le y x" "\<And>x y z. le x y \<Longrightarrow> le y z \<Longrightarrow> le x z"
  shows "sorted_wrt le (order_by le xs)"
proof (induction xs)
  case (Cons x xs)
  show ?case unfolding order_by_simps by (rule sorted_insort_by [OF assms Cons])
qed (simp add: order_by_simps)

section \<open>The statements\<close>

definition acked_version :: "db \<Rightarrow> uuid \<Rightarrow> rstr \<Rightarrow> int option" where
  "acked_version d agent name =
     Option.bind (find (\<lambda>r. pas_agent_id r = agent \<and> pas_policy_name r = name) (db_assignments d)) pas_acked_version"

definition is_pending :: "db \<Rightarrow> uuid \<Rightarrow> policy_row \<Rightarrow> bool" where
  "is_pending d agent p \<longleftrightarrow> po_enabled p \<and>
     (case acked_version d agent (po_name p) of None \<Rightarrow> True | Some v \<Rightarrow> v < po_version p)"

definition push_order :: "(rstr \<Rightarrow> rstr \<Rightarrow> bool) \<Rightarrow> policy_row \<Rightarrow> policy_row \<Rightarrow> bool" where
  "push_order coll p q \<longleftrightarrow> po_priority p > po_priority q \<or>
     (po_priority p = po_priority q \<and> coll (po_name p) (po_name q))"

definition to_ref :: "policy_row \<Rightarrow> policy_ref" where
  "to_ref p = \<lparr>pref_policy_id = po_name p, pref_version = unwrap_or 0 (u32_of_i32 (po_version p)),
     pref_content_compiled = po_content_compiled p, pref_content_hash = po_content_hash p,
     pref_priority = unwrap_or 0 (u32_of_i32 (po_priority p))\<rparr>"

definition load_pending_policies ::
  "(rstr \<Rightarrow> rstr \<Rightarrow> bool) \<Rightarrow> outcome \<Rightarrow> uuid \<Rightarrow> db \<Rightarrow> sqlx_error + policy_ref list" where
  "load_pending_policies coll out agent d =
     sql_query out (\<lambda>d. map to_ref (order_by (push_order coll) (filter (is_pending d agent) (db_policies d)))) d"

text \<open>\<open>INSERT \<dots> ON CONFLICT (agent_id, policy_name) DO UPDATE\<close>, with the two foreign keys.\<close>

definition mark_assigned :: "outcome \<Rightarrow> int \<Rightarrow> uuid \<Rightarrow> rstr \<Rightarrow> int \<Rightarrow> db \<Rightarrow> (sqlx_error + unit) \<times> db" where
  "mark_assigned out now agent name version d =
     (case out of Some e \<Rightarrow> (Inl (SqlDriver e), d) | None \<Rightarrow>
      if agent \<notin> ag_id ` set (db_agents d) \<or> name \<notin> po_name ` set (db_policies d)
      then (Inl (SqlConstraint (lit ''policy_assignments_fkey'')), d)
      else let same = (\<lambda>r. pas_agent_id r = agent \<and> pas_policy_name r = name)
        in (Inr (), d\<lparr>db_assignments :=
              (if find same (db_assignments d) = None
               then db_assignments d @ [\<lparr>pas_agent_id = agent, pas_policy_name = name, pas_assigned_version = version,
                      pas_acked_version = None, pas_last_pushed_at = Some now\<rparr>]
               else upd same (\<lambda>r. r\<lparr>pas_assigned_version := version, pas_last_pushed_at := Some now\<rparr>)
                      (db_assignments d))\<rparr>))"

definition mark_acked :: "outcome \<Rightarrow> uuid \<Rightarrow> rstr \<Rightarrow> int \<Rightarrow> db \<Rightarrow> (sqlx_error + unit) \<times> db" where
  "mark_acked out agent name version d =
     sql_exec out (\<lambda>d. d\<lparr>db_assignments := upd (\<lambda>r. pas_agent_id r = agent \<and> pas_policy_name r = name)
       (\<lambda>r. r\<lparr>pas_acked_version := Some version\<rparr>) (db_assignments d)\<rparr>) d"

section \<open>The push\<close>

record push_env =
  ps_load :: outcome
  ps_assign :: "rstr \<Rightarrow> outcome"
  ps_now :: int

text \<open>A failed \<open>mark_assigned\<close> is logged, and the loop goes on.\<close>

fun mark_all :: "push_env \<Rightarrow> uuid \<Rightarrow> policy_ref list \<Rightarrow> db \<Rightarrow> db" where
  "mark_all env agent [] d = d"
| "mark_all env agent (p # ps) d =
     mark_all env agent ps (snd (mark_assigned (ps_assign env (pref_policy_id p)) (ps_now env) agent
       (pref_policy_id p) (unwrap_or 0 (i32_of_u32 (pref_version p))) d))"

definition update_message :: "policy_ref list \<Rightarrow> manager_message" where
  "update_message ps = Some (MPolicy \<lparr>pu_policies = ps, pu_full_replace = False, pu_remove_policy_ids = []\<rparr>)"

definition push_pending ::
  "(rstr \<Rightarrow> rstr \<Rightarrow> bool) \<Rightarrow> push_env \<Rightarrow> uuid \<Rightarrow> db \<Rightarrow> manager_message chan \<Rightarrow> db \<times> manager_message chan" where
  "push_pending coll env agent d tx =
     (case load_pending_policies coll (ps_load env) agent d of
        Inl e \<Rightarrow> (d, tx)
      | Inr [] \<Rightarrow> (d, tx)
      | Inr (p # ps) \<Rightarrow>
          (mark_all env agent (p # ps) d,
           (case ch_send (update_message (p # ps)) tx of None \<Rightarrow> tx | Some tx \<Rightarrow> tx)))"

text \<open>One request to broadcast: the agents in the order the registry lists them, each with the registry
  as it is when its turn comes.\<close>

fun broadcast ::
  "(rstr \<Rightarrow> rstr \<Rightarrow> bool) \<Rightarrow> (uuid \<times> agent_registry \<times> push_env) list \<Rightarrow> db \<Rightarrow> channels \<Rightarrow> db \<times> channels" where
  "broadcast coll [] d chs = (d, chs)"
| "broadcast coll ((agent, r, env) # ts) d chs =
     (case reg_get agent r of
        None \<Rightarrow> broadcast coll ts d chs
      | Some tx \<Rightarrow>
          (let (d, ch) = push_pending coll env agent d (chs tx)
           in broadcast coll ts d (chs(tx := ch))))"

text \<open>The bridge: a request is answered with the agents connected when it is taken up.\<close>

fun run_policy_push_bridge ::
  "(rstr \<Rightarrow> rstr \<Rightarrow> bool) \<Rightarrow> (uuid \<times> agent_registry \<times> push_env) list list \<Rightarrow> db \<Rightarrow> channels \<Rightarrow> db \<times> channels" where
  "run_policy_push_bridge coll [] d chs = (d, chs)"
| "run_policy_push_bridge coll (req # reqs) d chs =
     (let (d, chs) = broadcast coll req d chs in run_policy_push_bridge coll reqs d chs)"

section \<open>Assignments\<close>

text \<open>The table of assignments as the rest of the manager sees it: what an agent acknowledged.\<close>

definition each :: "(uuid \<Rightarrow> rstr \<Rightarrow> int \<Rightarrow> 'd \<Rightarrow> 'd) \<Rightarrow> uuid \<Rightarrow> (rstr \<times> int) list \<Rightarrow> 'd \<Rightarrow> 'd" where
  "each f a nvs d = fold (\<lambda>(n, v). f a n v) nvs d"

lemma each_simps [simp]:
  "each f a [] d = d" "each f a (x # nvs) d = each f a nvs (f a (fst x) (snd x) d)"
  "each f a (nvs @ [x]) d = f a (fst x) (snd x) (each f a nvs d)"
  by (simp_all add: each_def split: prod.splits)

locale assignments =
  fixes assign :: "uuid \<Rightarrow> rstr \<Rightarrow> int \<Rightarrow> 'd \<Rightarrow> 'd"
    and ack :: "uuid \<Rightarrow> rstr \<Rightarrow> int \<Rightarrow> 'd \<Rightarrow> 'd"
    and acked :: "'d \<Rightarrow> uuid \<Rightarrow> rstr \<Rightarrow> int option"
    and assigned :: "'d \<Rightarrow> uuid \<Rightarrow> rstr \<Rightarrow> bool"
    and known :: "'d \<Rightarrow> uuid \<Rightarrow> rstr \<Rightarrow> bool"
  assumes acked_assign: "acked (assign a n v d) b m = acked d b m"
    and assigned_assign: "known d a n \<Longrightarrow> assigned (assign a n v d) b m \<longleftrightarrow> assigned d b m \<or> (b = a \<and> m = n)"
    and known_assign: "known (assign a n v d) b m = known d b m"
    and acked_ack: "acked (ack a n v d) b m = (if b = a \<and> m = n \<and> assigned d a n then Some v else acked d b m)"
    and assigned_ack: "assigned (ack a n v d) b m = assigned d b m"
    and known_ack: "known (ack a n v d) b m = known d b m"
begin

lemma acked_acks:
  assumes "\<forall>(n, v) \<in> set nvs. assigned d a n"
  shows "acked (each ack a nvs d) b m =
    (if b = a then case map_of (rev nvs) m of None \<Rightarrow> acked d b m | Some v \<Rightarrow> Some v else acked d b m)"
  using assms
proof (induction nvs rule: rev_induct)
  case (snoc x nvs)
  have "assigned (each ack a xs d) b m = assigned d b m" for xs b m
    by (induction xs rule: rev_induct) (auto simp: assigned_ack)
  with snoc show ?case by (cases x) (auto simp: acked_ack)
qed simp

lemma known_assigns: "known (each assign a nvs d) b m = known d b m"
  by (induction nvs rule: rev_induct) (auto simp: known_assign)

lemma acked_assigns: "acked (each assign a nvs d) b m = acked d b m"
  by (induction nvs rule: rev_induct) (auto simp: acked_assign)

lemma assigned_assigns:
  "(\<forall>(n, v) \<in> set nvs. known d a n) \<Longrightarrow>
    assigned (each assign a nvs d) b m \<longleftrightarrow> assigned d b m \<or> (b = a \<and> m \<in> fst ` set nvs)"
proof (induction nvs rule: rev_induct)
  case (snoc x nvs)
  then show ?case by (cases x) (auto simp: assigned_assign known_assigns)
qed simp

lemma push_then_ack:
  assumes "\<forall>(n, v) \<in> set nvs. known d a n" "map_of nvs m = Some v" "distinct (map fst nvs)"
  shows "acked (each ack a nvs (each assign a nvs d)) a m = Some v"
proof -
  have "\<forall>(n, v) \<in> set nvs. assigned (each assign a nvs d) a n" using assigned_assigns [OF assms(1)] by force
  moreover have "map_of (rev nvs) m = Some v" using assms(2,3) by (simp add: map_of_eq_Some_iff rev_map [symmetric])
  ultimately show ?thesis by (simp add: acked_acks)
qed

end

definition assigned_to :: "db \<Rightarrow> uuid \<Rightarrow> rstr \<Rightarrow> bool" where
  "assigned_to d agent name \<longleftrightarrow>
     find (\<lambda>r. pas_agent_id r = agent \<and> pas_policy_name r = name) (db_assignments d) \<noteq> None"

definition known_pair :: "db \<Rightarrow> uuid \<Rightarrow> rstr \<Rightarrow> bool" where
  "known_pair d agent name \<longleftrightarrow> agent \<in> ag_id ` set (db_agents d) \<and> name \<in> po_name ` set (db_policies d)"

definition assign_at :: "int \<Rightarrow> uuid \<Rightarrow> rstr \<Rightarrow> int \<Rightarrow> db \<Rightarrow> db" where
  "assign_at now a n v d = snd (mark_assigned None now a n v d)"

definition ack_at :: "uuid \<Rightarrow> rstr \<Rightarrow> int \<Rightarrow> db \<Rightarrow> db" where
  "ack_at a n v d = snd (mark_acked None a n v d)"

lemmas assignment_defs = assign_at_def ack_at_def mark_assigned_def mark_acked_def acked_version_def
  assigned_to_def known_pair_def Let_def

lemma assignment_keeps [simp]:
  "db_policies (assign_at now a n v d) = db_policies d" "db_agents (assign_at now a n v d) = db_agents d"
  "db_policies (ack_at a n v d) = db_policies d" "db_agents (ack_at a n v d) = db_agents d"
  by (simp_all add: assignment_defs)

lemma find_append: "find P (xs @ ys) = (case find P xs of None \<Rightarrow> find P ys | Some x \<Rightarrow> Some x)"
  by (induction xs) auto

lemma find_assignment_upd:
  assumes "\<And>r :: assignment_row. pas_agent_id (f r) = pas_agent_id r \<and> pas_policy_name (f r) = pas_policy_name r"
  shows "find (\<lambda>r. pas_agent_id r = b \<and> pas_policy_name r = m)
      (upd (\<lambda>r. pas_agent_id r = a \<and> pas_policy_name r = n) f rs) =
    (if b = a \<and> m = n then map_option f (find (\<lambda>r. pas_agent_id r = b \<and> pas_policy_name r = m) rs)
     else find (\<lambda>r. pas_agent_id r = b \<and> pas_policy_name r = m) rs)"
  by (induction rs) (auto simp: assms)

lemma find_assigned_row:
  "find (\<lambda>r. pas_agent_id r = b \<and> pas_policy_name r = m) (db_assignments (assign_at now a n v d)) =
    (if b = a \<and> m = n \<and> known_pair d a n
     then Some (case find (\<lambda>r. pas_agent_id r = a \<and> pas_policy_name r = n) (db_assignments d) of
            None \<Rightarrow> \<lparr>pas_agent_id = a, pas_policy_name = n, pas_assigned_version = v, pas_acked_version = None,
                    pas_last_pushed_at = Some now\<rparr>
          | Some r \<Rightarrow> r\<lparr>pas_assigned_version := v, pas_last_pushed_at := Some now\<rparr>)
     else find (\<lambda>r. pas_agent_id r = b \<and> pas_policy_name r = m) (db_assignments d))"
  by (auto simp: assignment_defs find_append find_assignment_upd split: option.splits)

lemma find_acked_row:
  "find (\<lambda>r. pas_agent_id r = b \<and> pas_policy_name r = m) (db_assignments (ack_at a n v d)) =
    (if b = a \<and> m = n
     then map_option (\<lambda>r. r\<lparr>pas_acked_version := Some v\<rparr>)
            (find (\<lambda>r. pas_agent_id r = a \<and> pas_policy_name r = n) (db_assignments d))
     else find (\<lambda>r. pas_agent_id r = b \<and> pas_policy_name r = m) (db_assignments d))"
  by (auto simp: ack_at_def mark_acked_def find_assignment_upd)

interpretation pas: assignments "assign_at now" ack_at acked_version assigned_to known_pair
proof unfold_locales
  show "acked_version (assign_at now a n v d) b m = acked_version d b m" for a n v d b m
    unfolding acked_version_def find_assigned_row by (auto split: option.splits)
  show "acked_version (ack_at a n v d) b m =
      (if b = a \<and> m = n \<and> assigned_to d a n then Some v else acked_version d b m)" for a n v d b m
    unfolding acked_version_def assigned_to_def find_acked_row
    by (cases "find (\<lambda>r. pas_agent_id r = a \<and> pas_policy_name r = n) (db_assignments d)") auto
  show "assigned_to (ack_at a n v d) b m = assigned_to d b m" for a n v d b m
    unfolding assigned_to_def find_acked_row by auto
qed (auto simp: assigned_to_def find_assigned_row known_pair_def)

section \<open>What the push sends and records\<close>

definition ref_key :: "policy_ref \<Rightarrow> rstr \<times> int" where
  "ref_key p = (pref_policy_id p, unwrap_or 0 (i32_of_u32 (pref_version p)))"

lemma mark_all_each:
  "(\<And>n. ps_assign env n = None) \<Longrightarrow> mark_all env a ps d = each (assign_at (ps_now env)) a (map ref_key ps) d"
  by (induction ps arbitrary: d) (simp_all add: assign_at_def ref_key_def)

lemma each_assign_keeps [simp]:
  "db_policies (each (assign_at now) a nvs d) = db_policies d" "db_agents (each (assign_at now) a nvs d) = db_agents d"
  by (induction nvs arbitrary: d) auto

lemma each_ack_keeps [simp]:
  "db_policies (each ack_at a nvs d) = db_policies d" "db_agents (each ack_at a nvs d) = db_agents d"
  by (induction nvs arbitrary: d) auto

lemma push_pending_eq:
  assumes "ps_load env = None" "\<And>n. ps_assign env n = None" "\<not> ch_closed tx"
    and "filter (is_pending d a) (db_policies d) \<noteq> []"
  shows "push_pending coll env a d tx =
    (let ps = map to_ref (order_by (push_order coll) (filter (is_pending d a) (db_policies d)))
     in (each (assign_at (ps_now env)) a (map ref_key ps) d, tx\<lparr>ch_msgs := ch_msgs tx @ [update_message ps]\<rparr>))"
proof -
  let ?rows = "order_by (push_order coll) (filter (is_pending d a) (db_policies d))"
  have "set ?rows \<noteq> {}" using assms(4) by (simp only: set_order_by set_empty not_False_eq_True)
  then obtain r rs where r: "?rows = r # rs" by (cases ?rows) auto
  show ?thesis
    using assms(1,3) unfolding push_pending_def load_pending_policies_def
    by (simp add: r Let_def mark_all_each [OF assms(2)] ch_send_def assms(2) assign_at_def ref_key_def)
qed

text \<open>The push sends one update with exactly the enabled policies the agent has not acknowledged at
  their current version, those of higher priority first and equal ones by name, and sends nothing when
  there is none.\<close>

theorem push_sends_pending:
  assumes "ps_load env = None" "\<not> ch_closed tx"
    and coll: "\<And>x y. coll x y \<or> coll y x" "\<And>x y z. coll x y \<Longrightarrow> coll y z \<Longrightarrow> coll x z"
  shows "\<exists>rows. mset rows = mset (filter (is_pending d a) (db_policies d)) \<and> sorted_wrt (push_order coll) rows \<and>
    ch_msgs (snd (push_pending coll env a d tx)) =
      (if rows = [] then ch_msgs tx else ch_msgs tx @ [update_message (map to_ref rows)])"
proof -
  let ?rows = "order_by (push_order coll) (filter (is_pending d a) (db_policies d))"
  have "sorted_wrt (push_order coll) ?rows"
  proof (rule sorted_order_by)
    show "push_order coll x y \<or> push_order coll y x" for x y using coll(1) by (auto simp: push_order_def)
    show "push_order coll x y \<Longrightarrow> push_order coll y z \<Longrightarrow> push_order coll x z" for x y z
      using coll(2) by (auto simp: push_order_def)
  qed
  moreover have "ch_msgs (snd (push_pending coll env a d tx)) =
      (if ?rows = [] then ch_msgs tx else ch_msgs tx @ [update_message (map to_ref ?rows)])"
    using assms(1,2) unfolding push_pending_def load_pending_policies_def
    by (cases ?rows) (simp_all add: ch_send_def)
  ultimately show ?thesis using mset_order_by by blast
qed

definition sample_row :: "rstr \<Rightarrow> int \<Rightarrow> policy_row" where
  "sample_row n v = \<lparr>po_name = n, po_version = v, po_content_yaml = lit ''y'', po_content_compiled = [1],
     po_content_hash = lit ''h'', po_targets = JNull, po_priority = 100, po_enabled = True, po_created_at = 0,
     po_updated_at = 0, po_created_by = None, po_updated_by = None\<rparr>"

definition sample_agent :: "uuid \<Rightarrow> agent_row" where
  "sample_agent i = \<lparr>ag_id = i, ag_hostname = lit ''h'', ag_os = lit ''linux'', ag_os_version = [], ag_arch = [],
     ag_agent_version = lit ''1'', ag_enrolled_at = 0, ag_last_seen = None, ag_status = lit ''active'',
     ag_cert_fingerprint = []\<rparr>"

definition one_policy_db :: db where
  "one_policy_db = empty_db\<lparr>db_agents := [sample_agent 7], db_policies := [sample_row (lit ''p'') 3]\<rparr>"

definition up_env :: push_env where
  "up_env = \<lparr>ps_load = None, ps_assign = \<lambda>_. None, ps_now = 5\<rparr>"

lemma one_policy_simps [simp]:
  "db_policies one_policy_db = [sample_row (lit ''p'') 3]" "db_agents one_policy_db = [sample_agent 7]"
  "db_assignments one_policy_db = []" "ag_id (sample_agent i) = i" "po_name (sample_row n v) = n"
  "po_version (sample_row n v) = v" "is_pending one_policy_db a (sample_row n v)"
  "ps_load up_env = None" "ps_assign up_env n = None"
  by (simp_all add: one_policy_db_def sample_agent_def sample_row_def is_pending_def acked_version_def
      empty_db_def up_env_def)

theorem push_sends_pending_witness:
  "\<exists>rows. mset rows = mset [sample_row (lit ''p'') 3] \<and> sorted_wrt (push_order (\<lambda>_ _. True)) rows \<and>
    ch_msgs (snd (push_pending (\<lambda>_ _. True) up_env 7 one_policy_db \<lparr>ch_msgs = [], ch_closed = False\<rparr>)) =
      (if rows = [] then [] else [] @ [update_message (map to_ref rows)])"
  using push_sends_pending [of up_env "\<lparr>ch_msgs = [], ch_closed = False\<rparr>" "\<lambda>_ _. True" one_policy_db 7] by simp

text \<open>A push that is acknowledged settles: once the agent acknowledged each policy at the version sent,
  nothing is pending for it.\<close>

lemma push_acked_settles:
  assumes up: "ps_load env = None" "\<And>n. ps_assign env n = None" "\<not> ch_closed tx"
    and rows: "a \<in> ag_id ` set (db_agents d)" "distinct (map po_name (db_policies d))"
      "\<And>p. p \<in> set (db_policies d) \<Longrightarrow> 0 \<le> po_version p \<and> is_i32 (po_version p)"
    and push: "push_pending coll env a d tx = (d1, tx1)"
    and sent: "ch_msgs tx1 = ch_msgs tx @ [update_message ps]"
  shows "load_pending_policies coll None a (each ack_at a (map ref_key ps) d1) = Inr []"
proof -
  let ?pend = "filter (is_pending d a) (db_policies d)"
  let ?rows = "order_by (push_order coll) ?pend"
  have ne: "?pend \<noteq> []"
  proof
    assume "?pend = []"
    then have "push_pending coll env a d tx = (d, tx)"
      by (simp add: push_pending_def load_pending_policies_def up(1) order_by_simps)
    with push sent show False by simp
  qed
  from push sent have ps: "ps = map to_ref ?rows" and d1: "d1 = each (assign_at (ps_now env)) a (map ref_key ps) d"
    unfolding push_pending_eq [OF up ne] by (auto simp: Let_def update_message_def)
  let ?d2 = "each ack_at a (map ref_key ps) d1"
  have key: "ref_key (to_ref p) = (po_name p, po_version p)" if "p \<in> set (db_policies d)" for p
    using rows(3) [OF that] version_roundtrip by (simp add: ref_key_def to_ref_def)
  have "set ?rows \<subseteq> set (db_policies d)" by auto
  then have keys: "map ref_key ps = map (\<lambda>p. (po_name p, po_version p)) ?rows"
    using key by (auto simp: ps)
  have "mset (map po_name ?rows) = mset (map po_name ?pend)" by (simp add: mset_order_by)
  then have dist: "distinct (map fst (map ref_key ps))"
    using distinct_map_filter [OF rows(2), of "is_pending d a"] unfolding keys
    by (metis (no_types, lifting) comp_apply fst_conv list.map_comp map_eq_conv mset_eq_imp_distinct_iff)
  have known: "\<forall>(n, v) \<in> set (map ref_key ps). known_pair d a n"
    using rows(1) \<open>set ?rows \<subseteq> set (db_policies d)\<close> unfolding keys by (auto simp: known_pair_def)
  have "\<not> is_pending ?d2 a p" if p: "p \<in> set (db_policies d)" for p
  proof (cases "is_pending d a p")
    case True
    then have "(po_name p, po_version p) \<in> set (map ref_key ps)" using p unfolding keys by simp
    then have "map_of (map ref_key ps) (po_name p) = Some (po_version p)" using dist by simp
    from pas.push_then_ack [OF known this dist, of "ps_now env"] show ?thesis
      unfolding d1 by (simp add: is_pending_def)
  next
    case False
    have "acked_version ?d2 a (po_name p) = acked_version d a (po_name p)"
    proof -
      have "po_name p \<notin> fst ` set (map ref_key ps)"
      proof
        assume "po_name p \<in> fst ` set (map ref_key ps)"
        then obtain x where x: "x \<in> set (db_policies d)" "is_pending d a x" "po_name x = po_name p"
          unfolding keys by auto
        have "x = p" using inj_onD [OF distinct_map [THEN iffD1, THEN conjunct2, OF rows(2)] x(3) x(1) p] .
        with x(2) False show False by simp
      qed
      then have "map_of (rev (map ref_key ps)) (po_name p) = None" by (simp add: map_of_eq_None_iff)
      moreover have "\<forall>(n, v) \<in> set (map ref_key ps). assigned_to d1 a n"
        unfolding d1 case_prod_beta using pas.assigned_assigns [OF known, of "ps_now env"] by (simp add: rev_image_eqI)
      note as = pas.acked_acks [OF this]
      ultimately have "acked_version ?d2 a (po_name p) = acked_version d1 a (po_name p)" unfolding as by simp
      then show ?thesis unfolding d1 pas.acked_assigns .
    qed
    with False show ?thesis by (simp add: is_pending_def)
  qed
  then have "filter (is_pending ?d2 a) (db_policies ?d2) = []" by (simp add: d1 filter_empty_conv)
  then show ?thesis by (simp add: load_pending_policies_def order_by_simps)
qed

end
