(* ===== verification/Event_Ingest.thy ===== *)
theory Event_Ingest
  imports Manager_Db Proto
begin

text \<open>
  Storing the events of an agent, \<open>insert_event_batch\<close> and its helpers in
  \<open>scrooge-manager-bin/src/grpc.rs\<close>. The UUID parser, fresh UUIDs, the driver's rounding of a
  timestamp and the \<open>Debug\<close> text of an event's details are parameters. A JSON object is the list of
  its members; their order does not matter to JSONB.
\<close>

section \<open>Enumerations to text\<close>

definition event_type_names :: "(int \<times> string) list" where
  "event_type_names =
     [(0, ''EVENT_TYPE_UNSPECIFIED''), (10, ''FILE_CREATE''), (11, ''FILE_READ''), (12, ''FILE_WRITE''),
      (13, ''FILE_DELETE''), (14, ''FILE_RENAME''), (15, ''FILE_COPY''), (16, ''FILE_MOVE''),
      (20, ''DEVICE_INSERT''), (21, ''DEVICE_REMOVE''), (22, ''DEVICE_MOUNT''), (23, ''DEVICE_WRITE''),
      (24, ''DEVICE_PRINT''), (30, ''CLIPBOARD_COPY''), (31, ''CLIPBOARD_PASTE''), (32, ''SCREEN_CAPTURE''),
      (40, ''NETWORK_CONNECT''), (41, ''NETWORK_UPLOAD''), (42, ''NETWORK_DOWNLOAD''),
      (50, ''PROCESS_START''), (51, ''PROCESS_EXIT''), (52, ''PROCESS_KILLED''),
      (90, ''POLICY_VIOLATION''), (99, ''AGENT_INTERNAL'')]"

definition event_type_to_str :: "int \<Rightarrow> rstr" where
  "event_type_to_str v =
     (case map_of event_type_names v of None \<Rightarrow> lit ''EVENT_TYPE_UNSPECIFIED'' | Some n \<Rightarrow> lit n)"

definition severity_to_str :: "int \<Rightarrow> rstr" where
  "severity_to_str v =
     (if v = 2 then lit ''medium'' else if v = 3 then lit ''high'' else if v = 4 then lit ''critical''
      else lit ''low'')"

definition direction_to_str_opt :: "int \<Rightarrow> rstr option" where
  "direction_to_str_opt v =
     (if v = 1 then Some (lit ''inbound'') else if v = 2 then Some (lit ''outbound'')
      else if v = 3 then Some (lit ''internal'') else None)"

definition action_to_str_opt :: "int \<Rightarrow> rstr option" where
  "action_to_str_opt v =
     (if v = 1 then Some (lit ''log_only'') else if v = 2 then Some (lit ''log_and_alert'')
      else if v = 3 then Some (lit ''warn_user'') else if v = 4 then Some (lit ''block'')
      else if v = 5 then Some (lit ''quarantine'') else if v = 6 then Some (lit ''kill_process'')
      else if v = 7 then Some (lit ''lock_workstation'') else None)"

section \<open>The details column\<close>

definition match_json :: "pmatch \<Rightarrow> json" where
  "match_json m = JObj
     [(lit ''classifier_id'', JStr (pm_classifier_id m)),
      (lit ''match_count'', JNum (uint (pm_match_count m))),
      (lit ''sample_excerpt'', JStr (pm_sample_excerpt m))]"

definition build_details_json :: "(details \<Rightarrow> rstr) \<Rightarrow> event \<Rightarrow> json" where
  "build_details_json debug ev = JObj
     ((if ev_user_name ev \<noteq> [] then [(lit ''user_name'', JStr (ev_user_name ev))] else [])
      @ (if ev_process_id ev \<noteq> 0 then [(lit ''process_id'', JNum (uint (ev_process_id ev)))] else [])
      @ (if ev_process_name ev \<noteq> [] then [(lit ''process_name'', JStr (ev_process_name ev))] else [])
      @ (if ev_matches ev \<noteq> [] then [(lit ''matches'', JArr (map match_json (ev_matches ev)))] else [])
      @ (case ev_details ev of
           None \<Rightarrow> []
         | Some (DClipboard c) \<Rightarrow>
             [(lit ''clipboard'', JObj
                [(lit ''content_size'', JNum (uint (ce_content_size c))),
                 (lit ''content_preview'', JStr (ce_content_preview c)),
                 (lit ''mime_type'', JStr (ce_mime_type c)),
                 (lit ''source_process_name'', JStr (ce_source_process_name c)),
                 (lit ''was_cleared'', JBool (ce_was_cleared c))])]
         | Some (DFile f) \<Rightarrow>
             [(lit ''file'', JObj
                [(lit ''path'', JStr (fe_path f)),
                 (lit ''size_bytes'', JNum (fe_size_bytes f)),
                 (lit ''mime_type'', JStr (fe_mime_type f))])]
         | Some d \<Rightarrow> [(lit ''other_details'', JStr (debug d))]))"

section \<open>The batch\<close>

text \<open>Of one batch: the outcomes of \<open>BEGIN\<close>, of the insert of each event and of \<open>COMMIT\<close>, and the UUID
  drawn for an event without a valid one.\<close>

record ingest_env =
  ig_parse_uuid :: "rstr \<Rightarrow> uuid option"
  ig_pg_time :: "int \<Rightarrow> int"
  ig_debug :: "details \<Rightarrow> rstr"
  ig_new_uuid :: "nat \<Rightarrow> uuid"
  ig_begin :: outcome
  ig_insert :: "nat \<Rightarrow> outcome"
  ig_commit :: outcome

definition opt_str :: "rstr \<Rightarrow> rstr option" where
  "opt_str s = (if s = [] then None else Some s)"

definition event_to_row :: "ingest_env \<Rightarrow> uuid \<Rightarrow> nat \<Rightarrow> event \<Rightarrow> event_row" where
  "event_to_row env agent i ev =
     \<lparr>er_id = unwrap_or (ig_new_uuid env i) (ig_parse_uuid env (ev_event_id ev)),
      er_timestamp = ig_pg_time env (ev_timestamp_ns ev),
      er_agent_id = agent,
      er_event_type = event_type_to_str (ev_type ev),
      er_severity = severity_to_str (ev_severity ev),
      er_direction = direction_to_str_opt (ev_direction ev),
      er_matched_policy = opt_str (ev_matched_policy_id ev),
      er_matched_rule = opt_str (ev_matched_rule_id ev),
      er_action_taken = action_to_str_opt (ev_action_taken ev),
      er_details = build_details_json (ig_debug env) ev,
      er_forwarded_to_syslog = False\<rparr>"

definition er_key :: "event_row \<Rightarrow> uuid \<times> int" where
  "er_key r = (er_id r, er_timestamp r)"

text \<open>The \<open>CHECK\<close> constraints of the table, and \<open>INSERT \<dots> ON CONFLICT DO NOTHING\<close> with the number of rows
  affected.\<close>

definition event_checks :: "event_row \<Rightarrow> bool" where
  "event_checks r \<longleftrightarrow>
     er_severity r \<in> {lit ''low'', lit ''medium'', lit ''high'', lit ''critical''} \<and>
     (case er_direction r of None \<Rightarrow> True
      | Some s \<Rightarrow> s \<in> {lit ''inbound'', lit ''outbound'', lit ''internal''})"

definition insert_event :: "outcome \<Rightarrow> event_row \<Rightarrow> event_row list \<Rightarrow> sqlx_error + nat \<times> event_row list" where
  "insert_event out r rs =
     (case out of Some e \<Rightarrow> Inl (SqlDriver e) | None \<Rightarrow>
      if \<not> event_checks r then Inl (SqlConstraint (lit ''events_check''))
      else if er_key r \<in> er_key ` set rs then Inr (0, rs)
      else Inr (1, rs @ [r]))"

fun insert_events ::
  "ingest_env \<Rightarrow> uuid \<Rightarrow> nat \<Rightarrow> event list \<Rightarrow> nat \<Rightarrow> event_row list \<Rightarrow> sqlx_error + nat \<times> event_row list" where
  "insert_events env agent i [] inserted rs = Inr (inserted, rs)"
| "insert_events env agent i (ev # evs) inserted rs =
     res_bind (insert_event (ig_insert env i) (event_to_row env agent i ev) rs) (\<lambda>(n, rs).
     insert_events env agent (Suc i) evs (if n > 0 then inserted + 1 else inserted) rs)"

text \<open>The transaction: a \<open>?\<close> before the commit drops it, and nothing is stored.\<close>

definition insert_event_batch :: "ingest_env \<Rightarrow> uuid \<Rightarrow> event_batch \<Rightarrow> db \<Rightarrow> (sqlx_error + nat) \<times> db" where
  "insert_event_batch env agent batch d =
     (case ig_begin env of Some e \<Rightarrow> (Inl (SqlDriver e), d) | None \<Rightarrow>
      (case insert_events env agent 0 (eb_events batch) 0 (db_events d) of
         Inl e \<Rightarrow> (Inl e, d)
       | Inr (inserted, rs) \<Rightarrow>
           (case ig_commit env of Some e \<Rightarrow> (Inl (SqlDriver e), d)
            | None \<Rightarrow> (Inr inserted, d\<lparr>db_events := rs\<rparr>))))"

section \<open>What is stored\<close>

lemma event_to_row_checks: "event_checks (event_to_row env agent i ev)"
  by (simp add: event_checks_def event_to_row_def severity_to_str_def direction_to_str_opt_def)

definition batch_rows :: "ingest_env \<Rightarrow> uuid \<Rightarrow> nat \<Rightarrow> event list \<Rightarrow> event_row list" where
  "batch_rows env agent i evs = map (\<lambda>(j, ev). event_to_row env agent j ev) (enumerate i evs)"

lemma batch_rows_simps [simp]:
  "batch_rows env agent i [] = []"
  "batch_rows env agent i (ev # evs) = event_to_row env agent i ev # batch_rows env agent (Suc i) evs"
  by (simp_all add: batch_rows_def)

text \<open>The rows a sequence of such inserts adds: the first of each key that is not there yet.\<close>

fun new_rows :: "event_row list \<Rightarrow> event_row list \<Rightarrow> event_row list" where
  "new_rows rs [] = []"
| "new_rows rs (x # xs) = (if er_key x \<in> er_key ` set rs then new_rows rs xs else x # new_rows (rs @ [x]) xs)"

lemma insert_events_ok:
  assumes "insert_events env agent i evs k rs = Inr (n, rs')"
  shows "rs' = rs @ new_rows rs (batch_rows env agent i evs) \<and> n = k + length (new_rows rs (batch_rows env agent i evs))"
  using assms
proof (induction evs arbitrary: i k rs)
  case (Cons ev evs)
  from Cons.prems show ?case
    by (auto simp: insert_event_def res_bind_Inr_iff event_to_row_checks dest!: Cons.IH split: option.splits if_splits)
qed simp

lemma insert_events_returns:
  "(\<And>j. ig_insert env j = None) \<Longrightarrow> \<exists>n rs'. insert_events env agent i evs k rs = Inr (n, rs')"
proof (induction evs arbitrary: i k rs)
  case (Cons ev evs)
  then show ?case by (auto simp: insert_event_def event_to_row_checks)
qed simp

lemma new_rows_keys: "er_key ` set (rs @ new_rows rs xs) = er_key ` set rs \<union> er_key ` set xs"
  by (induction rs xs rule: new_rows.induct) auto

lemma new_rows_distinct: "distinct (map er_key rs) \<Longrightarrow> distinct (map er_key (rs @ new_rows rs xs))"
proof (induction rs xs rule: new_rows.induct)
  case (2 rs x xs)
  show ?case
  proof (cases "er_key x \<in> er_key ` set rs")
    case False
    then show ?thesis using 2 by auto
  qed (use 2 in simp)
qed simp

lemma new_rows_none: "er_key ` set xs \<subseteq> er_key ` set rs \<Longrightarrow> new_rows rs xs = []"
  by (induction xs) auto

lemma new_rows_subset: "set (new_rows rs xs) \<subseteq> set xs"
  by (induction rs xs rule: new_rows.induct) auto

lemma insert_event_batch_up:
  assumes "ig_begin env = None" "\<And>i. ig_insert env i = None" "ig_commit env = None"
  shows "insert_event_batch env agent batch d =
    (let new = new_rows (db_events d) (batch_rows env agent 0 (eb_events batch))
     in (Inr (length new), d\<lparr>db_events := db_events d @ new\<rparr>))"
proof -
  obtain n rs where i: "insert_events env agent 0 (eb_events batch) 0 (db_events d) = Inr (n, rs)"
    using insert_events_returns [OF assms(2)] by blast
  then show ?thesis
    using insert_events_ok [OF i] assms(1,3) by (simp add: insert_event_batch_def Let_def)
qed

text \<open>With the database up, storing a batch succeeds: no event violates a constraint of the table,
  every event's id and time end up in it, rows there before stay, keys stay distinct, and the count
  returned is the number of rows that are new.\<close>

theorem batch_is_stored:
  assumes "ig_begin env = None" "\<And>i. ig_insert env i = None" "ig_commit env = None"
    and "distinct (map er_key (db_events d))"
  shows "\<exists>n new. insert_event_batch env agent batch d = (Inr n, d\<lparr>db_events := db_events d @ new\<rparr>) \<and> n = length new \<and>
    set new \<subseteq> set (batch_rows env agent 0 (eb_events batch)) \<and>
    er_key ` set (db_events d @ new) = er_key ` set (db_events d) \<union> er_key ` set (batch_rows env agent 0 (eb_events batch)) \<and>
    distinct (map er_key (db_events d @ new))"
  unfolding insert_event_batch_up [OF assms(1-3)] Let_def
  using new_rows_keys new_rows_distinct [OF assms(4)] new_rows_subset by blast

definition sample_ingest :: "outcome list \<Rightarrow> ingest_env" where
  "sample_ingest outs = \<lparr>ig_parse_uuid = \<lambda>s. if s = lit ''a'' then Some 1 else if s = lit ''b'' then Some 2 else None,
     ig_pg_time = \<lambda>t. t div 1000, ig_debug = \<lambda>_. [], ig_new_uuid = \<lambda>i. of_nat (100 + i), ig_begin = None,
     ig_insert = \<lambda>i. if i < length outs then outs ! i else None, ig_commit = None\<rparr>"

definition sample_batch :: event_batch where
  "sample_batch = \<lparr>eb_batch_id = lit ''x'', eb_events = [sample_event (lit ''a''), sample_event (lit ''b'')]\<rparr>"

theorem batch_is_stored_witness:
  "\<exists>n new. insert_event_batch (sample_ingest []) 7 sample_batch empty_db = (Inr n, empty_db\<lparr>db_events := [] @ new\<rparr>) \<and>
    n = length new \<and> set new \<subseteq> set (batch_rows (sample_ingest []) 7 0 (eb_events sample_batch)) \<and>
    er_key ` set ([] @ new) = er_key ` set [] \<union> er_key ` set (batch_rows (sample_ingest []) 7 0 (eb_events sample_batch)) \<and>
    distinct (map er_key ([] @ new))"
  using batch_is_stored [of "sample_ingest []" empty_db 7 sample_batch] by (simp add: sample_ingest_def empty_db_def)

text \<open>C20: storing a batch again, as an agent does whose connection broke before it could mark the events
  as sent, stores nothing new when the events carry valid ids, whatever happened to the database in
  between: it returns zero and the table stays as it is.\<close>

theorem redelivery_is_idempotent:
  assumes first: "insert_event_batch env agent batch d = (Inr n, d1)"
    and ids: "\<And>ev. ev \<in> set (eb_events batch) \<Longrightarrow> ig_parse_uuid env (ev_event_id ev) \<noteq> None"
    and env: "ig_parse_uuid env2 = ig_parse_uuid env" "ig_pg_time env2 = ig_pg_time env"
    and later: "set (db_events d1) \<subseteq> set (db_events d2)"
    and second: "insert_event_batch env2 agent batch d2 = (r, d3)"
  shows "d3 = d2 \<and> (\<forall>m. r = Inr m \<longrightarrow> m = 0)"
proof -
  have same: "er_key (event_to_row env agent i ev) = er_key (event_to_row env2 agent j ev)"
    if "ev \<in> set (eb_events batch)" for i j ev
    using ids [OF that] env by (auto simp: er_key_def event_to_row_def)
  have keys: "er_key ` set (batch_rows env2 agent j evs) = er_key ` set (batch_rows env agent i evs)"
    if "set evs \<subseteq> set (eb_events batch)" for i j evs
    using that
  proof (induction evs arbitrary: i j)
    case (Cons ev evs)
    have "er_key ` set (batch_rows env2 agent (Suc j) evs) = er_key ` set (batch_rows env agent (Suc i) evs)"
      using Cons by simp
    with same [of ev i j] Cons.prems show ?case by simp
  qed simp
  obtain rs where i: "insert_events env agent 0 (eb_events batch) 0 (db_events d) = Inr (n, rs)" "d1 = d\<lparr>db_events := rs\<rparr>"
    using first by (auto simp: insert_event_batch_def split: option.splits sum.splits)
  have "er_key ` set (batch_rows env agent 0 (eb_events batch)) \<subseteq> er_key ` set (db_events d1)"
    using insert_events_ok [OF i(1)] i(2) new_rows_keys [of "db_events d"] by auto
  then have none: "new_rows (db_events d2) (batch_rows env2 agent 0 (eb_events batch)) = []"
    using keys [of "eb_events batch" 0 0] image_mono [OF later, of er_key] by (intro new_rows_none) simp
  have "n' = 0 \<and> rs' = db_events d2" if "insert_events env2 agent 0 (eb_events batch) 0 (db_events d2) = Inr (n', rs')" for n' rs'
    using insert_events_ok [OF that] none by simp
  then show ?thesis using second
    by (auto simp: insert_event_batch_def split: option.splits sum.splits)
qed

lemma sample_batch_stored:
  "\<exists>d1. insert_event_batch (sample_ingest []) 7 sample_batch empty_db = (Inr 2, d1) \<and> length (db_events d1) = 2"
  by (simp add: insert_event_batch_def sample_batch_def insert_event_def event_to_row_checks sample_ingest_def
      empty_db_def er_key_def event_to_row_def sample_event_def event_checks_def severity_to_str_def direction_to_str_opt_def)

theorem redelivery_is_idempotent_witness:
  "\<exists>d1. insert_event_batch (sample_ingest []) 7 sample_batch empty_db = (Inr 2, d1) \<and>
    snd (insert_event_batch (sample_ingest []) 7 sample_batch d1) = d1"
proof -
  obtain d1 where d1: "insert_event_batch (sample_ingest []) 7 sample_batch empty_db = (Inr 2, d1)"
    using sample_batch_stored by blast
  obtain r d3 where d3: "insert_event_batch (sample_ingest []) 7 sample_batch d1 = (r, d3)" by fastforce
  have "ig_parse_uuid (sample_ingest []) (ev_event_id ev) \<noteq> None" if "ev \<in> set (eb_events sample_batch)" for ev
    using that by (auto simp: sample_batch_def sample_ingest_def sample_event_def)
  from redelivery_is_idempotent [OF d1 this refl refl subset_refl d3] d1 d3 show ?thesis by simp
qed

text \<open>One event the database refuses loses the batch: none of its events is stored, those before and
  after it included.\<close>

theorem one_bad_event_drops_batch:
  assumes "i < length (eb_events batch)" "ig_insert env i = Some e"
  shows "\<exists>err. insert_event_batch env agent batch d = (Inl err, d)"
proof -
  have bad: "\<exists>err. insert_events env agent j evs k rs = Inl err"
    if "j \<le> i" "i < j + length evs" for j evs k rs
    using that
  proof (induction evs arbitrary: j k rs)
    case (Cons ev evs)
    show ?case
    proof (cases "j = i")
      case True
      then show ?thesis using assms(2) by (simp add: insert_event_def)
    next
      case False
      with Cons.prems have "Suc j \<le> i" "i < Suc j + length evs" by simp_all
      from Cons.IH [OF this] show ?thesis
        by (cases "insert_event (ig_insert env j) (event_to_row env agent j ev) rs") (auto split: prod.splits)
    qed
  qed simp
  from bad [of 0 "eb_events batch" 0 "db_events d"] assms(1) show ?thesis
    by (auto simp: insert_event_batch_def split: option.splits)
qed

theorem one_bad_event_drops_batch_witness:
  "\<exists>err. insert_event_batch (sample_ingest [None, Some (lit ''x'')]) 7 sample_batch empty_db = (Inl err, empty_db)"
  by (rule one_bad_event_drops_batch [of 1 _ _ "lit ''x''"]) (simp_all add: sample_batch_def sample_ingest_def)

end
