(* ===== verification/Enrollment.thy ===== *)
theory Enrollment
  imports Manager_Db
begin

text \<open>
  Enrollment of agents and their identity on the stream, \<open>scrooge-manager-bin/src/grpc.rs\<close>:
  the \<open>Enroll\<close> handler, \<open>extract_agent_id\<close> on the verified client certificate, and the check of the
  stream against the agents table. SHA-256, the CA (\<open>sign\<close>), UUIDs and the X.509 parser are parameters.
  \<open>enroll\<close> is its two halves: everything up to the validity of the token, which only reads, and the rest.
\<close>

section \<open>The Enroll handler\<close>

datatype status = InvalidArgument rstr | Unauthenticated rstr | Internal rstr

record agent_info =
  ai_hostname :: rstr
  ai_os :: rstr
  ai_os_version :: rstr
  ai_arch :: rstr
  ai_agent_version :: rstr
  ai_initial_tags :: "(rstr \<times> rstr) list"

record enroll_request =
  eq_enrollment_token :: rstr
  eq_info :: "agent_info option"
  eq_csr_pem :: "u8 list"

record enroll_response =
  es_agent_id :: rstr
  es_cert_pem :: "u8 list"
  es_ca_chain_pem :: "u8 list"

text \<open>The row \<open>EnrollmentTokenRow\<close> the lookup returns.\<close>

definition find_token :: "rstr \<Rightarrow> db \<Rightarrow> enrollment_row option" where
  "find_token h d = find (\<lambda>r. et_token_hash r = h) (db_enrollment d)"

definition token_check :: "int \<Rightarrow> enrollment_row \<Rightarrow> status + unit" where
  "token_check now t =
     (if (case et_expires_at t of Some e \<Rightarrow> e < now | None \<Rightarrow> False)
      then Inl (Unauthenticated (lit ''enrollment token expired''))
      else if (case et_max_uses t of Some m \<Rightarrow> et_uses_count t \<ge> m | None \<Rightarrow> False)
      then Inl (Unauthenticated (lit ''enrollment token usage exceeded''))
      else Inr ())"

text \<open>What the handler uses of the outside: the hash, the CA, the clock, the new id, and the outcomes of
  its three statements.\<close>

record enroll_env =
  en_sha :: "u8 list \<Rightarrow> u8 list"
  en_sign :: "rstr \<Rightarrow> rstr \<Rightarrow> rstr + rstr"
  en_ca_pem :: rstr
  en_show_uuid :: "uuid \<Rightarrow> rstr"
  en_new_id :: uuid
  en_now :: int
  en_lookup :: outcome
  en_insert :: outcome
  en_increment :: outcome

definition token_hash :: "enroll_env \<Rightarrow> enroll_request \<Rightarrow> rstr" where
  "token_hash env req = sha256_hex (en_sha env) (as_bytes (eq_enrollment_token req))"

definition enroll_check :: "enroll_env \<Rightarrow> enroll_request \<Rightarrow> db \<Rightarrow> status + agent_info" where
  "enroll_check env req d =
     res_bind (ok_or (InvalidArgument (lit ''missing AgentInfo'')) (eq_info req)) (\<lambda>info.
     res_bind (map_err (\<lambda>_. Internal (lit ''database error''))
         (sql_query (en_lookup env) (find_token (token_hash env req)) d)) (\<lambda>token.
     res_bind (ok_or (Unauthenticated (lit ''invalid enrollment token'')) token) (\<lambda>t.
     res_bind (token_check (en_now env) t) (\<lambda>_. Inr info))))"

definition valid_os :: "rstr \<Rightarrow> bool" where
  "valid_os s \<longleftrightarrow> s = lit ''windows'' \<or> s = lit ''linux'' \<or> s = lit ''macos''"

text \<open>\<open>INSERT INTO agents\<close> with the constraints of its table.\<close>

definition insert_agent :: "outcome \<Rightarrow> agent_row \<Rightarrow> db \<Rightarrow> (sqlx_error + unit) \<times> db" where
  "insert_agent out a d =
     (case out of Some e \<Rightarrow> (Inl (SqlDriver e), d) | None \<Rightarrow>
      if \<not> valid_os (ag_os a) then (Inl (SqlConstraint (lit ''agents_os_check'')), d)
      else if ag_id a \<in> ag_id ` set (db_agents d) then (Inl (SqlConstraint (lit ''agents_pkey'')), d)
      else if ag_cert_fingerprint a \<in> ag_cert_fingerprint ` set (db_agents d)
      then (Inl (SqlConstraint (lit ''agents_cert_fingerprint_key'')), d)
      else (Inr (), d\<lparr>db_agents := db_agents d @ [a]\<rparr>))"

text \<open>\<open>uses_count = uses_count + 1\<close> on an \<open>INT\<close>: at the end of its range the statement fails and changes nothing,
  and the handler, which only logs a failed count, goes on as when it succeeds.\<close>

definition count_use :: "enrollment_row \<Rightarrow> enrollment_row" where
  "count_use r = (if is_i32 (et_uses_count r + 1) then r\<lparr>et_uses_count := et_uses_count r + 1\<rparr> else r)"

lemma count_use_keeps [simp]:
  "et_token_hash (count_use r) = et_token_hash r" "et_description (count_use r) = et_description r"
  "et_expires_at (count_use r) = et_expires_at r" "et_max_uses (count_use r) = et_max_uses r"
  "et_created_by (count_use r) = et_created_by r"
  by (simp_all add: count_use_def)

definition increment_uses :: "rstr \<Rightarrow> db \<Rightarrow> db" where
  "increment_uses h d = d\<lparr>db_enrollment := upd (\<lambda>r. et_token_hash r = h) count_use (db_enrollment d)\<rparr>"

definition enroll_finish ::
  "enroll_env \<Rightarrow> enroll_request \<Rightarrow> agent_info \<Rightarrow> db \<Rightarrow> (status + enroll_response) \<times> db" where
  "enroll_finish env req info d =
     (let agent_id = en_new_id env
      in case from_utf8 (eq_csr_pem req) of
        None \<Rightarrow> (Inl (InvalidArgument (lit ''CSR must be valid UTF-8 PEM'')), d)
      | Some csr_pem \<Rightarrow>
          (case en_sign env csr_pem (en_show_uuid env agent_id) of
             Inl e \<Rightarrow> (Inl (Internal (lit ''CSR signing failed'')), d)
           | Inr cert_pem \<Rightarrow>
               (case insert_agent (en_insert env)
                   \<lparr>ag_id = agent_id, ag_hostname = ai_hostname info, ag_os = ai_os info,
                    ag_os_version = ai_os_version info, ag_arch = ai_arch info,
                    ag_agent_version = ai_agent_version info, ag_enrolled_at = en_now env,
                    ag_last_seen = Some (en_now env), ag_status = lit ''active'',
                    ag_cert_fingerprint = sha256_hex (en_sha env) (as_bytes cert_pem)\<rparr> d of
                  (Inl e, d) \<Rightarrow> (Inl (Internal (lit ''database error'')), d)
                | (Inr _, d) \<Rightarrow>
                    (Inr \<lparr>es_agent_id = en_show_uuid env agent_id, es_cert_pem = as_bytes cert_pem,
                        es_ca_chain_pem = as_bytes (en_ca_pem env)\<rparr>,
                     snd (sql_exec (en_increment env) (increment_uses (token_hash env req)) d)))))"

definition enroll :: "enroll_env \<Rightarrow> enroll_request \<Rightarrow> db \<Rightarrow> (status + enroll_response) \<times> db" where
  "enroll env req d =
     (case enroll_check env req d of
        Inl e \<Rightarrow> (Inl e, d)
      | Inr info \<Rightarrow> enroll_finish env req info d)"

section \<open>The identity on the stream\<close>

text \<open>A parsed certificate is the common names of its subject, each a string or not.\<close>

definition extract_agent_id ::
  "(rstr \<Rightarrow> uuid option) \<Rightarrow> (u8 list \<Rightarrow> rstr option list option) \<Rightarrow> u8 list list option \<Rightarrow> status + uuid" where
  "extract_agent_id parse_uuid parse_x509 peer_certs =
     res_bind (ok_or (Unauthenticated (lit ''client cert required (mTLS)'')) peer_certs) (\<lambda>certs.
     res_bind (ok_or (Unauthenticated (lit ''no client cert in peer chain''))
         (case certs of [] \<Rightarrow> None | c # _ \<Rightarrow> Some c)) (\<lambda>first.
     res_bind (ok_or (Unauthenticated (lit ''invalid client cert (X.509 parse)'')) (parse_x509 first)) (\<lambda>cns.
     res_bind (ok_or (Unauthenticated (lit ''client cert subject has no CN''))
         (case cns of Some cn # _ \<Rightarrow> Some cn | _ \<Rightarrow> None)) (\<lambda>cn.
     ok_or (Unauthenticated (lit ''client cert CN is not a UUID'')) (parse_uuid cn)))))"

text \<open>The first part of the \<open>Stream\<close> handler: whose stream it is, or why it is refused.\<close>

definition stream_accept ::
  "(rstr \<Rightarrow> uuid option) \<Rightarrow> (u8 list \<Rightarrow> rstr option list option) \<Rightarrow> outcome \<Rightarrow> u8 list list option \<Rightarrow> db \<Rightarrow> status + uuid" where
  "stream_accept parse_uuid parse_x509 out peer_certs d =
     res_bind (extract_agent_id parse_uuid parse_x509 peer_certs) (\<lambda>agent_id.
     res_bind (map_err (\<lambda>_. Internal (lit ''database error''))
         (sql_query out (\<lambda>d. find (\<lambda>a. ag_id a = agent_id) (db_agents d)) d)) (\<lambda>exists.
     if exists = None then Inl (Unauthenticated (lit ''agent not enrolled'')) else Inr agent_id))"

section \<open>What enrollment gives\<close>

lemma insert_agent_ok:
  "insert_agent out a d = (Inr (), d') \<longleftrightarrow> out = None \<and> valid_os (ag_os a) \<and> ag_id a \<notin> ag_id ` set (db_agents d)
    \<and> ag_cert_fingerprint a \<notin> ag_cert_fingerprint ` set (db_agents d) \<and> d' = d\<lparr>db_agents := db_agents d @ [a]\<rparr>"
  by (auto simp: insert_agent_def split: option.splits)

lemma insert_agent_err: "insert_agent out a d = (Inl e, d') \<Longrightarrow> d' = d"
  by (auto simp: insert_agent_def split: option.splits if_splits)

lemma finish_ok:
  assumes "enroll_finish env req info d = (Inr resp, d')"
  obtains csr cert a where "from_utf8 (eq_csr_pem req) = Some csr"
    "en_sign env csr (en_show_uuid env (en_new_id env)) = Inr cert"
    "ag_id a = en_new_id env" "en_new_id env \<notin> ag_id ` set (db_agents d)"
    "d' = snd (sql_exec (en_increment env) (increment_uses (token_hash env req)) (d\<lparr>db_agents := db_agents d @ [a]\<rparr>))"
    "es_agent_id resp = en_show_uuid env (en_new_id env)" "es_cert_pem resp = as_bytes cert"
proof -
  obtain csr cert where s: "from_utf8 (eq_csr_pem req) = Some csr"
    "en_sign env csr (en_show_uuid env (en_new_id env)) = Inr cert"
    using assms by (auto simp: enroll_finish_def Let_def split: option.splits sum.splits)
  let ?a = "\<lparr>ag_id = en_new_id env, ag_hostname = ai_hostname info, ag_os = ai_os info,
      ag_os_version = ai_os_version info, ag_arch = ai_arch info,
      ag_agent_version = ai_agent_version info, ag_enrolled_at = en_now env,
      ag_last_seen = Some (en_now env), ag_status = lit ''active'',
      ag_cert_fingerprint = sha256_hex (en_sha env) (as_bytes cert)\<rparr>"
  obtain r d1 where i: "insert_agent (en_insert env) ?a d = (r, d1)" by fastforce
  have "r = Inr ()" using assms s i by (auto simp: enroll_finish_def Let_def split: sum.splits)
  then have d1: "d1 = d\<lparr>db_agents := db_agents d @ [?a]\<rparr>" "en_new_id env \<notin> ag_id ` set (db_agents d)"
    using i by (auto simp: insert_agent_ok)
  have "es_agent_id resp = en_show_uuid env (en_new_id env)" "es_cert_pem resp = as_bytes cert"
    "d' = snd (sql_exec (en_increment env) (increment_uses (token_hash env req)) d1)"
    using assms s i \<open>r = Inr ()\<close> by (auto simp: enroll_finish_def Let_def)
  with s d1 that [of csr cert ?a] show thesis by simp
qed

lemma check_ok:
  assumes "enroll_check env req d = Inr info"
  obtains t where "eq_info req = Some info" "en_lookup env = None" "find_token (token_hash env req) d = Some t"
    "token_check (en_now env) t = Inr ()"
  using assms
  by (auto simp: enroll_check_def res_bind_Inr_iff ok_or_def map_err_def sql_query_def split: option.splits sum.splits)

lemma enroll_ok:
  assumes "enroll env req d = (Inr resp, d')"
  obtains info t csr cert a where "eq_info req = Some info" "find_token (token_hash env req) d = Some t"
    "token_check (en_now env) t = Inr ()" "from_utf8 (eq_csr_pem req) = Some csr"
    "en_sign env csr (en_show_uuid env (en_new_id env)) = Inr cert"
    "ag_id a = en_new_id env" "en_new_id env \<notin> ag_id ` set (db_agents d)"
    "d' = snd (sql_exec (en_increment env) (increment_uses (token_hash env req)) (d\<lparr>db_agents := db_agents d @ [a]\<rparr>))"
    "es_agent_id resp = en_show_uuid env (en_new_id env)" "es_cert_pem resp = as_bytes cert"
proof -
  obtain info where c: "enroll_check env req d = Inr info" "enroll_finish env req info d = (Inr resp, d')"
    using assms by (auto simp: enroll_def split: sum.splits)
  from c(1) obtain t where t: "eq_info req = Some info" "find_token (token_hash env req) d = Some t"
    "token_check (en_now env) t = Inr ()" by (rule check_ok)
  from c(2) show thesis by (rule finish_ok) (rule that [OF t])
qed

lemma enroll_err: "enroll env req d = (Inl e, d') \<Longrightarrow> d' = d"
  by (auto simp: enroll_def enroll_finish_def Let_def dest: insert_agent_err
      split: sum.splits option.splits prod.splits)

lemma enroll_then_accept:
  assumes "enroll env req d = (Inr resp, d')"
    and ca: "\<And>csr cn cert. en_sign env csr cn = Inr cert \<Longrightarrow> is_ascii cert \<and> parse_x509 (der cert) = Some [Some cn]"
    and uuid: "parse_uuid (en_show_uuid env (en_new_id env)) = Some (en_new_id env)"
  shows "\<exists>cert. from_utf8 (es_cert_pem resp) = Some cert \<and>
    stream_accept parse_uuid parse_x509 None (Some [der cert]) d' = Inr (en_new_id env) \<and>
    parse_uuid (es_agent_id resp) = Some (en_new_id env)"
proof -
  obtain csr c a where e: "en_sign env csr (en_show_uuid env (en_new_id env)) = Inr c"
    "ag_id a = en_new_id env" "es_agent_id resp = en_show_uuid env (en_new_id env)" "es_cert_pem resp = as_bytes c"
    "d' = snd (sql_exec (en_increment env) (increment_uses (token_hash env req)) (d\<lparr>db_agents := db_agents d @ [a]\<rparr>))"
    using enroll_ok [OF assms(1)] by metis
  note c = ca [OF e(1)]
  then have "extract_agent_id parse_uuid parse_x509 (Some [der c]) = Inr (en_new_id env)"
    using uuid by (simp add: extract_agent_id_def)
  moreover have "db_agents d' = db_agents d @ [a]"
    by (cases "en_increment env") (simp_all add: e(5) increment_uses_def)
  then have "find (\<lambda>a. ag_id a = en_new_id env) (db_agents d') \<noteq> None"
    using e(2) by (auto simp: find_None_iff)
  ultimately show ?thesis using e(3,4) uuid c from_utf8_ascii [of c] by (simp add: stream_accept_def)
qed

text \<open>An agent that enrolled opens a stream under exactly the id it was given: the certificate the
  CA signed for that id is accepted, as long as the agent is in the database.\<close>

theorem enrolled_agent_is_accepted:
  assumes "enroll env req d = (Inr resp, d')"
    and ca: "\<And>csr cn cert. en_sign env csr cn = Inr cert \<Longrightarrow> is_ascii cert \<and> parse_x509 (der cert) = Some [Some cn]"
    and uuid: "parse_uuid (en_show_uuid env (en_new_id env)) = Some (en_new_id env)"
  shows "\<exists>cert. from_utf8 (es_cert_pem resp) = Some cert \<and>
    stream_accept parse_uuid parse_x509 None (Some [der cert]) d' = Inr (en_new_id env) \<and>
    parse_uuid (es_agent_id resp) = Some (en_new_id env)"
  using assms by (rule enroll_then_accept)

definition sample_env :: "uuid \<Rightarrow> enroll_env" where
  "sample_env i = \<lparr>en_sha = id, en_sign = \<lambda>csr cn. if cn = lit ''1'' \<or> cn = lit ''2'' then Inr cn else Inl cn, en_ca_pem = lit ''ca'',
     en_show_uuid = \<lambda>u. if u = 1 then lit ''1'' else lit ''2'', en_new_id = i, en_now = 100,
     en_lookup = None, en_insert = None, en_increment = None\<rparr>"

definition sample_request :: enroll_request where
  "sample_request = \<lparr>eq_enrollment_token = lit ''t'', eq_info = Some \<lparr>ai_hostname = lit ''h'', ai_os = lit ''linux'',
     ai_os_version = [], ai_arch = [], ai_agent_version = [], ai_initial_tags = []\<rparr>, eq_csr_pem = []\<rparr>"

text \<open>A database with a token for one use.\<close>

definition one_use_db :: db where
  "one_use_db = empty_db\<lparr>db_enrollment := [\<lparr>et_token_hash = hex_bytes (as_bytes (lit ''t'')), et_description = None,
     et_expires_at = Some 200, et_max_uses = Some 1, et_uses_count = 0, et_created_by = None\<rparr>]\<rparr>"

lemmas sample_enroll = enroll_def enroll_check_def enroll_finish_def find_token_def token_hash_def sha256_hex_def
  token_check_def sample_env_def sample_request_def one_use_db_def empty_db_def insert_agent_def valid_os_def
  increment_uses_def count_use_def is_i32_def


theorem enrolled_agent_is_accepted_witness:
  "\<exists>cert. from_utf8 (as_bytes (lit ''1'')) = Some cert \<and>
    stream_accept (\<lambda>s. if s = lit ''1'' then Some 1 else None)
      (\<lambda>b. if b = [49] then Some [Some (lit ''1'')] else Some [Some (lit ''2'')])
      None (Some [map of_nat cert]) (snd (enroll (sample_env 1) sample_request one_use_db)) = Inr 1"
proof -
  obtain r d' where e: "enroll (sample_env 1) sample_request one_use_db = (r, d')" by fastforce
  have "\<exists>resp. r = Inr resp \<and> es_cert_pem resp = as_bytes (lit ''1'')"
    using e by (auto simp: sample_enroll Let_def)
  then obtain resp where r: "r = Inr resp" "es_cert_pem resp = as_bytes (lit ''1'')" by blast
  have l: "lit ''1'' = [49]" "lit ''2'' = [50]" by (simp_all add: lit_def)
  have "\<exists>cert. from_utf8 (es_cert_pem resp) = Some cert \<and>
    stream_accept (\<lambda>s. if s = lit ''1'' then Some 1 else None)
      (\<lambda>b. if b = [49] then Some [Some (lit ''1'')] else Some [Some (lit ''2'')])
      None (Some [map of_nat cert]) d' = Inr (en_new_id (sample_env 1)) \<and>
    (\<lambda>s. if s = lit ''1'' then Some 1 else None) (es_agent_id resp) = Some (en_new_id (sample_env 1))"
  proof (rule enrolled_agent_is_accepted [OF e [unfolded r]])
    fix csr cn cert
    assume "en_sign (sample_env 1) csr cn = Inr cert"
    then have cn: "cn = cert" "cert = [49] \<or> cert = [50]" by (auto simp: sample_env_def l split: if_splits)
    show "is_ascii cert \<and> (if map of_nat cert = [49 :: u8] then Some [Some (lit ''1'')] else Some [Some (lit ''2'')])
      = Some [Some cn]" using cn(2) unfolding cn(1) by (elim disjE) (simp_all add: l)
  qed (simp add: sample_env_def)
  then show ?thesis using r e by (auto simp: sample_env_def)
qed

section \<open>The limit on the uses of a token\<close>

text \<open>Enrollments one after the other, each with its own environment.\<close>

fun enroll_seq :: "(enroll_env \<times> enroll_request) list \<Rightarrow> db \<Rightarrow> (rstr \<times> (status + enroll_response)) list \<times> db" where
  "enroll_seq [] d = ([], d)"
| "enroll_seq ((env, req) # rs) d =
     (let (r, d1) = enroll env req d; (out, d2) = enroll_seq rs d1
      in ((token_hash env req, r) # out, d2))"

definition enrolled_with :: "rstr \<Rightarrow> (rstr \<times> (status + enroll_response)) list \<Rightarrow> nat" where
  "enrolled_with h out = length (filter (\<lambda>(k, r). k = h \<and> \<not> isl r) out)"

lemma enrolled_with_simps [simp]:
  "enrolled_with h [] = 0"
  "enrolled_with h ((k, r) # out) = (if k = h \<and> \<not> isl r then 1 else 0) + enrolled_with h out"
  by (simp_all add: enrolled_with_def)

text \<open>Of those, the ones whose use the manager failed to count.\<close>

definition uncounted :: "rstr \<Rightarrow> (enroll_env \<times> enroll_request) list \<Rightarrow> (rstr \<times> (status + enroll_response)) list \<Rightarrow> nat" where
  "uncounted h rs out =
     length (filter (\<lambda>((env, req), (k, r)). k = h \<and> \<not> isl r \<and> en_increment env \<noteq> None) (zip rs out))"

lemma uncounted_simps [simp]:
  "uncounted h [] [] = 0"
  "uncounted h ((env, req) # rs) ((k, r) # out) =
     (if k = h \<and> \<not> isl r \<and> en_increment env \<noteq> None then 1 else 0) + uncounted h rs out"
  by (simp_all add: uncounted_def)

lemma find_token_increment:
  "find_token h (increment_uses k d) = map_option (\<lambda>t. if h = k then count_use t else t) (find_token h d)"
proof -
  have "find (\<lambda>r. et_token_hash r = h) (upd (\<lambda>r. et_token_hash r = k) count_use (db_enrollment d)) =
    map_option (\<lambda>r. if et_token_hash r = k then count_use r else r) (find (\<lambda>r. et_token_hash r = h) (db_enrollment d))"
    by (rule find_upd) simp
  then show ?thesis
    by (auto simp: find_token_def increment_uses_def find_Some_iff split: option.splits
        intro!: option.map_cong)
qed

lemma find_token_agents [simp]: "find_token h (d\<lparr>db_agents := as\<rparr>) = find_token h d"
  by (simp add: find_token_def)

text \<open>What one enrollment does to a token: its use is counted exactly when the enrollment succeeds with it and the
  statement that counts does.\<close>

lemma finish_token:
  assumes "enroll_finish env req info d = (Inr resp, d')" "find_token h d = Some t"
  shows "find_token h d' = Some (if token_hash env req = h \<and> en_increment env = None then count_use t else t)"
proof -
  obtain a where "d' = snd (sql_exec (en_increment env) (increment_uses (token_hash env req))
      (d\<lparr>db_agents := db_agents d @ [a]\<rparr>))"
    using assms(1) by (rule finish_ok)
  with assms(2) show ?thesis by (cases "en_increment env") (simp_all add: find_token_increment)
qed

lemma enroll_token:
  assumes "enroll env req d = (r, d')" "find_token h d = Some t"
  shows "find_token h d' = Some (if token_hash env req = h \<and> \<not> isl r \<and> en_increment env = None
      then count_use t else t)"
proof (cases r)
  case (Inl e)
  with assms(1) have "d' = d" by (auto dest: enroll_err)
  with Inl assms(2) show ?thesis by simp
next
  case (Inr resp)
  then obtain info where "enroll_finish env req info d = (Inr resp, d')"
    using assms(1) by (auto simp: enroll_def split: sum.splits)
  from finish_token [OF this assms(2)] Inr show ?thesis by simp
qed

lemma enroll_token_room:
  assumes "enroll env req d = (Inr resp, d')" "find_token (token_hash env req) d = Some t" "et_max_uses t = Some m"
  shows "et_uses_count t < m"
proof -
  obtain s where "find_token (token_hash env req) d = Some s" "token_check (en_now env) s = Inr ()"
    using enroll_ok [OF assms(1)] by metis
  with assms(2,3) show ?thesis by (auto simp: token_check_def split: if_splits)
qed

lemma count_use_room: "et_uses_count t < m \<Longrightarrow> is_i32 m \<Longrightarrow> 0 \<le> et_uses_count t \<Longrightarrow> et_uses_count (count_use t) = et_uses_count t + 1"
  by (simp add: count_use_def is_i32_def)

lemma enrolled_with_bound:
  assumes "enroll_seq rs d = (out, d')" "find_token h d = Some t" "et_max_uses t = Some m" "is_i32 m"
    and "0 \<le> et_uses_count t" "et_uses_count t \<le> m"
  shows "int (enrolled_with h out) \<le> m - et_uses_count t + int (uncounted h rs out) \<and>
    (\<exists>t'. find_token h d' = Some t' \<and> et_max_uses t' = Some m \<and>
      et_uses_count t' = et_uses_count t + int (enrolled_with h out) - int (uncounted h rs out))"
  using assms
proof (induction rs arbitrary: d t out d')
  case (Cons x rs)
  obtain env req where x: "x = (env, req)" by fastforce
  obtain r d1 where e: "enroll env req d = (r, d1)" by fastforce
  obtain out2 d2 where s: "enroll_seq rs d1 = (out2, d2)" by fastforce
  have out: "out = (token_hash env req, r) # out2" "d' = d2" using Cons.prems(1) x e s by (simp_all add: Let_def)
  let ?counts = "token_hash env req = h \<and> \<not> isl r \<and> en_increment env = None"
  let ?t = "if ?counts then count_use t else t"
  have t: "find_token h d1 = Some ?t" using enroll_token [OF e Cons.prems(2)] .
  have room: "et_uses_count t < m" if "token_hash env req = h" "\<not> isl r"
    using enroll_token_room [of env req d _ d1 t m] e that Cons.prems(2,3) by (cases r) auto
  have cnt: "et_uses_count ?t = et_uses_count t + (if ?counts then 1 else 0)"
    using room count_use_room [OF _ Cons.prems(4,5)] by auto
  have "int (enrolled_with h out2) \<le> m - et_uses_count ?t + int (uncounted h rs out2) \<and>
    (\<exists>t'. find_token h d2 = Some t' \<and> et_max_uses t' = Some m \<and>
      et_uses_count t' = et_uses_count ?t + int (enrolled_with h out2) - int (uncounted h rs out2))"
    using Cons.prems(3-6) cnt room by (intro Cons.IH [OF s t]) auto
  then show ?case unfolding cnt out x by auto
qed simp

text \<open>Enrollments with other tokens leave a token as it is; and sequences can be cut.\<close>

lemma enroll_seq_append:
  "enroll_seq (xs @ ys) d =
     (case enroll_seq xs d of (o1, e) \<Rightarrow> (case enroll_seq ys e of (o2, f) \<Rightarrow> (o1 @ o2, f)))"
  by (induction xs arbitrary: d) (auto simp: Let_def split: prod.splits)

lemma enrolled_with_append [simp]: "enrolled_with h (xs @ ys) = enrolled_with h xs + enrolled_with h ys"
  by (simp add: enrolled_with_def)

lemma enroll_seq_others:
  assumes "enroll_seq rs d = (out, d')" "\<forall>(env, req) \<in> set rs. token_hash env req \<noteq> h" "find_token h d = Some t"
  shows "find_token h d' = Some t \<and> enrolled_with h out = 0"
  using assms
proof (induction rs arbitrary: d out d')
  case (Cons x rs)
  obtain env req where x: "x = (env, req)" by fastforce
  obtain r d1 where e: "enroll env req d = (r, d1)" by fastforce
  obtain out2 d2 where s: "enroll_seq rs d1 = (out2, d2)" by fastforce
  have "find_token h d1 = Some t" using enroll_token [OF e Cons.prems(3)] Cons.prems(2) x by auto
  with Cons.IH [OF s] Cons.prems(1,2) x e s show ?case by (auto simp: Let_def)
qed simp

lemma all_counted:
  assumes "enroll_seq rs d = (out, d')" "\<forall>(env, req) \<in> set rs. token_hash env req = h \<longrightarrow> en_increment env = None"
  shows "uncounted h rs out = 0"
  using assms
  by (induction rs arbitrary: d out) (auto simp: Let_def split: prod.splits)

text \<open>C19: enrollments one after the other leave in a token the uses it had plus those that succeeded with it, but for
  the ones whose use the manager failed to count, which it logs and ignores; so at most as many succeed as the token
  has uses left and there are such failures.\<close>

theorem token_uses_bounded:
  assumes "enroll_seq rs d = (out, d')" "find_token h d = Some t" "et_max_uses t = Some m" "is_i32 m"
    and "0 \<le> et_uses_count t" "et_uses_count t \<le> m"
  shows "int (enrolled_with h out) \<le> m - et_uses_count t + int (uncounted h rs out) \<and>
    (\<exists>t'. find_token h d' = Some t' \<and> et_max_uses t' = Some m \<and>
      et_uses_count t' = et_uses_count t + int (enrolled_with h out) - int (uncounted h rs out))"
  using assms by (rule enrolled_with_bound)

lemma one_use_token:
  "find_token (hex_bytes (as_bytes (lit ''t''))) one_use_db = Some
     \<lparr>et_token_hash = hex_bytes (as_bytes (lit ''t'')), et_description = None,
      et_expires_at = Some 200, et_max_uses = Some 1, et_uses_count = 0, et_created_by = None\<rparr>"
  by (simp add: find_token_def one_use_db_def)

theorem token_uses_bounded_witness:
  "int (enrolled_with (hex_bytes (as_bytes (lit ''t'')))
     (fst (enroll_seq [(sample_env 1, sample_request), (sample_env 2, sample_request)] one_use_db))) \<le> 1"
proof -
  obtain out d' where r: "enroll_seq [(sample_env 1, sample_request), (sample_env 2, sample_request)] one_use_db = (out, d')"
    by fastforce
  then obtain x y where "out = [x, y]" by (auto simp: Let_def split: prod.splits)
  then have "uncounted h [(sample_env 1, sample_request), (sample_env 2, sample_request)] out = 0" for h
    by (cases x; cases y) (simp add: sample_env_def)
  with token_uses_bounded [OF r one_use_token, of 1] r show ?thesis by (simp add: is_i32_def)
qed



end
