(* ===== verification/Agent_Inbound.thy ===== *)
theory Agent_Inbound
  imports Policy_Push Event_Ingest Enrollment
begin

text \<open>
  The \<open>Stream\<close> handler of \<open>scrooge-manager-bin/src/grpc.rs\<close> once a stream is accepted: the loop over
  the agent's messages, and the end of the stream.
\<close>

section \<open>The loop\<close>

record inbound_env =
  ib_update :: outcome
  ib_now :: int
  ib_now_ns :: int
  ib_ingest :: ingest_env

text \<open>\<open>UPDATE agents SET last_seen = NOW(), agent_version = COALESCE(NULLIF($1, ''), agent_version)\<close>.\<close>

definition touch_agent :: "int \<Rightarrow> rstr \<Rightarrow> uuid \<Rightarrow> db \<Rightarrow> db" where
  "touch_agent now version agent d = d\<lparr>db_agents := upd (\<lambda>r. ag_id r = agent)
     (\<lambda>r. r\<lparr>ag_last_seen := Some now, ag_agent_version := (if version = [] then ag_agent_version r else version)\<rparr>)
     (db_agents d)\<rparr>"

text \<open>One message: whether the loop goes on, the database and the channel to the agent.\<close>

definition handle_agent_message ::
  "inbound_env \<Rightarrow> uuid \<Rightarrow> status + agent_message \<Rightarrow> db \<Rightarrow> manager_message chan \<Rightarrow> bool \<times> db \<times> manager_message chan" where
  "handle_agent_message env agent msg d tx =
     (case msg of
        Inr (Some (AHeartbeat hb)) \<Rightarrow>
          let d = snd (sql_exec (ib_update env) (touch_agent (ib_now env) (hb_agent_version hb) agent) d)
          in (case ch_send (Some (MHeartbeatAck (ib_now_ns env))) tx of
                None \<Rightarrow> (False, d, tx)
              | Some tx \<Rightarrow> (True, d, tx))
      | Inr (Some (APolicyAck ack)) \<Rightarrow>
          let version = unwrap_or 0 (i32_of_u32 (pa_version ack))
          in (True,
              (if pa_status ack = 1 then snd (mark_acked (ib_update env) agent (pa_policy_id ack) version d) else d),
              tx)
      | Inr (Some (AEvents batch)) \<Rightarrow> (True, snd (insert_event_batch (ib_ingest env) agent batch d), tx)
      | Inr (Some (AEvent ev)) \<Rightarrow>
          (True,
           snd (insert_event_batch (ib_ingest env) agent \<lparr>eb_batch_id = ev_event_id ev, eb_events = [ev]\<rparr> d),
           tx)
      | Inr _ \<Rightarrow> (True, d, tx)
      | Inl e \<Rightarrow> (False, d, tx))"

fun stream_inbound ::
  "uuid \<Rightarrow> (inbound_env \<times> (status + agent_message)) list \<Rightarrow> db \<Rightarrow> manager_message chan \<Rightarrow> db \<times> manager_message chan" where
  "stream_inbound agent [] d tx = (d, tx)"
| "stream_inbound agent ((env, msg) # ms) d tx =
     (case handle_agent_message env agent msg d tx of
        (True, d, tx) \<Rightarrow> stream_inbound agent ms d tx
      | (False, d, tx) \<Rightarrow> (d, tx))"

text \<open>The task: the loop, and then the agent leaves the registry.\<close>

definition stream_task ::
  "uuid \<Rightarrow> (inbound_env \<times> (status + agent_message)) list \<Rightarrow> agent_registry \<Rightarrow> db \<Rightarrow> manager_message chan \<Rightarrow> agent_registry \<times> db \<times> manager_message chan" where
  "stream_task agent ms r d tx = (unregister_agent agent r, stream_inbound agent ms d tx)"

section \<open>What an agent can reach\<close>

text \<open>All but what belongs to an agent: nothing but its own rows and new events of its own differs.\<close>

definition only_own :: "uuid \<Rightarrow> db \<Rightarrow> db \<Rightarrow> bool" where
  "only_own agent d d' \<longleftrightarrow>
     db_policies d' = db_policies d \<and> db_history d' = db_history d \<and> db_history_seq d' = db_history_seq d \<and>
     db_users d' = db_users d \<and> db_refresh d' = db_refresh d \<and> db_enrollment d' = db_enrollment d \<and>
     map ag_id (db_agents d') = map ag_id (db_agents d) \<and>
     filter (\<lambda>r. ag_id r \<noteq> agent) (db_agents d') = filter (\<lambda>r. ag_id r \<noteq> agent) (db_agents d) \<and>
     filter (\<lambda>r. pas_agent_id r \<noteq> agent) (db_assignments d') = filter (\<lambda>r. pas_agent_id r \<noteq> agent) (db_assignments d) \<and>
     (\<exists>new. db_events d' = db_events d @ new \<and> (\<forall>r \<in> set new. er_agent_id r = agent))"

lemma only_own_refl [simp]: "only_own agent d d"
  by (simp add: only_own_def)

lemma only_own_trans: "only_own agent d d' \<Longrightarrow> only_own agent d' d'' \<Longrightarrow> only_own agent d d''"
  by (auto simp: only_own_def)

lemma filter_upd_other:
  "(\<And>r. P r \<Longrightarrow> \<not> Q r \<and> \<not> Q (f r)) \<Longrightarrow> filter Q (upd P f rs) = filter Q rs"
  by (induction rs) auto

lemma only_own_ack: "only_own agent d (snd (mark_acked out agent n v d))"
  by (cases out) (auto simp: only_own_def mark_acked_def intro!: filter_upd_other)

lemma only_own_touch: "only_own agent d (touch_agent now v agent d)"
  by (auto simp: only_own_def touch_agent_def map_upd_key intro!: filter_upd_other)

lemma only_own_batch: "only_own agent d (snd (insert_event_batch env agent batch d))"
proof (cases "insert_events env agent 0 (eb_events batch) 0 (db_events d)")
  case (Inr x)
  obtain n rs where x: "x = (n, rs)" by fastforce
  have "er_agent_id r = agent" if "r \<in> set (batch_rows env agent 0 (eb_events batch))" for r
    using that by (auto simp: batch_rows_def event_to_row_def)
  with insert_events_ok [OF Inr [unfolded x]] Inr x new_rows_subset show ?thesis
    by (auto simp: only_own_def insert_event_batch_def split: option.split)
qed (auto simp: insert_event_batch_def split: option.split)

lemma only_own_message: "only_own agent d (fst (snd (handle_agent_message env agent msg d tx)))"
proof -
  have hb: "only_own agent d (snd (sql_exec out (touch_agent now v agent) d))" for out now v
    by (cases out) (simp_all add: only_own_touch)
  show ?thesis
    by (auto simp: handle_agent_message_def hb only_own_ack only_own_batch Let_def
        split: sum.split option.split agent_payload.split)
qed

definition sample_inbound :: inbound_env where
  "sample_inbound = \<lparr>ib_update = None, ib_now = 9, ib_now_ns = 9000, ib_ingest = sample_ingest []\<rparr>"

section \<open>Acknowledgements through the stream\<close>

text \<open>The acknowledgements of an update, all of success, settle its policies.\<close>

lemma stream_acks:
  assumes "\<forall>(env, m) \<in> set ms. ib_update env = None" "map snd ms = map (\<lambda>p. Inr (ack p)) ps"
    and "\<And>p. \<exists>a. ack p = Some (APolicyAck a) \<and> pa_status a = 1 \<and> pa_policy_id a = pref_policy_id p \<and>
      pa_version a = pref_version p"
  shows "stream_inbound agent ms d tx = (each ack_at agent (map ref_key ps) d, tx)"
  using assms(1,2)
proof (induction ps arbitrary: ms d)
  case (Cons p ps)
  obtain env ms' where ms: "ms = (env, Inr (ack p)) # ms'" using Cons.prems(2) by (cases ms) auto
  obtain a where a: "ack p = Some (APolicyAck a)" "pa_status a = 1" "pa_policy_id a = pref_policy_id p"
    "pa_version a = pref_version p" using assms(3) by blast
  have "ib_update env = None" using Cons.prems(1) ms by simp
  then have "handle_agent_message env agent (Inr (ack p)) d tx = (True, ack_at agent (fst (ref_key p)) (snd (ref_key p)) d, tx)"
    using a by (simp add: handle_agent_message_def ack_at_def ref_key_def)
  then show ?case using Cons ms by simp
qed simp

end
