(* ===== verification/Auth.thy ===== *)
theory Auth
  imports Manager_Db
begin

text \<open>
  The errors of the REST API, \<open>scrooge-manager-api/src/error.rs\<close>, and its authentication,
  \<open>scrooge-manager-api/src/auth.rs\<close> with \<open>scrooge-common/src/crypto.rs\<close>: the extractor of the claims of
  a request, login, and the rotation of refresh tokens. JWT, bcrypt, SHA-256, UUIDs and the clock are
  parameters. A handler returns its answer and the database; \<open>None\<close> for the answer is a panic.
\<close>

section \<open>Errors\<close>

datatype api_error =
    InvalidCredentials | InvalidToken | Unauthorized | Forbidden | NotFound
  | BadRequest rstr | ServiceUnavailable rstr | Database sqlx_error | Internal rstr

definition api_message :: "api_error \<Rightarrow> rstr" where
  "api_message e =
     (case e of
        InvalidCredentials \<Rightarrow> lit ''invalid credentials''
      | InvalidToken \<Rightarrow> lit ''invalid or expired token''
      | Unauthorized \<Rightarrow> lit ''not authenticated''
      | Forbidden \<Rightarrow> lit ''forbidden''
      | NotFound \<Rightarrow> lit ''not found''
      | BadRequest m \<Rightarrow> lit ''bad request: '' @ m
      | ServiceUnavailable m \<Rightarrow> lit ''service unavailable: '' @ m
      | Database _ \<Rightarrow> lit ''database error''
      | Internal m \<Rightarrow> lit ''internal error: '' @ m)"

text \<open>Status code, error code and message of the response.\<close>

definition into_response :: "api_error \<Rightarrow> nat \<times> rstr \<times> rstr" where
  "into_response e =
     (let (status, code) =
        (case e of
           InvalidCredentials \<Rightarrow> (401, ''invalid_credentials'')
         | InvalidToken \<Rightarrow> (401, ''invalid_token'')
         | Unauthorized \<Rightarrow> (401, ''unauthorized'')
         | Forbidden \<Rightarrow> (403, ''forbidden'')
         | NotFound \<Rightarrow> (404, ''not_found'')
         | BadRequest _ \<Rightarrow> (400, ''bad_request'')
         | ServiceUnavailable _ \<Rightarrow> (503, ''service_unavailable'')
         | Database _ \<Rightarrow> (500, ''database_error'')
         | Internal _ \<Rightarrow> (500, ''internal_error''))
      in (status, lit code, api_message e))"

text \<open>The \<open>?\<close> on a \<open>sqlx\<close> result.\<close>

definition db_err :: "sqlx_error + 'a \<Rightarrow> api_error + 'a" where
  "db_err r = map_err Database r"

lemma db_err_simps [simp]: "db_err (Inl e) = Inl (Database e)" "db_err (Inr a) = Inr a"
  by (simp_all add: db_err_def)

section \<open>Claims\<close>

record claims =
  cl_sub :: rstr
  cl_username :: rstr
  cl_role :: rstr
  cl_exp :: int
  cl_iat :: int

definition require_admin :: "claims \<Rightarrow> api_error + unit" where
  "require_admin c = (if cl_role c = lit ''admin'' then Inr () else Inl Forbidden)"

definition strip_prefix :: "rstr \<Rightarrow> rstr \<Rightarrow> rstr option" where
  "strip_prefix p s = (if take (length p) s = p then Some (drop (length p) s) else None)"

text \<open>The header is \<open>None\<close> when it is absent or not text; \<open>decode\<close> is the check of the signature and of the
  expiry, with the key of the state and a leeway of five seconds.\<close>

definition from_request_parts :: "(rstr \<Rightarrow> claims option) \<Rightarrow> rstr option \<Rightarrow> api_error + claims" where
  "from_request_parts decode header =
     res_bind (ok_or Unauthorized header) (\<lambda>h.
     res_bind (ok_or Unauthorized (strip_prefix (lit ''Bearer '') h)) (\<lambda>t.
     ok_or InvalidToken (decode (trim t))))"

section \<open>Tokens\<close>

definition hash_token :: "(u8 list \<Rightarrow> u8 list) \<Rightarrow> rstr \<Rightarrow> rstr" where
  "hash_token sha raw = sha256_hex sha (as_bytes raw)"

record login_response =
  lr_access_token :: rstr
  lr_refresh_token :: rstr
  lr_token_type :: rstr
  lr_expires_in :: u64

text \<open>\<open>au_after\<close> is \<open>Utc::now() + Duration::seconds\<close>, \<open>None\<close> where chrono panics.\<close>

record auth_env =
  au_sha :: "u8 list \<Rightarrow> u8 list"
  au_encode :: "claims \<Rightarrow> rstr option"
  au_verify :: "rstr \<Rightarrow> rstr \<Rightarrow> rstr + bool"
  au_access_ttl :: u64
  au_refresh_ttl :: u64
  au_now :: int
  au_after :: "int \<Rightarrow> int option"
  au_show_uuid :: "uuid \<Rightarrow> rstr"
  au_new_uuid :: uuid
  au_select :: outcome
  au_update :: outcome
  au_insert :: outcome

definition verify_password :: "auth_env \<Rightarrow> rstr \<Rightarrow> rstr \<Rightarrow> rstr + bool" where
  "verify_password env password hash = au_verify env password hash"

definition i64_of_u64 :: "u64 \<Rightarrow> int option" where
  "i64_of_u64 w = (if unat w < 2 ^ 63 then Some (int (unat w)) else None)"

definition wrap_i64 :: "int \<Rightarrow> int" where
  "wrap_i64 i = (i + 2 ^ 63) mod 2 ^ 64 - 2 ^ 63"

definition insert_refresh :: "outcome \<Rightarrow> refresh_row \<Rightarrow> db \<Rightarrow> (sqlx_error + unit) \<times> db" where
  "insert_refresh out r d =
     (case out of Some e \<Rightarrow> (Inl (SqlDriver e), d) | None \<Rightarrow>
      if rt_token_hash r \<in> rt_token_hash ` set (db_refresh d)
      then (Inl (SqlConstraint (lit ''refresh_tokens_pkey'')), d)
      else if rt_user_id r \<notin> us_id ` set (db_users d)
      then (Inl (SqlConstraint (lit ''refresh_tokens_user_id_fkey'')), d)
      else (Inr (), d\<lparr>db_refresh := db_refresh d @ [r]\<rparr>))"

definition token_claims :: "auth_env \<Rightarrow> uuid \<Rightarrow> rstr \<Rightarrow> rstr \<Rightarrow> int \<Rightarrow> claims" where
  "token_claims env user_id username role ttl =
     \<lparr>cl_sub = au_show_uuid env user_id, cl_username = username, cl_role = role,
      cl_exp = wrap_i64 (au_now env + ttl), cl_iat = au_now env\<rparr>"

definition issue_tokens ::
  "auth_env \<Rightarrow> uuid \<Rightarrow> rstr \<Rightarrow> rstr \<Rightarrow> db \<Rightarrow> (api_error + login_response) option \<times> db" where
  "issue_tokens env user_id username role d =
     (case i64_of_u64 (au_access_ttl env) of
        None \<Rightarrow> (Some (Inl (Internal (lit ''access_ttl overflow''))), d)
      | Some ttl \<Rightarrow>
          (case au_encode env (token_claims env user_id username role ttl) of
             None \<Rightarrow> (Some (Inl (Internal (lit ''JWT encode failed''))), d)
           | Some access_token \<Rightarrow>
               (let refresh_raw = au_show_uuid env (au_new_uuid env);
                    refresh_hash = hash_token (au_sha env) refresh_raw
                in case i64_of_u64 (au_refresh_ttl env) of
                     None \<Rightarrow> (Some (Inl (Internal (lit ''refresh_ttl overflow''))), d)
                   | Some refresh_ttl \<Rightarrow>
                       (case au_after env refresh_ttl of
                          None \<Rightarrow> (None, d)
                        | Some expires_at \<Rightarrow>
                            (case insert_refresh (au_insert env) \<lparr>rt_token_hash = refresh_hash, rt_user_id = user_id,
                                 rt_expires_at = expires_at, rt_revoked = False\<rparr> d of
                               (Inl e, d) \<Rightarrow> (Some (Inl (Database e)), d)
                             | (Inr _, d) \<Rightarrow>
                                 (Some (Inr \<lparr>lr_access_token = access_token, lr_refresh_token = refresh_raw,
                                    lr_token_type = lit ''Bearer'', lr_expires_in = au_access_ttl env\<rparr>), d))))))"

section \<open>Login\<close>

definition login_check :: "auth_env \<Rightarrow> rstr \<Rightarrow> rstr \<Rightarrow> db \<Rightarrow> api_error + user_row" where
  "login_check env username password d =
     res_bind (db_err (sql_query (au_select env) (\<lambda>d. find (\<lambda>u. us_username u = username) (db_users d)) d)) (\<lambda>user.
     res_bind (ok_or InvalidCredentials user) (\<lambda>u.
     if \<not> us_enabled u then Inl InvalidCredentials
     else res_bind (map_err (\<lambda>_. InvalidCredentials) (verify_password env password (us_password_hash u))) (\<lambda>ok.
       if \<not> ok then Inl InvalidCredentials else Inr u)))"

definition set_last_login :: "int \<Rightarrow> uuid \<Rightarrow> db \<Rightarrow> db" where
  "set_last_login now i d = d\<lparr>db_users := upd (\<lambda>u. us_id u = i) (\<lambda>u. u\<lparr>us_last_login := Some now\<rparr>) (db_users d)\<rparr>"

definition login :: "auth_env \<Rightarrow> rstr \<Rightarrow> rstr \<Rightarrow> db \<Rightarrow> (api_error + login_response) option \<times> db" where
  "login env username password d =
     (case login_check env username password d of
        Inl e \<Rightarrow> (Some (Inl e), d)
      | Inr u \<Rightarrow>
          (case sql_exec (au_update env) (set_last_login (au_now env) (us_id u)) d of
             (Inl e, d) \<Rightarrow> (Some (Inl (Database e)), d)
           | (Inr _, d) \<Rightarrow> issue_tokens env (us_id u) (us_username u) (us_role u) d))"

section \<open>Refresh\<close>

text \<open>The join of the token with its user; \<open>refresh_check\<close> reads, \<open>refresh_finish\<close> writes.\<close>

definition live_token :: "int \<Rightarrow> rstr \<Rightarrow> refresh_row \<Rightarrow> bool" where
  "live_token now h t \<longleftrightarrow> rt_token_hash t = h \<and> \<not> rt_revoked t \<and> rt_expires_at t > now"

definition refresh_user :: "int \<Rightarrow> rstr \<Rightarrow> db \<Rightarrow> user_row option" where
  "refresh_user now h d =
     Option.bind (find (live_token now h) (db_refresh d)) (\<lambda>t. find (\<lambda>u. us_id u = rt_user_id t) (db_users d))"

definition refresh_check :: "auth_env \<Rightarrow> rstr \<Rightarrow> db \<Rightarrow> api_error + user_row" where
  "refresh_check env refresh_token d =
     res_bind (db_err (sql_query (au_select env)
         (refresh_user (au_now env) (hash_token (au_sha env) refresh_token)) d)) (\<lambda>user.
     res_bind (ok_or InvalidToken user) (\<lambda>u.
     if \<not> us_enabled u then Inl InvalidToken else Inr u))"

definition revoke :: "rstr \<Rightarrow> db \<Rightarrow> db" where
  "revoke h d = d\<lparr>db_refresh := upd (\<lambda>t. rt_token_hash t = h) (\<lambda>t. t\<lparr>rt_revoked := True\<rparr>) (db_refresh d)\<rparr>"

definition refresh_finish ::
  "auth_env \<Rightarrow> rstr \<Rightarrow> user_row \<Rightarrow> db \<Rightarrow> (api_error + login_response) option \<times> db" where
  "refresh_finish env refresh_token u d =
     (case sql_exec (au_update env) (revoke (hash_token (au_sha env) refresh_token)) d of
        (Inl e, d) \<Rightarrow> (Some (Inl (Database e)), d)
      | (Inr _, d) \<Rightarrow> issue_tokens env (us_id u) (us_username u) (us_role u) d)"

definition refresh :: "auth_env \<Rightarrow> rstr \<Rightarrow> db \<Rightarrow> (api_error + login_response) option \<times> db" where
  "refresh env refresh_token d =
     (case refresh_check env refresh_token d of
        Inl e \<Rightarrow> (Some (Inl e), d)
      | Inr u \<Rightarrow> refresh_finish env refresh_token u d)"

section \<open>Who gets tokens\<close>

lemma insert_refresh_cases:
  "insert_refresh out r d = (Inr (), d') \<longleftrightarrow> out = None \<and> rt_token_hash r \<notin> rt_token_hash ` set (db_refresh d)
     \<and> rt_user_id r \<in> us_id ` set (db_users d) \<and> d' = d\<lparr>db_refresh := db_refresh d @ [r]\<rparr>"
  "insert_refresh out r d = (Inl e, d') \<Longrightarrow> d' = d"
  by (auto simp: insert_refresh_def split: option.splits if_splits)

lemma issue_tokens_ok:
  assumes "issue_tokens env i n role d = (Some (Inr resp), d')"
  obtains ttl rttl x where "i64_of_u64 (au_access_ttl env) = Some ttl"
    "au_encode env (token_claims env i n role ttl) = Some (lr_access_token resp)"
    "i64_of_u64 (au_refresh_ttl env) = Some rttl" "au_after env rttl = Some x"
    "lr_refresh_token resp = au_show_uuid env (au_new_uuid env)"
    "hash_token (au_sha env) (lr_refresh_token resp) \<notin> rt_token_hash ` set (db_refresh d)"
    "d' = d\<lparr>db_refresh := db_refresh d @ [\<lparr>rt_token_hash = hash_token (au_sha env) (lr_refresh_token resp),
       rt_user_id = i, rt_expires_at = x, rt_revoked = False\<rparr>]\<rparr>"
proof -
  from assms obtain ttl acc rttl x where s: "i64_of_u64 (au_access_ttl env) = Some ttl"
    "au_encode env (token_claims env i n role ttl) = Some acc"
    "i64_of_u64 (au_refresh_ttl env) = Some rttl" "au_after env rttl = Some x"
    by (auto simp: issue_tokens_def Let_def split: option.splits)
  let ?r = "\<lparr>rt_token_hash = hash_token (au_sha env) (au_show_uuid env (au_new_uuid env)), rt_user_id = i,
    rt_expires_at = x, rt_revoked = False\<rparr>"
  obtain q e where q: "insert_refresh (au_insert env) ?r d = (q, e)" by fastforce
  have "q = Inr ()" using assms s q by (auto simp: issue_tokens_def Let_def split: sum.splits)
  with q have "e = d\<lparr>db_refresh := db_refresh d @ [?r]\<rparr>" "rt_token_hash ?r \<notin> rt_token_hash ` set (db_refresh d)"
    using insert_refresh_cases(1) by blast+
  with assms s q \<open>q = Inr ()\<close> that [of ttl rttl x] show thesis by (auto simp: issue_tokens_def Let_def)
qed

lemma issue_tokens_fail:
  "issue_tokens env i n role d = (r, d') \<Longrightarrow> (\<nexists>resp. r = Some (Inr resp)) \<Longrightarrow> d' = d"
  by (auto simp: issue_tokens_def Let_def split: option.splits prod.splits sum.splits dest: insert_refresh_cases(2))

text \<open>C24: tokens are handed out by a login only to an enabled account, under its own name and role, whose
  stored hash verifies the password; the access token carries exactly this account's claims, and one
  refresh token, for this account, is added, stored by its hash.\<close>

theorem login_sound:
  assumes "login env username password d = (Some (Inr resp), d')"
  shows "\<exists>u ttl x. find (\<lambda>u. us_username u = username) (db_users d) = Some u \<and> us_enabled u \<and>
    verify_password env password (us_password_hash u) = Inr True \<and>
    au_encode env (token_claims env (us_id u) username (us_role u) ttl) = Some (lr_access_token resp) \<and>
    db_refresh d' = db_refresh d @ [\<lparr>rt_token_hash = hash_token (au_sha env) (lr_refresh_token resp),
      rt_user_id = us_id u, rt_expires_at = x, rt_revoked = False\<rparr>]"
proof -
  obtain u where u: "login_check env username password d = Inr u"
    using assms by (auto simp: login_def split: sum.splits)
  then have c: "find (\<lambda>u. us_username u = username) (db_users d) = Some u" "us_enabled u"
    "verify_password env password (us_password_hash u) = Inr True"
    by (auto simp: login_check_def res_bind_Inr_iff ok_or_def sql_query_def map_err_def
        split: option.splits sum.splits if_splits)
  then have "us_username u = username" by (auto dest!: find_SomeD)
  from assms u have "issue_tokens env (us_id u) (us_username u) (us_role u) (set_last_login (au_now env) (us_id u) d)
      = (Some (Inr resp), d')"
    by (cases "au_update env") (auto simp: login_def)
  then show ?thesis using c \<open>us_username u = username\<close>
    by (elim issue_tokens_ok) (auto simp: set_last_login_def)
qed

lemma find_None_upd_revoked:
  "find (live_token now h) (upd (\<lambda>t. rt_token_hash t = h) (\<lambda>t. t\<lparr>rt_revoked := True\<rparr>) rs) = None"
  by (induction rs) (auto simp: live_token_def)

text \<open>A refresh that succeeds revokes its token, and a revoked token is refused.\<close>

lemma refresh_revokes:
  assumes "refresh env t d = (Some (Inr resp), d1)"
  shows "\<exists>s \<in> set (db_refresh d1). rt_token_hash s = hash_token (au_sha env) t \<and> rt_revoked s"
proof -
  let ?h = "hash_token (au_sha env) t"
  obtain u where u: "refresh_check env t d = Inr u" "refresh_finish env t u d = (Some (Inr resp), d1)"
    using assms by (auto simp: refresh_def split: sum.splits)
  then have "issue_tokens env (us_id u) (us_username u) (us_role u) (revoke ?h d) = (Some (Inr resp), d1)"
    by (cases "au_update env") (auto simp: refresh_finish_def)
  then have sub: "set (db_refresh (revoke ?h d)) \<subseteq> set (db_refresh d1)" by (elim issue_tokens_ok) auto
  have "refresh_user (au_now env) ?h d \<noteq> None"
    using u(1) by (auto simp: refresh_check_def res_bind_Inr_iff sql_query_def ok_or_def split: option.splits)
  then obtain r where "r \<in> set (db_refresh d)" "rt_token_hash r = ?h"
    by (cases "find (live_token (au_now env) ?h) (db_refresh d)")
      (auto simp: refresh_user_def live_token_def dest!: find_SomeD)
  then have "r\<lparr>rt_revoked := True\<rparr> \<in> set (db_refresh (revoke ?h d))" by (force simp: revoke_def set_upd)
  with sub have "r\<lparr>rt_revoked := True\<rparr> \<in> set (db_refresh d1)" by blast
  then show ?thesis using \<open>rt_token_hash r = ?h\<close> by (intro bexI [of _ "r\<lparr>rt_revoked := True\<rparr>"]) simp_all
qed

lemma revoked_is_refused:
  assumes "\<And>r. r \<in> set (db_refresh d) \<Longrightarrow> rt_token_hash r = hash_token (au_sha env) t \<Longrightarrow> rt_revoked r"
    and "au_select env = None"
  shows "refresh env t d = (Some (Inl InvalidToken), d)"
proof -
  have "\<not> live_token now (hash_token (au_sha env) t) r" if "r \<in> set (db_refresh d)" for r now
    using assms(1) that by (auto simp: live_token_def)
  then have "find (live_token (au_now env) (hash_token (au_sha env) t)) (db_refresh d) = None" by (auto simp: find_None_iff)
  then show ?thesis using assms(2) by (simp add: refresh_def refresh_check_def refresh_user_def)
qed

text \<open>An account that is disabled gets no tokens, by neither way, and the request changes nothing.\<close>

theorem disabled_account_gets_no_tokens:
  assumes "\<And>u. u \<in> set (db_users d) \<Longrightarrow> us_id u = i \<Longrightarrow> \<not> us_enabled u"
    and "find (live_token (au_now env) (hash_token (au_sha env) t)) (db_refresh d) = Some r" "rt_user_id r = i"
    and "find (\<lambda>u. us_username u = n) (db_users d) = Some v" "us_id v = i"
    and "au_select env = None"
  shows "refresh env t d = (Some (Inl InvalidToken), d) \<and> login env n p d = (Some (Inl InvalidCredentials), d)"
proof
  show "refresh env t d = (Some (Inl InvalidToken), d)"
  proof (cases "find (\<lambda>u. us_id u = i) (db_users d)")
    case (Some w)
    then have "\<not> us_enabled w" using assms(1) [of w] find_SomeD [OF Some] by simp
    with Some assms show ?thesis by (simp add: refresh_def refresh_check_def refresh_user_def)
  qed (use assms in \<open>simp add: refresh_def refresh_check_def refresh_user_def\<close>)
  have "\<not> us_enabled v" using assms(1) [of v] assms(5) find_SomeD [OF assms(4)] by simp
  then show "login env n p d = (Some (Inl InvalidCredentials), d)"
    using assms(4,6) by (simp add: login_def login_check_def)
qed

section \<open>Samples and the race of two refreshes\<close>

definition sample_auth :: "uuid \<Rightarrow> auth_env" where
  "sample_auth i = \<lparr>au_sha = id, au_encode = \<lambda>c. Some (cl_sub c), au_verify = \<lambda>p h. Inr (p = h),
     au_access_ttl = 9, au_refresh_ttl = 90, au_now = 100, au_after = \<lambda>s. Some (100 + s),
     au_show_uuid = \<lambda>u. if u = 1 then lit ''1'' else lit ''2'', au_new_uuid = i,
     au_select = None, au_update = None, au_insert = None\<rparr>"

definition sample_user :: "bool \<Rightarrow> user_row" where
  "sample_user e = \<lparr>us_id = 5, us_username = lit ''u'', us_password_hash = lit ''p'', us_role = lit ''admin'',
     us_last_login = None, us_enabled = e\<rparr>"

definition user_db :: "bool \<Rightarrow> db" where
  "user_db e = empty_db\<lparr>db_users := [sample_user e], db_refresh := [\<lparr>rt_token_hash = hex_bytes (as_bytes (lit ''t'')),
     rt_user_id = 5, rt_expires_at = 200, rt_revoked = False\<rparr>]\<rparr>"

lemma sample_token_hashes:
  "hex_bytes (as_bytes (lit ''1'')) = lit ''31''" "hex_bytes (as_bytes (lit ''2'')) = lit ''32''"
  "hex_bytes (as_bytes (lit ''t'')) = lit ''74''"
  by code_simp+

lemmas sample_auth_simps = sample_auth_def sample_user_def user_db_def empty_db_def refresh_def refresh_check_def
  refresh_finish_def refresh_user_def live_token_def hash_token_def sha256_hex_def revoke_def issue_tokens_def
  insert_refresh_def i64_of_u64_def login_def login_check_def set_last_login_def verify_password_def sample_token_hashes

lemma sample_refresh:
  "\<exists>resp d1. refresh (sample_auth 1) (lit ''t'') (user_db True) = (Some (Inr resp), d1)"
  by (simp add: sample_auth_simps Let_def)

lemma sample_login:
  "\<exists>resp d1. login (sample_auth 1) (lit ''u'') (lit ''p'') (user_db True) = (Some (Inr resp), d1)"
  by (simp add: sample_auth_simps Let_def)

theorem login_sound_witness:
  "\<exists>resp d1 u. login (sample_auth 1) (lit ''u'') (lit ''p'') (user_db True) = (Some (Inr resp), d1) \<and>
    find (\<lambda>u. us_username u = lit ''u'') (db_users (user_db True)) = Some u \<and> us_enabled u \<and>
    verify_password (sample_auth 1) (lit ''p'') (us_password_hash u) = Inr True"
  using sample_login login_sound by blast

theorem disabled_account_gets_no_tokens_witness:
  "refresh (sample_auth 1) (lit ''t'') (user_db False) = (Some (Inl InvalidToken), user_db False) \<and>
   login (sample_auth 1) (lit ''u'') (lit ''p'') (user_db False) = (Some (Inl InvalidCredentials), user_db False)"
proof -
  let ?r = "\<lparr>rt_token_hash = lit ''74'', rt_user_id = 5, rt_expires_at = 200, rt_revoked = False\<rparr>"
  have "find (live_token (au_now (sample_auth 1)) (hash_token (au_sha (sample_auth 1)) (lit ''t'')))
      (db_refresh (user_db False)) = Some ?r" by (simp add: sample_auth_simps)
  from disabled_account_gets_no_tokens [OF _ this, of 5 "lit ''u''" "sample_user False" "lit ''p''"]
  show ?thesis by (auto simp: sample_auth_simps)
qed

text \<open>Two refreshes with the same token that overlap, both reading it before either has revoked it,
  both succeed: one token yields two sessions.\<close>

theorem refresh_race:
  "\<exists>u r1 r2 d1 d2. refresh_check (sample_auth 1) (lit ''t'') (user_db True) = Inr u \<and>
     refresh_check (sample_auth 2) (lit ''t'') (user_db True) = Inr u \<and>
     refresh_finish (sample_auth 1) (lit ''t'') u (user_db True) = (Some (Inr r1), d1) \<and>
     refresh_finish (sample_auth 2) (lit ''t'') u d1 = (Some (Inr r2), d2) \<and>
     length (filter (\<lambda>t. \<not> rt_revoked t) (db_refresh d2)) = 2"
  by (simp add: sample_auth_simps Let_def)

end
