(* ===== verification/Policy_Api.thy ===== *)
theory Policy_Api
  imports Policy_Push Auth
begin

text \<open>
  The REST handlers of policies, \<open>scrooge-manager-api/src/handlers/policies.rs\<close>. A handler takes the
  outcomes of its statements in \<open>policy_env\<close>, with the parsers and encoders the policy crate is given, the
  claims of the request, the database and the sender of the push bridge, and returns its answer with
  both. The two writes of a change are two statements, as in the code: no transaction joins them.
\<close>

section \<open>Data\<close>

record policy_dto =
  pd_name :: rstr
  pd_version :: int
  pd_enabled :: bool
  pd_priority :: int
  pd_content_yaml :: rstr
  pd_content_hash :: rstr
  pd_targets :: json
  pd_created_at :: int
  pd_updated_at :: int

record policy_summary =
  sum_name :: rstr
  sum_version :: int
  sum_enabled :: bool
  sum_priority :: int
  sum_content_hash :: rstr
  sum_created_at :: int
  sum_updated_at :: int

record history_entry =
  he_id :: int
  he_version :: int
  he_content_yaml :: rstr
  he_changed_by :: "uuid option"
  he_changed_at :: int
  he_change_reason :: "rstr option"

record validate_response =
  vr_valid :: bool
  vr_errors :: "rstr list"
  vr_hash :: "rstr option"
  vr_name :: "rstr option"
  vr_version :: "u32 option"
  vr_parsed :: "json option"

record policy_env =
  pe_parse :: "rstr \<Rightarrow> rstr + policy"
  pe_regex :: "rstr \<Rightarrow> rstr option"
  pe_to_vec :: "policy \<Rightarrow> rstr + u8 list"
  pe_sha :: "u8 list \<Rightarrow> u8 list"
  pe_targets_json :: "targets \<Rightarrow> rstr + json"
  pe_policy_json :: "policy \<Rightarrow> json option"
  pe_parse_uuid :: "rstr \<Rightarrow> uuid option"
  pe_coll :: "rstr \<Rightarrow> rstr \<Rightarrow> bool"
  pe_now :: int
  pe_read :: outcome
  pe_read_current :: outcome
  pe_write :: outcome
  pe_history :: outcome
  pe_fetch :: outcome

text \<open>The sender of the push bridge: bounded, and \<open>try_send\<close> never waits.\<close>

record push_tx =
  px_queue :: "rstr option list"
  px_capacity :: nat
  px_closed :: bool

definition try_send :: "rstr option \<Rightarrow> push_tx \<Rightarrow> push_tx option" where
  "try_send m tx = (if px_closed tx \<or> length (px_queue tx) \<ge> px_capacity tx then None
     else Some (tx\<lparr>px_queue := px_queue tx @ [m]\<rparr>))"

definition notify_policy_changed :: "rstr option \<Rightarrow> push_tx option \<Rightarrow> push_tx option" where
  "notify_policy_changed name tx =
     (case tx of None \<Rightarrow> None
      | Some tx \<Rightarrow> (case try_send name tx of None \<Rightarrow> Some tx | Some tx \<Rightarrow> Some tx))"

section \<open>Messages\<close>

definition show_int :: "int \<Rightarrow> rstr" where
  "show_int i = (if i < 0 then 45 # show_nat (nat (- i)) else show_nat (nat i))"

definition validation_message :: "validation_error \<Rightarrow> rstr" where
  "validation_message e =
     (case e of
        UnsupportedApiVersion v \<Rightarrow>
          lit ''unsupported apiVersion `'' @ v @ lit ''` (expected `scroogedlp.io/v1`)''
      | UnsupportedKind k \<Rightarrow> lit ''unsupported kind `'' @ k @ lit ''` (expected `Policy`)''
      | EmptyName \<Rightarrow> lit ''metadata.name cannot be empty''
      | BadName n \<Rightarrow> lit ''metadata.name `'' @ n @ lit ''` must match [a-z0-9-]+ (slug-style)''
      | DuplicateRuleId i n \<Rightarrow> lit ''duplicate rule id `'' @ i @ lit ''` in policy `'' @ n @ lit ''`''
      | EmptyRuleId \<Rightarrow> lit ''rule.id cannot be empty''
      | BadRuleId i \<Rightarrow> lit ''rule.id `'' @ i @ lit ''` must match [a-z0-9-]+'')"

definition policy_error_message :: "policy_error \<Rightarrow> rstr" where
  "policy_error_message e =
     (case e of
        YamlError m \<Rightarrow> lit ''YAML parse error: '' @ m
      | ValidationError v \<Rightarrow> lit ''validation: '' @ validation_message v
      | MsgpackError m \<Rightarrow> lit ''msgpack encode error: '' @ m
      | RegexCompileError f m \<Rightarrow> lit ''regex compile error in `'' @ f @ lit ''`: '' @ m)"

section \<open>Helpers\<close>

definition parse_and_compile :: "policy_env \<Rightarrow> rstr \<Rightarrow> api_error + policy \<times> compiled_policy \<times> json" where
  "parse_and_compile env yaml =
     res_bind (map_err (\<lambda>e. BadRequest (policy_error_message e)) (from_yaml (pe_parse env) (pe_regex env) yaml)) (\<lambda>p.
     res_bind (map_err (\<lambda>e. Internal (lit ''compile failed: '' @ policy_error_message e))
         (policy_compile (pe_to_vec env) (pe_sha env) p)) (\<lambda>c.
     res_bind (map_err (\<lambda>e. Internal (lit ''targets serialization failed: '' @ e))
         (pe_targets_json env (p_targets p))) (\<lambda>t.
     Inr (p, c, t))))"

definition find_policy :: "rstr \<Rightarrow> db \<Rightarrow> policy_row option" where
  "find_policy name d = find (\<lambda>p. po_name p = name) (db_policies d)"

definition to_dto :: "policy_row \<Rightarrow> policy_dto" where
  "to_dto p = \<lparr>pd_name = po_name p, pd_version = po_version p, pd_enabled = po_enabled p,
     pd_priority = po_priority p, pd_content_yaml = po_content_yaml p, pd_content_hash = po_content_hash p,
     pd_targets = po_targets p, pd_created_at = po_created_at p, pd_updated_at = po_updated_at p\<rparr>"

definition to_summary :: "policy_row \<Rightarrow> policy_summary" where
  "to_summary p = \<lparr>sum_name = po_name p, sum_version = po_version p, sum_enabled = po_enabled p,
     sum_priority = po_priority p, sum_content_hash = po_content_hash p, sum_created_at = po_created_at p,
     sum_updated_at = po_updated_at p\<rparr>"

definition fetch_full :: "outcome \<Rightarrow> rstr \<Rightarrow> db \<Rightarrow> api_error + policy_dto" where
  "fetch_full out name d =
     res_bind (db_err (sql_query out (find_policy name) d)) (\<lambda>p.
     map_err Database (map_err (\<lambda>_. SqlRowNotFound) (map_sum id to_dto (ok_or () p))))"

definition caller_id :: "policy_env \<Rightarrow> claims \<Rightarrow> api_error + uuid" where
  "caller_id env c = ok_or (Internal (lit ''sub not UUID'')) (pe_parse_uuid env (cl_sub c))"

section \<open>Statements\<close>

definition insert_policy :: "outcome \<Rightarrow> policy_row \<Rightarrow> db \<Rightarrow> (sqlx_error + unit) \<times> db" where
  "insert_policy out p d =
     (case out of Some e \<Rightarrow> (Inl (SqlDriver e), d) | None \<Rightarrow>
      if po_name p \<in> po_name ` set (db_policies d) then (Inl (SqlConstraint (lit ''policies_pkey'')), d)
      else (Inr (), d\<lparr>db_policies := db_policies d @ [p]\<rparr>))"

definition append_history ::
  "int \<Rightarrow> rstr \<Rightarrow> int \<Rightarrow> rstr \<Rightarrow> uuid \<Rightarrow> rstr \<Rightarrow> db \<Rightarrow> db" where
  "append_history now name version yaml who reason d =
     d\<lparr>db_history := db_history d @ [\<lparr>hi_id = db_history_seq d + 1, hi_policy_name = name, hi_version = version,
         hi_content_yaml = yaml, hi_changed_by = Some who, hi_changed_at = now, hi_change_reason = Some reason\<rparr>],
       db_history_seq := db_history_seq d + 1\<rparr>"

text \<open>The \<open>UPDATE\<close> of a policy; the trigger of the table sets \<open>updated_at\<close>.\<close>

definition write_policy ::
  "int \<Rightarrow> rstr \<Rightarrow> int \<Rightarrow> rstr \<Rightarrow> policy \<times> compiled_policy \<times> json \<Rightarrow> uuid \<Rightarrow> db \<Rightarrow> db" where
  "write_policy now name version yaml pct who d =
     (case pct of (p, c, t) \<Rightarrow>
      d\<lparr>db_policies := upd (\<lambda>r. po_name r = name)
         (\<lambda>r. r\<lparr>po_version := version, po_content_yaml := yaml, po_content_compiled := cp_msgpack c,
                po_content_hash := cp_hash c, po_targets := t, po_priority := sint (p_priority p),
                po_updated_by := Some who, po_updated_at := now\<rparr>) (db_policies d)\<rparr>)"

text \<open>\<open>DELETE\<close>, cascading to the assignments; whether a row was deleted.\<close>

definition delete_policy :: "outcome \<Rightarrow> rstr \<Rightarrow> db \<Rightarrow> (sqlx_error + bool) \<times> db" where
  "delete_policy out name d =
     (case out of Some e \<Rightarrow> (Inl (SqlDriver e), d)
      | None \<Rightarrow> (Inr (find_policy name d \<noteq> None),
          d\<lparr>db_policies := filter (\<lambda>p. po_name p \<noteq> name) (db_policies d),
            db_assignments := filter (\<lambda>a. pas_policy_name a \<noteq> name) (db_assignments d)\<rparr>))"

section \<open>Handlers\<close>

definition list_policies :: "policy_env \<Rightarrow> claims \<Rightarrow> db \<Rightarrow> api_error + policy_summary list" where
  "list_policies env c d =
     res_bind (require_admin c) (\<lambda>_.
     db_err (sql_query (pe_read env)
       (\<lambda>d. map to_summary (order_by (push_order (pe_coll env)) (db_policies d))) d))"

definition get_policy :: "policy_env \<Rightarrow> claims \<Rightarrow> rstr \<Rightarrow> db \<Rightarrow> api_error + policy_dto" where
  "get_policy env c name d =
     res_bind (require_admin c) (\<lambda>_.
     res_bind (db_err (sql_query (pe_read env) (find_policy name) d)) (\<lambda>p.
     res_bind (ok_or NotFound p) (\<lambda>p. Inr (to_dto p))))"

text \<open>Everything \<open>create\<close> does before it writes.\<close>

definition create_check ::
  "policy_env \<Rightarrow> claims \<Rightarrow> rstr \<Rightarrow> db \<Rightarrow> api_error + (policy \<times> compiled_policy \<times> json) \<times> uuid" where
  "create_check env c yaml d =
     res_bind (require_admin c) (\<lambda>_.
     res_bind (parse_and_compile env yaml) (\<lambda>(p, cp, t).
     res_bind (caller_id env c) (\<lambda>who.
     res_bind (db_err (sql_query (pe_read env) (find_policy (md_name (p_metadata p))) d)) (\<lambda>exists.
     if exists \<noteq> None
     then Inl (BadRequest (lit ''policy `'' @ md_name (p_metadata p) @ lit ''` already exists '' @ [8212]
            @ lit '' use PUT to update''))
     else Inr ((p, cp, t), who)))))"

definition create ::
  "policy_env \<Rightarrow> claims \<Rightarrow> rstr \<Rightarrow> rstr option \<Rightarrow> db \<Rightarrow> push_tx option \<Rightarrow>
   (api_error + nat \<times> policy_dto) \<times> db \<times> push_tx option" where
  "create env c yaml reason d tx =
     (case create_check env c yaml d of
        Inl e \<Rightarrow> (Inl e, d, tx)
      | Inr ((p, cp, t), who) \<Rightarrow>
          (let name = md_name (p_metadata p);
               version = unwrap_or 1 (i32_of_u32 (md_version (p_metadata p)))
           in case insert_policy (pe_write env)
               \<lparr>po_name = name, po_version = version, po_content_yaml = yaml, po_content_compiled = cp_msgpack cp,
                po_content_hash = cp_hash cp, po_targets = t, po_priority = sint (p_priority p), po_enabled = True,
                po_created_at = pe_now env, po_updated_at = pe_now env, po_created_by = Some who,
                po_updated_by = Some who\<rparr> d of
             (Inl e, d) \<Rightarrow> (Inl (Database e), d, tx)
           | (Inr _, d) \<Rightarrow>
               (case sql_exec (pe_history env)
                   (append_history (pe_now env) name version yaml who (unwrap_or (lit ''create'') reason)) d of
                  (Inl e, d) \<Rightarrow> (Inl (Database e), d, tx)
                | (Inr _, d) \<Rightarrow>
                    (map_sum id (\<lambda>dto. (201, dto)) (fetch_full (pe_fetch env) name d), d,
                     notify_policy_changed (Some name) tx))))"

text \<open>The two writes \<open>update\<close> and \<open>rollback\<close> end with.\<close>

definition store_version ::
  "policy_env \<Rightarrow> rstr \<Rightarrow> int \<Rightarrow> rstr \<Rightarrow> policy \<times> compiled_policy \<times> json \<Rightarrow> uuid \<Rightarrow> rstr \<Rightarrow> db \<Rightarrow> push_tx option \<Rightarrow>
   (api_error + policy_dto) \<times> db \<times> push_tx option" where
  "store_version env name version yaml pct who reason d tx =
     (case sql_exec (pe_write env) (write_policy (pe_now env) name version yaml pct who) d of
        (Inl e, d) \<Rightarrow> (Inl (Database e), d, tx)
      | (Inr _, d) \<Rightarrow>
          (case sql_exec (pe_history env) (append_history (pe_now env) name version yaml who reason) d of
             (Inl e, d) \<Rightarrow> (Inl (Database e), d, tx)
           | (Inr _, d) \<Rightarrow> (fetch_full (pe_fetch env) name d, d, notify_policy_changed (Some name) tx)))"

definition update_check ::
  "policy_env \<Rightarrow> claims \<Rightarrow> rstr \<Rightarrow> rstr \<Rightarrow> db \<Rightarrow> api_error + (policy \<times> compiled_policy \<times> json) \<times> uuid \<times> int" where
  "update_check env c name yaml d =
     res_bind (require_admin c) (\<lambda>_.
     res_bind (parse_and_compile env yaml) (\<lambda>(p, cp, t).
     if md_name (p_metadata p) \<noteq> name
     then Inl (BadRequest (lit ''URL name `'' @ name @ lit ''` does not match metadata.name `''
            @ md_name (p_metadata p) @ lit ''` in YAML''))
     else res_bind (caller_id env c) (\<lambda>who.
       res_bind (db_err (sql_query (pe_read_current env) (find_policy name) d)) (\<lambda>current.
       res_bind (ok_or NotFound current) (\<lambda>current.
       Inr ((p, cp, t), who, po_version current))))))"

definition update ::
  "policy_env \<Rightarrow> claims \<Rightarrow> rstr \<Rightarrow> rstr \<Rightarrow> rstr option \<Rightarrow> db \<Rightarrow> push_tx option \<Rightarrow>
   (api_error + policy_dto) \<times> db \<times> push_tx option" where
  "update env c name yaml reason d tx =
     (case update_check env c name yaml d of
        Inl e \<Rightarrow> (Inl e, d, tx)
      | Inr (pct, who, current) \<Rightarrow>
          store_version env name (wrap_i32 (current + 1)) yaml pct who (unwrap_or (lit ''update'') reason) d tx)"

definition delete_handler ::
  "policy_env \<Rightarrow> claims \<Rightarrow> rstr \<Rightarrow> db \<Rightarrow> push_tx option \<Rightarrow> (api_error + nat) \<times> db \<times> push_tx option" where
  "delete_handler env c name d tx =
     (case require_admin c of
        Inl e \<Rightarrow> (Inl e, d, tx)
      | Inr _ \<Rightarrow>
          (case delete_policy (pe_write env) name d of
             (Inl e, d) \<Rightarrow> (Inl (Database e), d, tx)
           | (Inr False, d) \<Rightarrow> (Inl NotFound, d, tx)
           | (Inr True, d) \<Rightarrow> (Inr 204, d, notify_policy_changed (Some name) tx)))"

definition history :: "policy_env \<Rightarrow> claims \<Rightarrow> rstr \<Rightarrow> db \<Rightarrow> api_error + history_entry list" where
  "history env c name d =
     res_bind (require_admin c) (\<lambda>_.
     db_err (sql_query (pe_read env) (\<lambda>d.
       map (\<lambda>h. \<lparr>he_id = hi_id h, he_version = hi_version h, he_content_yaml = hi_content_yaml h,
              he_changed_by = hi_changed_by h, he_changed_at = hi_changed_at h,
              he_change_reason = hi_change_reason h\<rparr>)
         (order_by (\<lambda>a b. hi_version a \<ge> hi_version b) (filter (\<lambda>h. hi_policy_name h = name) (db_history d)))) d))"

text \<open>\<open>fetch_optional\<close> takes the first row found; several rows may carry the version, and SQL fixes no order.
  The table's order stands for the one the database picks.\<close>

definition rollback_check ::
  "policy_env \<Rightarrow> claims \<Rightarrow> rstr \<Rightarrow> int \<Rightarrow> db \<Rightarrow> api_error + rstr \<times> (policy \<times> compiled_policy \<times> json) \<times> uuid \<times> int" where
  "rollback_check env c name version d =
     res_bind (require_admin c) (\<lambda>_.
     res_bind (caller_id env c) (\<lambda>who.
     res_bind (db_err (sql_query (pe_read env)
         (\<lambda>d. find (\<lambda>h. hi_policy_name h = name \<and> hi_version h = version) (db_history d)) d)) (\<lambda>historical.
     res_bind (ok_or NotFound historical) (\<lambda>h.
     res_bind (db_err (sql_query (pe_read_current env) (find_policy name) d)) (\<lambda>current.
     res_bind (ok_or NotFound current) (\<lambda>current.
     res_bind (parse_and_compile env (hi_content_yaml h)) (\<lambda>pct.
     Inr (hi_content_yaml h, pct, who, po_version current))))))))"

definition rollback ::
  "policy_env \<Rightarrow> claims \<Rightarrow> rstr \<Rightarrow> int \<Rightarrow> db \<Rightarrow> push_tx option \<Rightarrow>
   (api_error + policy_dto) \<times> db \<times> push_tx option" where
  "rollback env c name version d tx =
     (case rollback_check env c name version d of
        Inl e \<Rightarrow> (Inl e, d, tx)
      | Inr (yaml, pct, who, current) \<Rightarrow>
          store_version env name (wrap_i32 (current + 1)) yaml pct who (lit ''rollback to v'' @ show_int version) d tx)"

definition validate :: "policy_env \<Rightarrow> claims \<Rightarrow> rstr \<Rightarrow> api_error + validate_response" where
  "validate env c yaml =
     res_bind (require_admin c) (\<lambda>_.
     (case from_yaml (pe_parse env) (pe_regex env) yaml of
        Inr p \<Rightarrow>
          res_bind (map_err (\<lambda>e. Internal (lit ''compile: '' @ policy_error_message e))
              (policy_compile (pe_to_vec env) (pe_sha env) p)) (\<lambda>cp.
          Inr \<lparr>vr_valid = True, vr_errors = [], vr_hash = Some (cp_hash cp), vr_name = Some (md_name (p_metadata p)),
               vr_version = Some (md_version (p_metadata p)), vr_parsed = pe_policy_json env p\<rparr>)
      | Inl e \<Rightarrow>
          Inr \<lparr>vr_valid = False, vr_errors = [policy_error_message e], vr_hash = None, vr_name = None,
               vr_version = None, vr_parsed = None\<rparr>))"

section \<open>Who may change policies\<close>

text \<open>Only an administrator sees or changes policies: with any other role every handler answers
  Forbidden and leaves the database and the push bridge alone.\<close>

theorem policies_need_admin:
  assumes "cl_role c \<noteq> lit ''admin''"
  shows "create env c yaml reason d tx = (Inl Forbidden, d, tx) \<and>
    update env c name yaml reason d tx = (Inl Forbidden, d, tx) \<and>
    delete_handler env c name d tx = (Inl Forbidden, d, tx) \<and>
    rollback env c name version d tx = (Inl Forbidden, d, tx) \<and>
    list_policies env c d = Inl Forbidden \<and> get_policy env c name d = Inl Forbidden \<and>
    history env c name d = Inl Forbidden \<and> validate env c yaml = Inl Forbidden"
  using assms by (simp add: require_admin_def create_def create_check_def update_def update_check_def
      delete_handler_def rollback_def rollback_check_def list_policies_def get_policy_def history_def validate_def)

section \<open>The rows a change leaves\<close>

lemma sql_exec_cases:
  "sql_exec out f d = (Inr u, d') \<longleftrightarrow> out = None \<and> d' = f d"
  "sql_exec out f d = (Inl e, d') \<Longrightarrow> d' = d"
  by (auto simp: sql_exec_def split: option.splits)

lemma parse_and_compile_ok:
  "parse_and_compile env yaml = Inr (p, c, t) \<Longrightarrow>
     from_yaml (pe_parse env) (pe_regex env) yaml = Inr p \<and> pe_targets_json env (p_targets p) = Inr t \<and>
     pe_to_vec env p = Inr (cp_msgpack c) \<and> cp_hash c = sha256_hex (pe_sha env) (cp_msgpack c)"
  by (auto simp: parse_and_compile_def res_bind_Inr_iff policy_compile_def map_err_def from_policy_def
      split: sum.splits)

lemma from_yaml_slug: "from_yaml parse rx yaml = Inr p \<Longrightarrow> slug (md_name (p_metadata p))"
  by (auto simp: from_yaml_def res_bind_Inr_iff policy_validate_def slug_def split: if_splits)

lemma find_policy_in: "find_policy name d = Some p \<Longrightarrow> p \<in> set (db_policies d) \<and> po_name p = name"
  by (auto simp: find_policy_def dest!: find_SomeD)

lemma find_policy_None: "find_policy name d = None \<longleftrightarrow> name \<notin> po_name ` set (db_policies d)"
  by (auto simp: find_policy_def find_None_iff)

lemma find_policy_write:
  "find_policy n (write_policy now name version yaml (p, c, t) who d) =
     map_option (\<lambda>r. if n = name then r\<lparr>po_version := version, po_content_yaml := yaml,
       po_content_compiled := cp_msgpack c, po_content_hash := cp_hash c, po_targets := t,
       po_priority := sint (p_priority p), po_updated_by := Some who, po_updated_at := now\<rparr> else r) (find_policy n d)"
proof -
  have "find (\<lambda>r. po_name r = n) (upd (\<lambda>r. po_name r = name) f (db_policies d)) =
      map_option (\<lambda>r. if po_name r = name then f r else r) (find_policy n d)"
    if "\<And>r. po_name (f r) = po_name r" for f
    unfolding find_policy_def by (rule find_upd) (simp add: that)
  then show ?thesis
    by (cases "find_policy n d") (auto simp: write_policy_def find_policy_def dest!: find_SomeD)
qed

lemma store_version_ok:
  assumes "store_version env name version yaml (p, c, t) who reason d tx = (Inr dto, d', tx')" "find_policy name d = Some r"
  shows "d' = append_history (pe_now env) name version yaml who reason
      (write_policy (pe_now env) name version yaml (p, c, t) who d) \<and>
    tx' = notify_policy_changed (Some name) tx \<and> pd_content_yaml dto = yaml \<and> pd_version dto = version \<and> pd_name dto = name"
proof -
  let ?w = "write_policy (pe_now env) name version yaml (p, c, t) who d"
  let ?h = "append_history (pe_now env) name version yaml who reason ?w"
  from assms(1) have s: "fetch_full (pe_fetch env) name ?h = Inr dto" "d' = ?h" "tx' = notify_policy_changed (Some name) tx"
    by (auto simp: store_version_def sql_exec_def split: option.splits)
  have "find_policy name ?h = find_policy name ?w" by (simp add: append_history_def find_policy_def)
  with s(1) assms(2) find_policy_in [OF assms(2)] show ?thesis unfolding s(2,3)
    by (cases "pe_fetch env") (auto simp: fetch_full_def find_policy_write to_dto_def)
qed

text \<open>What an update or rollback that succeeds has read.\<close>

lemma update_ok:
  assumes "update env c name yaml reason d tx = (Inr dto, d', tx')"
  obtains p cp t who r where "parse_and_compile env yaml = Inr (p, cp, t)" "md_name (p_metadata p) = name"
    "find_policy name d = Some r"
    "store_version env name (wrap_i32 (po_version r + 1)) yaml (p, cp, t) who (unwrap_or (lit ''update'') reason) d tx
       = (Inr dto, d', tx')"
proof -
  obtain p cp t who v where u: "update_check env c name yaml d = Inr ((p, cp, t), who, v)"
    "store_version env name (wrap_i32 (v + 1)) yaml (p, cp, t) who (unwrap_or (lit ''update'') reason) d tx
       = (Inr dto, d', tx')"
    using assms by (auto simp: update_def split: sum.splits prod.splits)
  then obtain r where "parse_and_compile env yaml = Inr (p, cp, t)" "md_name (p_metadata p) = name"
    "find_policy name d = Some r" "v = po_version r"
    by (auto simp: update_check_def res_bind_Inr_iff sql_query_def ok_or_def split: option.splits if_splits)
  with u that show thesis by blast
qed

lemma rollback_ok:
  assumes "rollback env c name version d tx = (Inr dto, d', tx')"
  obtains p cp t who r h where "h \<in> set (db_history d)" "hi_policy_name h = name" "hi_version h = version"
    "parse_and_compile env (hi_content_yaml h) = Inr (p, cp, t)" "find_policy name d = Some r"
    "store_version env name (wrap_i32 (po_version r + 1)) (hi_content_yaml h) (p, cp, t) who
       (lit ''rollback to v'' @ show_int version) d tx = (Inr dto, d', tx')"
proof -
  obtain yaml p cp t who v where u: "rollback_check env c name version d = Inr (yaml, (p, cp, t), who, v)"
    "store_version env name (wrap_i32 (v + 1)) yaml (p, cp, t) who (lit ''rollback to v'' @ show_int version) d tx
       = (Inr dto, d', tx')"
    using assms by (auto simp: rollback_def split: sum.splits prod.splits)
  then obtain r h where "find (\<lambda>h. hi_policy_name h = name \<and> hi_version h = version) (db_history d) = Some h"
    "parse_and_compile env (hi_content_yaml h) = Inr (p, cp, t)" "yaml = hi_content_yaml h"
    "find_policy name d = Some r" "v = po_version r"
    by (auto simp: rollback_check_def res_bind_Inr_iff sql_query_def ok_or_def split: option.splits)
  with u that show thesis by (blast dest: find_SomeD)
qed

lemma create_ok:
  assumes "create env c yaml reason d tx = (Inr x, d', tx')"
  obtains p cp t who dto where "parse_and_compile env yaml = Inr (p, cp, t)" "x = (201, dto)"
    "find_policy (md_name (p_metadata p)) d = None" "tx' = notify_policy_changed (Some (md_name (p_metadata p))) tx"
    "d' = append_history (pe_now env) (md_name (p_metadata p)) (unwrap_or 1 (i32_of_u32 (md_version (p_metadata p))))
       yaml who (unwrap_or (lit ''create'') reason)
       (d\<lparr>db_policies := db_policies d @ [\<lparr>po_name = md_name (p_metadata p),
           po_version = unwrap_or 1 (i32_of_u32 (md_version (p_metadata p))), po_content_yaml = yaml,
           po_content_compiled = cp_msgpack cp, po_content_hash = cp_hash cp, po_targets = t,
           po_priority = sint (p_priority p), po_enabled = True, po_created_at = pe_now env,
           po_updated_at = pe_now env, po_created_by = Some who, po_updated_by = Some who\<rparr>]\<rparr>)"
    "fetch_full (pe_fetch env) (md_name (p_metadata p)) d' = Inr dto"
proof -
  obtain p cp t who where u: "create_check env c yaml d = Inr ((p, cp, t), who)"
    using assms by (cases "create_check env c yaml d") (auto simp: create_def)
  then have "parse_and_compile env yaml = Inr (p, cp, t)" "find_policy (md_name (p_metadata p)) d = None"
    by (auto simp: create_check_def res_bind_Inr_iff sql_query_def split: option.splits if_splits)
  moreover from assms u \<open>find_policy (md_name (p_metadata p)) d = None\<close> obtain dto where "x = (201, dto)"
    "tx' = notify_policy_changed (Some (md_name (p_metadata p))) tx"
    "d' = append_history (pe_now env) (md_name (p_metadata p)) (unwrap_or 1 (i32_of_u32 (md_version (p_metadata p))))
       yaml who (unwrap_or (lit ''create'') reason)
       (d\<lparr>db_policies := db_policies d @ [\<lparr>po_name = md_name (p_metadata p),
           po_version = unwrap_or 1 (i32_of_u32 (md_version (p_metadata p))), po_content_yaml = yaml,
           po_content_compiled = cp_msgpack cp, po_content_hash = cp_hash cp, po_targets = t,
           po_priority = sint (p_priority p), po_enabled = True, po_created_at = pe_now env,
           po_updated_at = pe_now env, po_created_by = Some who, po_updated_by = Some who\<rparr>]\<rparr>)"
    "fetch_full (pe_fetch env) (md_name (p_metadata p)) d' = Inr dto"
    by (auto simp: create_def insert_policy_def Let_def sql_exec_def find_policy_None map_sum_def
        split: option.splits sum.splits)
  ultimately show thesis using that by blast
qed

section \<open>The invariant of the policy tables\<close>

definition policy_tables_ok :: "db \<Rightarrow> bool" where
  "policy_tables_ok d \<longleftrightarrow>
     distinct (map po_name (db_policies d)) \<and> (\<forall>p \<in> set (db_policies d). slug (po_name p) \<and> is_i32 (po_version p)) \<and>
     distinct (map (\<lambda>a. (pas_agent_id a, pas_policy_name a)) (db_assignments d)) \<and>
     (\<forall>n \<in> pas_policy_name ` set (db_assignments d). n \<in> po_name ` set (db_policies d)) \<and>
     distinct (map hi_id (db_history d)) \<and> (\<forall>h \<in> set (db_history d). hi_id h \<le> db_history_seq d)"

text \<open>Requests that change policies, and what the rest of the manager does to the tables.\<close>

datatype request =
    Create policy_env claims rstr "rstr option"
  | Update policy_env claims rstr rstr "rstr option"
  | Delete policy_env claims rstr
  | Rollback policy_env claims rstr int
  | Push outcome int uuid rstr int
  | Ack outcome uuid rstr int

fun serve :: "request \<Rightarrow> db \<Rightarrow> push_tx option \<Rightarrow> db \<times> push_tx option" where
  "serve (Create env c yaml reason) d tx = snd (create env c yaml reason d tx)"
| "serve (Update env c name yaml reason) d tx = snd (update env c name yaml reason d tx)"
| "serve (Delete env c name) d tx = snd (delete_handler env c name d tx)"
| "serve (Rollback env c name version) d tx = snd (rollback env c name version d tx)"
| "serve (Push out now agent name version) d tx = (snd (mark_assigned out now agent name version d), tx)"
| "serve (Ack out agent name version) d tx = (snd (mark_acked out agent name version d), tx)"

fun serve_all :: "request list \<Rightarrow> db \<Rightarrow> push_tx option \<Rightarrow> db \<times> push_tx option" where
  "serve_all [] d tx = (d, tx)"
| "serve_all (r # rs) d tx = (let (d, tx) = serve r d tx in serve_all rs d tx)"

lemma policy_names_write: "map po_name (db_policies (write_policy now n v y pct who d)) = map po_name (db_policies d)"
  by (cases pct) (simp add: write_policy_def map_upd_key)

lemma write_policy_keeps [simp]:
  "db_history (write_policy now n v y pct who d) = db_history d"
  "db_history_seq (write_policy now n v y pct who d) = db_history_seq d"
  "db_assignments (write_policy now n v y pct who d) = db_assignments d"
  by (cases pct; simp add: write_policy_def)+

lemma tables_ok_write:
  assumes "policy_tables_ok d" "is_i32 v"
  shows "policy_tables_ok (write_policy now n v y pct who d)"
proof -
  obtain p c t where pct: "pct = (p, c, t)" by (rule prod_cases3)
  have "po_name ` set (db_policies (write_policy now n v y pct who d)) = po_name ` set (db_policies d)"
    using arg_cong [OF policy_names_write, of set] by simp
  moreover have "slug (po_name r) \<and> is_i32 (po_version r)" if "r \<in> set (db_policies (write_policy now n v y pct who d))" for r
    using that assms unfolding pct by (auto simp: write_policy_def set_upd policy_tables_ok_def)
  ultimately show ?thesis using assms(1) by (simp add: policy_tables_ok_def policy_names_write)
qed

lemma tables_ok_history: "policy_tables_ok d \<Longrightarrow> policy_tables_ok (append_history now n v y who re d)"
  by (fastforce simp: policy_tables_ok_def append_history_def)

lemma tables_ok_store:
  assumes "policy_tables_ok d" "is_i32 v"
  shows "policy_tables_ok (fst (snd (store_version env n v y pct who re d tx)))"
  using assms tables_ok_write tables_ok_history
  by (auto simp: store_version_def sql_exec_def split: option.splits)

lemma tables_ok_create:
  assumes "policy_tables_ok d"
  shows "policy_tables_ok (fst (snd (create env c yaml reason d tx)))"
proof (cases "create_check env c yaml d")
  case (Inr x)
  obtain p cp t who where x: "x = ((p, cp, t), who)" by (metis prod_cases3 surj_pair)
  have "slug (md_name (p_metadata p))"
    using Inr x by (auto simp: create_check_def res_bind_Inr_iff dest!: parse_and_compile_ok from_yaml_slug split: if_splits)
  then have "policy_tables_ok d1" if "insert_policy out \<lparr>po_name = md_name (p_metadata p),
      po_version = unwrap_or 1 (i32_of_u32 (md_version (p_metadata p))), po_content_yaml = y, po_content_compiled = b,
      po_content_hash = h, po_targets = tg, po_priority = pr, po_enabled = en, po_created_at = ca,
      po_updated_at = ua, po_created_by = cb, po_updated_by = ub\<rparr> d = (q, d1)" for out y b h tg pr en ca ua cb ub q d1
    using that assms is_i32_of_u32 by (auto simp: insert_policy_def policy_tables_ok_def split: option.splits if_splits)
  then show ?thesis unfolding create_def Inr x
    by (auto simp: Let_def sql_exec_def tables_ok_history split: prod.split sum.split option.split)
qed (simp add: create_def assms)

lemma tables_ok_delete:
  assumes "policy_tables_ok d"
  shows "policy_tables_ok (fst (snd (delete_handler env c name d tx)))"
  using assms by (auto simp: delete_handler_def delete_policy_def require_admin_def policy_tables_ok_def
      distinct_map_filter split: option.splits bool.splits)

lemma tables_ok_assigned:
  assumes "policy_tables_ok d"
  shows "policy_tables_ok (snd (mark_assigned out now agent name version d))"
proof -
  let ?k = "\<lambda>a. (pas_agent_id a, pas_policy_name a)"
  have keys: "map ?k (upd P (\<lambda>r. r\<lparr>pas_assigned_version := v, pas_last_pushed_at := l\<rparr>) rs) = map ?k rs" for P v l rs
    by (rule map_upd_key) simp
  show ?thesis using assms
    by (auto simp: mark_assigned_def policy_tables_ok_def Let_def keys set_upd find_None_iff split: option.split)
qed

lemma tables_ok_acked:
  assumes "policy_tables_ok d"
  shows "policy_tables_ok (snd (mark_acked out agent name version d))"
proof -
  let ?k = "\<lambda>a. (pas_agent_id a, pas_policy_name a)"
  have keys: "map ?k (upd P (\<lambda>r. r\<lparr>pas_acked_version := v\<rparr>) rs) = map ?k rs" for P v rs
    by (rule map_upd_key) simp
  show ?thesis using assms
    by (cases out) (auto simp: mark_acked_def policy_tables_ok_def keys set_upd)
qed

lemma tables_ok_serve: "policy_tables_ok d \<Longrightarrow> policy_tables_ok (fst (serve r d tx))"
  by (cases r) (auto simp: tables_ok_create tables_ok_delete tables_ok_assigned tables_ok_acked update_def
      rollback_def is_i32_wrap tables_ok_store split: sum.split prod.split)

text \<open>Whatever requests are served and pushes and acknowledgements recorded, with whatever outcomes of
  their statements, the policy tables stay consistent: names are distinct slugs, versions are \<open>i32\<close>, an
  agent has at most one assignment of a policy, every assignment is of a policy there is, and history ids
  are distinct.\<close>

theorem policy_tables_invariant:
  assumes "policy_tables_ok d" "serve_all rs d tx = (d', tx')"
  shows "policy_tables_ok d'"
  using assms
proof (induction rs arbitrary: d tx)
  case (Cons r rs)
  then show ?case using tables_ok_serve [of d r tx] by (cases "serve r d tx") auto
qed simp

section \<open>The history\<close>

lemma history_store:
  "\<exists>new. db_history (fst (snd (store_version env n v y pct who re d tx))) = db_history d @ new \<and> length new \<le> 1"
  by (auto simp: store_version_def sql_exec_def append_history_def split: option.split)

lemma history_serve: "\<exists>new. db_history (fst (serve r d tx)) = db_history d @ new \<and> length new \<le> 1"
proof (cases r)
  case (Create env c yaml reason)
  show ?thesis unfolding Create serve.simps create_def
    by (auto simp: Let_def sql_exec_def insert_policy_def append_history_def split: sum.split prod.split option.split)
next
  case (Update env c name yaml reason)
  show ?thesis unfolding Update serve.simps update_def
    using history_store by (auto split: sum.split prod.split)
next
  case (Delete env c name)
  show ?thesis unfolding Delete serve.simps delete_handler_def
    by (auto simp: delete_policy_def split: sum.split prod.split option.split bool.split)
next
  case (Rollback env c name version)
  show ?thesis unfolding Rollback serve.simps rollback_def
    using history_store by (auto split: sum.split prod.split)
next
  case (Push out now agent name version)
  then show ?thesis by (auto simp: mark_assigned_def Let_def split: option.split)
next
  case (Ack out agent name version)
  then show ?thesis by (cases out) (auto simp: mark_acked_def)
qed

text \<open>The current version of every policy is in the history with its content.\<close>

definition recorded :: "db \<Rightarrow> bool" where
  "recorded d \<longleftrightarrow> (\<forall>p \<in> set (db_policies d). \<exists>h \<in> set (db_history d).
     hi_policy_name h = po_name p \<and> hi_version h = po_version p \<and> hi_content_yaml h = po_content_yaml p)"

fun history_up :: "request \<Rightarrow> bool" where
  "history_up (Create env c yaml reason) \<longleftrightarrow> pe_history env = None"
| "history_up (Update env c name yaml reason) \<longleftrightarrow> pe_history env = None"
| "history_up (Rollback env c name version) \<longleftrightarrow> pe_history env = None"
| "history_up _ \<longleftrightarrow> True"

lemma recorded_store:
  assumes "recorded d" "pe_history env = None"
  shows "recorded (fst (snd (store_version env n v y pct who re d tx)))"
proof -
  obtain p c t where pct: "pct = (p, c, t)" by (rule prod_cases3)
  have "recorded (append_history now n v y who re (write_policy now n v y (p, c, t) who d))" for now
    using assms(1) by (auto simp: recorded_def append_history_def write_policy_def set_upd)
  then show ?thesis using assms by (auto simp: store_version_def sql_exec_def pct split: option.split)
qed

lemma recorded_serve:
  assumes "recorded d" "history_up r"
  shows "recorded (fst (serve r d tx))"
proof (cases r)
  case (Create env c yaml reason)
  show ?thesis using assms unfolding Create serve.simps create_def
    by (auto simp: Let_def insert_policy_def append_history_def recorded_def
        split: sum.split prod.split option.split)
next
  case (Update env c name yaml reason)
  then show ?thesis using assms recorded_store by (auto simp: update_def split: sum.split prod.split)
next
  case (Delete env c name)
  show ?thesis using assms unfolding Delete serve.simps delete_handler_def
    by (auto simp: delete_policy_def recorded_def split: sum.split prod.split option.split bool.split)
next
  case (Rollback env c name version)
  then show ?thesis using assms recorded_store by (auto simp: rollback_def split: sum.split prod.split)
next
  case (Push out now agent name version)
  then show ?thesis using assms by (auto simp: mark_assigned_def Let_def recorded_def split: option.split)
next
  case (Ack out agent name version)
  then show ?thesis using assms by (cases out) (auto simp: mark_acked_def recorded_def)
qed

text \<open>C16: the history only grows, and as long as no request fails between its two writes, it holds the
  current version of every policy with its exact content, so that a rollback can restore it.\<close>

theorem history_records_versions:
  assumes "recorded d" "list_all history_up rs" "serve_all rs d tx = (d', tx')"
  shows "recorded d' \<and> (\<exists>new. db_history d' = db_history d @ new \<and> length new \<le> length rs)"
  using assms
proof (induction rs arbitrary: d tx)
  case (Cons r rs)
  obtain d1 tx1 where s: "serve r d tx = (d1, tx1)" by fastforce
  have "recorded d1" using recorded_serve [of d r tx] Cons.prems s by simp
  moreover obtain new where "db_history d1 = db_history d @ new" "length new \<le> 1"
    using history_serve [of r d tx] s by auto
  moreover have "serve_all rs d1 tx1 = (d', tx')" using Cons.prems(3) s by simp
  ultimately show ?case using Cons.IH [of d1 tx1] Cons.prems(2) by fastforce
qed simp

section \<open>What a change reaches\<close>

lemma acked_version_keeps:
  "db_assignments d' = db_assignments d \<Longrightarrow> acked_version d' agent name = acked_version d agent name"
  by (simp add: acked_version_def)

text \<open>An update that succeeds stores the new content under the next version and is pending again for every agent,
  whatever version up to the old one the agent has acknowledged.\<close>

lemma update_is_pending:
  assumes "update env c name yaml reason d tx = (Inr dto, d', tx')" "find_policy name d = Some r" "po_enabled r"
    and "is_i32 (po_version r)" "po_version r \<noteq> 2 ^ 31 - 1"
    and "case acked_version d agent name of None \<Rightarrow> True | Some v \<Rightarrow> v \<le> po_version r"
  shows "\<exists>r'. find_policy name d' = Some r' \<and> po_version r' = po_version r + 1 \<and> po_content_yaml r' = yaml \<and>
    is_pending d' agent r'"
proof -
  obtain p cp t who s where "find_policy name d = Some s" "store_version env name (wrap_i32 (po_version s + 1)) yaml
      (p, cp, t) who (unwrap_or (lit ''update'') reason) d tx = (Inr dto, d', tx')"
    using assms(1) by (rule update_ok)
  with assms(2) have st: "store_version env name (wrap_i32 (po_version r + 1)) yaml
      (p, cp, t) who (unwrap_or (lit ''update'') reason) d tx = (Inr dto, d', tx')" by simp
  have v: "wrap_i32 (po_version r + 1) = po_version r + 1"
    using assms(4,5) by (intro wrap_i32_id) (auto simp: is_i32_def)
  from store_version_ok [OF st assms(2)] have d': "d' = append_history (pe_now env) name (po_version r + 1) yaml who
      (unwrap_or (lit ''update'') reason) (write_policy (pe_now env) name (po_version r + 1) yaml (p, cp, t) who d)"
    by (simp add: v)
  have find: "find_policy name d' = find_policy name (write_policy (pe_now env) name (po_version r + 1) yaml (p, cp, t) who d)"
    by (simp add: d' append_history_def find_policy_def)
  have ack: "acked_version d' agent name = acked_version d agent name"
    by (rule acked_version_keeps) (simp add: d' append_history_def)
  have name: "po_name r = name" using find_policy_in [OF assms(2)] by simp
  with assms(3,6) show ?thesis
    by (auto simp: find find_policy_write assms(2) is_pending_def ack split: option.split)
qed

text \<open>At the last version an \<open>i32\<close> holds, the next update wraps: it is stored under a negative version,
  and no agent that has ever acknowledged the policy is sent it.\<close>

theorem update_wraps_and_is_not_pushed:
  assumes "update env c name yaml reason d tx = (Inr dto, d', tx')" "find_policy name d = Some r"
    and "po_version r = 2 ^ 31 - 1" "acked_version d agent name = Some v" "is_i32 v"
  shows "\<exists>r'. find_policy name d' = Some r' \<and> po_version r' = - (2 ^ 31) \<and> \<not> is_pending d' agent r'"
proof -
  obtain p cp t who s where "find_policy name d = Some s" "store_version env name (wrap_i32 (po_version s + 1)) yaml
      (p, cp, t) who (unwrap_or (lit ''update'') reason) d tx = (Inr dto, d', tx')"
    using assms(1) by (rule update_ok)
  moreover have v: "wrap_i32 (po_version r + 1) = - (2 ^ 31)" by (simp add: assms(3) wrap_i32_def)
  ultimately have st: "store_version env name (- (2 ^ 31)) yaml
      (p, cp, t) who (unwrap_or (lit ''update'') reason) d tx = (Inr dto, d', tx')" using assms(2) by simp
  from store_version_ok [OF st assms(2)] have d': "d' = append_history (pe_now env) name (- (2 ^ 31)) yaml who
      (unwrap_or (lit ''update'') reason) (write_policy (pe_now env) name (- (2 ^ 31)) yaml (p, cp, t) who d)"
    by simp
  have find: "find_policy name d' = find_policy name (write_policy (pe_now env) name (- (2 ^ 31)) yaml (p, cp, t) who d)"
    by (simp add: d' append_history_def find_policy_def)
  have ack: "acked_version d' agent name = acked_version d agent name"
    by (rule acked_version_keeps) (simp add: d' append_history_def)
  have name: "po_name r = name" using find_policy_in [OF assms(2)] by simp
  with assms(4,5) show ?thesis
    by (auto simp: find find_policy_write assms(2) is_pending_def ack is_i32_def)
qed

text \<open>C17: a policy that is created can be read back as it was written, and it is pending for every agent.\<close>

theorem created_policy_is_served:
  assumes "policy_tables_ok d" "create env c yaml reason d tx = (Inr (status, dto), d', tx')" "pe_read env2 = None"
    and "cl_role c2 = lit ''admin''"
  shows "status = 201 \<and> get_policy env2 c2 (pd_name dto) d' = Inr dto \<and> pd_content_yaml dto = yaml \<and> pd_enabled dto \<and>
    (\<exists>r. find_policy (pd_name dto) d' = Some r \<and> (\<forall>agent. is_pending d' agent r))"
  using assms(2)
proof (rule create_ok)
  fix p cp t who x
  let ?n = "md_name (p_metadata p)"
  let ?r = "\<lparr>po_name = ?n, po_version = unwrap_or 1 (i32_of_u32 (md_version (p_metadata p))), po_content_yaml = yaml,
    po_content_compiled = cp_msgpack cp, po_content_hash = cp_hash cp, po_targets = t,
    po_priority = sint (p_priority p), po_enabled = True, po_created_at = pe_now env,
    po_updated_at = pe_now env, po_created_by = Some who, po_updated_by = Some who\<rparr>"
  assume x: "(status, dto) = (201, x)" and new: "find_policy ?n d = None"
    and d': "d' = append_history (pe_now env) ?n (unwrap_or 1 (i32_of_u32 (md_version (p_metadata p)))) yaml who
      (unwrap_or (lit ''create'') reason) (d\<lparr>db_policies := db_policies d @ [?r]\<rparr>)"
    and f: "fetch_full (pe_fetch env) ?n d' = Inr x"
  have find: "find_policy ?n d' = Some ?r"
    using new by (simp add: d' append_history_def find_policy_def find_append)
  with f have dto: "dto = to_dto ?r" "status = 201" using x
    by (cases "pe_fetch env"; auto simp: fetch_full_def)+
  have "\<forall>a \<in> set (db_assignments d). pas_policy_name a \<noteq> ?n"
  proof
    fix a assume "a \<in> set (db_assignments d)"
    then have "pas_policy_name a \<in> po_name ` set (db_policies d)" using assms(1) by (simp add: policy_tables_ok_def)
    with new show "pas_policy_name a \<noteq> ?n" by (auto simp: find_policy_None)
  qed
  then have "find (\<lambda>a. pas_agent_id a = agent \<and> pas_policy_name a = ?n) (db_assignments d) = None" for agent
    by (auto simp: find_None_iff)
  then have "acked_version d' agent ?n = None" for agent
    by (simp add: acked_version_def d' append_history_def)
  then have "\<forall>agent. is_pending d' agent ?r" by (simp add: is_pending_def)
  with find assms(3,4) show ?thesis unfolding dto
    by (simp add: to_dto_def get_policy_def require_admin_def)
qed

text \<open>C18: a rollback that succeeds restores the exact content some entry of the history has under the
  requested version, as the next version.\<close>

theorem rollback_restores:
  assumes "rollback env c name version d tx = (Inr dto, d', tx')" "find_policy name d = Some r"
  shows "\<exists>h \<in> set (db_history d). hi_policy_name h = name \<and> hi_version h = version \<and>
    (\<exists>r'. find_policy name d' = Some r' \<and> po_content_yaml r' = hi_content_yaml h \<and>
      po_version r' = wrap_i32 (po_version r + 1))"
  using assms(1)
proof (rule rollback_ok)
  fix p cp t who s h
  assume h: "h \<in> set (db_history d)" "hi_policy_name h = name" "hi_version h = version"
    and s: "find_policy name d = Some s" and st: "store_version env name (wrap_i32 (po_version s + 1))
      (hi_content_yaml h) (p, cp, t) who (lit ''rollback to v'' @ show_int version) d tx = (Inr dto, d', tx')"
  from st have st: "store_version env name (wrap_i32 (po_version r + 1)) (hi_content_yaml h) (p, cp, t) who
      (lit ''rollback to v'' @ show_int version) d tx = (Inr dto, d', tx')" using s assms(2) by simp
  have "find_policy name d' = find_policy name
      (write_policy (pe_now env) name (wrap_i32 (po_version r + 1)) (hi_content_yaml h) (p, cp, t) who d)"
    using store_version_ok [OF st assms(2)] by (simp add: append_history_def find_policy_def)
  then have "find_policy name d' = Some (r\<lparr>po_version := wrap_i32 (po_version r + 1), po_content_yaml := hi_content_yaml h,
       po_content_compiled := cp_msgpack cp, po_content_hash := cp_hash cp, po_targets := t,
       po_priority := sint (p_priority p), po_updated_by := Some who, po_updated_at := pe_now env\<rparr>)"
    by (simp add: find_policy_write assms(2))
  with h show ?thesis by auto
qed

text \<open>When the second write of an update fails, the request is answered with an error although the
  policy is changed: the new version is in force, the history lacks it, and no push is triggered.\<close>

theorem failed_history_write_leaves_change:
  assumes "update_check env c name yaml d = Inr (pct, who, current)" "find_policy name d = Some r"
    and "pe_write env = None" "pe_history env = Some e"
  shows "\<exists>d' r'. update env c name yaml reason d tx = (Inl (Database (SqlDriver e)), d', tx) \<and>
    find_policy name d' = Some r' \<and> po_version r' = wrap_i32 (current + 1) \<and> po_content_yaml r' = yaml \<and>
    db_history d' = db_history d"
proof -
  obtain p cp t where pct: "pct = (p, cp, t)" by (rule prod_cases3)
  show ?thesis using assms
    by (simp add: update_def store_version_def find_policy_write pct)
qed

section \<open>Samples\<close>

definition sample_api :: "outcome \<Rightarrow> policy_env" where
  "sample_api h = \<lparr>pe_parse = \<lambda>y. Inr (sample_policy (lit ''p'') []), pe_regex = \<lambda>_. None, pe_to_vec = \<lambda>_. Inr [1],
     pe_sha = id, pe_targets_json = \<lambda>_. Inr JNull, pe_policy_json = \<lambda>_. None, pe_parse_uuid = \<lambda>_. Some 5,
     pe_coll = \<lambda>_ _. True, pe_now = 50, pe_read = None, pe_read_current = None, pe_write = None, pe_history = h,
     pe_fetch = None\<rparr>"

definition sample_claims :: claims where
  "sample_claims = \<lparr>cl_sub = lit ''5'', cl_username = lit ''u'', cl_role = lit ''admin'', cl_exp = 0, cl_iat = 0\<rparr>"

lemma sample_valid: "policy_validate (\<lambda>_. None) (sample_policy (lit ''p'') []) = Inr ()"
  by code_simp

lemma sample_from_yaml: "from_yaml (pe_parse (sample_api h)) (pe_regex (sample_api h)) y = Inr (sample_policy (lit ''p'') [])"
  using sample_valid by (simp add: from_yaml_def sample_api_def)

lemma sample_name: "md_name (p_metadata (sample_policy n t)) = n" "md_version (p_metadata (sample_policy n t)) = 1"
  by (simp_all add: sample_policy_def default_version_def)

lemmas sample_api_simps = parse_and_compile_def sample_from_yaml policy_compile_def from_policy_def
  sample_name caller_id_def require_admin_def sample_claims_def

lemma sample_env_simps:
  "pe_to_vec (sample_api h) = (\<lambda>_. Inr [1])" "pe_sha (sample_api h) = id" "pe_targets_json (sample_api h) = (\<lambda>_. Inr JNull)"
  "pe_parse_uuid (sample_api h) = (\<lambda>_. Some 5)" "pe_now (sample_api h) = 50" "pe_read (sample_api h) = None"
  "pe_read_current (sample_api h) = None" "pe_write (sample_api h) = None" "pe_history (sample_api h) = h"
  "pe_fetch (sample_api h) = None"
  by (simp_all add: sample_api_def)

definition sample_pct :: "policy \<times> compiled_policy \<times> json" where
  "sample_pct = (sample_policy (lit ''p'') [], \<lparr>cp_name = lit ''p'', cp_version = 1, cp_msgpack = [1],
     cp_hash = sha256_hex id [1]\<rparr>, JNull)"

lemma sample_parse: "parse_and_compile (sample_api h) y = Inr sample_pct"
  by (simp add: sample_api_simps sample_env_simps sample_pct_def)

lemma sample_update_check:
  "find_policy (lit ''p'') d = Some r \<Longrightarrow>
     update_check (sample_api h) sample_claims (lit ''p'') y d = Inr (sample_pct, 5, po_version r)"
  by (simp add: update_check_def sample_parse sample_pct_def sample_api_simps sample_env_simps)

lemma sample_update:
  assumes "find_policy (lit ''p'') d = Some r"
  shows "\<exists>dto d'. update (sample_api None) sample_claims (lit ''p'') y reason d tx = (Inr dto, d', notify_policy_changed (Some (lit ''p'')) tx)"
proof -
  have "find_policy (lit ''p'') (append_history now n v yy w re dd) = find_policy (lit ''p'') dd" for now n v yy w re dd
    by (simp add: append_history_def find_policy_def)
  then show ?thesis
    by (simp add: update_def sample_update_check [OF assms] store_version_def sample_env_simps fetch_full_def
        sample_pct_def find_policy_write assms)
qed

definition versioned_db :: "int \<Rightarrow> db" where
  "versioned_db v = empty_db\<lparr>db_agents := [sample_agent 7], db_policies := [sample_row (lit ''p'') v],
     db_assignments := [\<lparr>pas_agent_id = 7, pas_policy_name = lit ''p'', pas_assigned_version = v,
       pas_acked_version = Some v, pas_last_pushed_at = None\<rparr>],
     db_history := [\<lparr>hi_id = 1, hi_policy_name = lit ''p'', hi_version = v, hi_content_yaml = lit ''y'',
       hi_changed_by = None, hi_changed_at = 0, hi_change_reason = None\<rparr>], db_history_seq := 1\<rparr>"

lemma versioned_simps:
  "find_policy (lit ''p'') (versioned_db v) = Some (sample_row (lit ''p'') v)"
  "acked_version (versioned_db v) 7 (lit ''p'') = Some v" "po_enabled (sample_row n v)"
  by (simp_all add: versioned_db_def find_policy_def acked_version_def sample_row_def)

lemma sample_versioned_update:
  "\<exists>dto d'. update (sample_api None) sample_claims (lit ''p'') y reason (versioned_db v) None = (Inr dto, d', None)"
  using sample_update [OF versioned_simps(1), where y = y and reason = reason and tx = None] by (simp add: notify_policy_changed_def)

lemma sample_create:
  "\<exists>x d'. create (sample_api None) sample_claims y reason empty_db None = (Inr x, d', None)"
  by (simp add: create_def create_check_def sample_parse sample_pct_def sample_api_simps sample_env_simps empty_db_def
      find_policy_def insert_policy_def append_history_def fetch_full_def notify_policy_changed_def Let_def)

lemma sample_rollback:
  "\<exists>dto d'. rollback (sample_api None) sample_claims (lit ''p'') 3 (versioned_db 3) None = (Inr dto, d', None)"
proof -
  have "find (\<lambda>h. hi_policy_name h = lit ''p'' \<and> hi_version h = 3) (db_history (versioned_db 3)) \<noteq> None"
    by (simp add: versioned_db_def)
  moreover have "find_policy (lit ''p'') (append_history now n v yy w re dd) = find_policy (lit ''p'') dd" for now n v yy w re dd
    by (simp add: append_history_def find_policy_def)
  ultimately show ?thesis
    by (auto simp: rollback_def rollback_check_def sample_parse sample_pct_def sample_api_simps sample_env_simps
        versioned_simps store_version_def fetch_full_def find_policy_write notify_policy_changed_def)
qed

theorem created_policy_is_served_witness:
  "\<exists>status dto d'. create (sample_api None) sample_claims (lit ''a'') None empty_db None = (Inr (status, dto), d', None) \<and>
    status = 201 \<and> get_policy (sample_api None) sample_claims (pd_name dto) d' = Inr dto"
proof -
  obtain status dto d' where c: "create (sample_api None) sample_claims (lit ''a'') None empty_db None = (Inr (status, dto), d', None)"
    using sample_create by (metis surj_pair)
  have "policy_tables_ok empty_db" by (simp add: policy_tables_ok_def empty_db_def)
  from created_policy_is_served [OF this c, of "sample_api None" sample_claims] c show ?thesis
    by (simp add: sample_env_simps sample_claims_def)
qed

theorem rollback_restores_witness:
  "\<exists>dto d'. rollback (sample_api None) sample_claims (lit ''p'') 3 (versioned_db 3) None = (Inr dto, d', None) \<and>
    (\<exists>h \<in> set (db_history (versioned_db 3)). hi_policy_name h = lit ''p'' \<and> hi_version h = 3 \<and>
      (\<exists>r'. find_policy (lit ''p'') d' = Some r' \<and> po_content_yaml r' = hi_content_yaml h \<and>
        po_version r' = wrap_i32 (po_version (sample_row (lit ''p'') 3) + 1)))"
  using sample_rollback rollback_restores versioned_simps(1) by blast

theorem policies_need_admin_witness:
  "create (sample_api None) (sample_claims\<lparr>cl_role := lit ''viewer''\<rparr>) (lit ''a'') None (versioned_db 1) None
     = (Inl Forbidden, versioned_db 1, None)"
  using policies_need_admin [of "sample_claims\<lparr>cl_role := lit ''viewer''\<rparr>"] by simp

theorem update_wraps_and_is_not_pushed_witness:
  "\<exists>dto d' r'. update (sample_api None) sample_claims (lit ''p'') (lit ''b'') None (versioned_db (2 ^ 31 - 1)) None
      = (Inr dto, d', None) \<and> find_policy (lit ''p'') d' = Some r' \<and> po_version r' = - (2 ^ 31) \<and> \<not> is_pending d' 7 r'"
proof -
  obtain dto d' where u: "update (sample_api None) sample_claims (lit ''p'') (lit ''b'') None (versioned_db (2 ^ 31 - 1)) None
      = (Inr dto, d', None)"
    using sample_versioned_update by blast
  have "is_i32 (2 ^ 31 - 1)" by (simp add: is_i32_def)
  from update_wraps_and_is_not_pushed [OF u versioned_simps(1) _ versioned_simps(2) this] u show ?thesis by auto
qed

lemma versioned_ok: "policy_tables_ok (versioned_db 3)"
proof -
  have "slug (lit ''p'')" by code_simp
  then show ?thesis by (simp add: policy_tables_ok_def versioned_db_def is_i32_def empty_db_def)
qed

theorem policy_tables_invariant_witness:
  "policy_tables_ok (fst (serve_all [Push None 9 7 (lit ''p'') 3, Delete (sample_api None) sample_claims (lit ''p''),
     Create (sample_api None) sample_claims (lit ''b'') None] (versioned_db 3) None))"
proof -
  obtain d' tx' where "serve_all [Push None 9 7 (lit ''p'') 3, Delete (sample_api None) sample_claims (lit ''p''),
     Create (sample_api None) sample_claims (lit ''b'') None] (versioned_db 3) None = (d', tx')" by fastforce
  from policy_tables_invariant [OF versioned_ok this] this show ?thesis by simp
qed

theorem history_records_versions_witness:
  "recorded (fst (serve_all [Update (sample_api None) sample_claims (lit ''p'') (lit ''b'') None] (versioned_db 3) None))"
proof -
  obtain d' tx' where s: "serve_all [Update (sample_api None) sample_claims (lit ''p'') (lit ''b'') None]
     (versioned_db 3) None = (d', tx')" by fastforce
  have "recorded (versioned_db 3)" by (simp add: recorded_def versioned_db_def sample_row_def)
  from history_records_versions [OF this _ s] s show ?thesis by (simp add: sample_env_simps)
qed

theorem failed_history_write_leaves_change_witness:
  "\<exists>d' r'. update (sample_api (Some (lit ''e''))) sample_claims (lit ''p'') (lit ''b'') None (versioned_db 3) None =
      (Inl (Database (SqlDriver (lit ''e''))), d', None) \<and>
    find_policy (lit ''p'') d' = Some r' \<and> po_version r' = wrap_i32 (3 + 1) \<and> po_content_yaml r' = lit ''b'' \<and>
    db_history d' = db_history (versioned_db 3)"
proof -
  have "update_check (sample_api (Some (lit ''e''))) sample_claims (lit ''p'') (lit ''b'') (versioned_db 3) =
      Inr (sample_pct, 5, 3)"
    using sample_update_check [OF versioned_simps(1)] by simp
  from failed_history_write_leaves_change [OF this versioned_simps(1)] show ?thesis by (simp add: sample_env_simps)
qed

end
