(* ===== verification/Pipeline.thy ===== *)
theory Pipeline
  imports Uploader Agent_Stream Agent_Inbound Policy_Api
begin

text \<open>
  Agent and manager together: a policy from the manager's tables to the agent's disk and back as an
  acknowledgement, and an event from the agent's queue to the manager's table. A stream delivers what
  is sent, in order; what breaks it is in the models of its two ends.
\<close>

section \<open>A policy and its acknowledgement\<close>

lemma slug_no_slash: "slug i \<Longrightarrow> hd (i @ [46]) \<noteq> 47"
  by (cases i) (auto simp: slug_def slug_char_def ascii_class_defs)

lemma slug_paths: "slug i \<Longrightarrow> slug j \<Longrightarrow> policy_path dir i = policy_path dir j \<longleftrightarrow> i = j"
  by (simp add: policy_path_inj slug_no_slash)

lemma find_rev_unique:
  assumes "x \<in> set xs" "inj_on k (set xs)" "k x = v"
  shows "find (\<lambda>y. k y = v) (rev xs) = Some x"
proof -
  have "find (\<lambda>y. k y = v) (rev xs) \<noteq> None" using assms(1,3) by (auto simp: find_None_iff)
  then obtain y where y: "find (\<lambda>y. k y = v) (rev xs) = Some y" by blast
  with find_SomeD [OF y] assms show ?thesis by (auto dest: inj_onD)
qed

text \<open>The manager pushes what is pending, the agent applies it and acknowledges, the manager records that: afterwards
  nothing is pending for the agent, and its disk holds under the name of each policy that was pending exactly the
  compiled content of the table.\<close>

lemma policy_settles:
  assumes push: "ps_load env = None" "\<And>n. ps_assign env n = None" "\<not> ch_closed tx"
      "push_pending coll env a d tx = (d1, tx1)" "ch_msgs tx1 = ch_msgs tx @ [update_message ps]"
    and tables: "policy_tables_ok d" "a \<in> ag_id ` set (db_agents d)" "\<And>p. p \<in> set (db_policies d) \<Longrightarrow> 0 \<le> po_version p"
    and agent: "\<not> ch_closed ch" "list_all (\<lambda>x. x = None) os" "ch_msgs ch = []"
      "handle_inbound dir None os (update_message ps) fs ch = (fs', ch')"
    and acks: "\<forall>(e, m) \<in> set ms. ib_update e = None" "map snd ms = map Inr (ch_msgs ch')"
      "stream_inbound a ms d1 tx1 = (d2, tx2)"
  shows "load_pending_policies coll None a d2 = Inr [] \<and>
    (\<forall>p \<in> set (db_policies d). is_pending d a p \<longrightarrow> fs' (policy_path dir (po_name p)) = Some (po_content_compiled p))"
proof
  have "apply_policies dir os ps fs ch = (fs', ch')"
    using agent(4) by (simp add: handle_inbound_def update_message_def)
  note app = apply_policies_ok [OF agent(1,2) this]
  then have "map snd ms = map (\<lambda>p. Inr (ack_message p 1 [])) ps" using acks(2) agent(3) by simp
  from stream_acks [OF acks(1) this, of a d1 tx1]
  have d2: "d2 = each ack_at a (map ref_key ps) d1" using acks(3) by (simp add: ack_message_def)
  have dist: "distinct (map po_name (db_policies d))" using tables(1) by (simp add: policy_tables_ok_def)
  show "load_pending_policies coll None a d2 = Inr []" unfolding d2
    by (rule push_acked_settles [OF push(1-3) tables(2) dist _ push(4,5)])
      (use tables in \<open>simp add: policy_tables_ok_def\<close>)
  show "\<forall>p \<in> set (db_policies d). is_pending d a p \<longrightarrow> fs' (policy_path dir (po_name p)) = Some (po_content_compiled p)"
  proof (intro ballI impI)
    fix p assume p: "p \<in> set (db_policies d)" "is_pending d a p"
    then have ne: "filter (is_pending d a) (db_policies d) \<noteq> []" by (auto simp: filter_empty_conv)
    have "ps = map to_ref (order_by (push_order coll) (filter (is_pending d a) (db_policies d)))"
      using push(4,5) unfolding push_pending_eq [OF push(1-3) ne] by (auto simp: Let_def update_message_def)
    then have set: "set ps = to_ref ` {q \<in> set (db_policies d). is_pending d a q}" by auto
    have slug: "slug (po_name q)" if "q \<in> set (db_policies d)" for q
      using tables(1) that by (simp add: policy_tables_ok_def)
    have "inj_on po_name (set (db_policies d))" using dist by (simp add: distinct_map)
    then have "inj_on pref_policy_id (set ps)" unfolding set by (auto simp: inj_on_def to_ref_def)
    moreover have "to_ref p \<in> set ps" using p unfolding set by blast
    ultimately have "find (\<lambda>r. pref_policy_id r = po_name p) (rev ps) = Some (to_ref p)"
      by (intro find_rev_unique) (simp_all add: to_ref_def)
    moreover have "policy_path dir (pref_policy_id r) = policy_path dir (po_name p) \<longleftrightarrow> pref_policy_id r = po_name p"
      if "r \<in> set ps" for r
      using that slug p(1) unfolding set by (auto simp: slug_paths to_ref_def)
    ultimately show "fs' (policy_path dir (po_name p)) = Some (po_content_compiled p)"
      using app fold_files [of ps "\<lambda>r. policy_path dir (pref_policy_id r)" "policy_path dir (po_name p)"
          "\<lambda>r. pref_policy_id r = po_name p" pref_content_compiled fs]
      by (simp add: to_ref_def)
  qed
qed

section \<open>Events\<close>

definition ingest_up :: "(rstr \<Rightarrow> uuid option) \<Rightarrow> (int \<Rightarrow> int) \<Rightarrow> ingest_env \<Rightarrow> bool" where
  "ingest_up parse pgt env \<longleftrightarrow> ig_begin env = None \<and> (\<forall>i. ig_insert env i = None) \<and> ig_commit env = None \<and>
     ig_parse_uuid env = parse \<and> ig_pg_time env = pgt"

lemma batch_row_of_event:
  "ev \<in> set evs \<Longrightarrow> \<exists>j. event_to_row env agent j ev \<in> set (batch_rows env agent i evs)"
  by (induction evs arbitrary: i) auto

lemma batch_keys:
  assumes "ingest_up parse pgt env"
  shows "er_key ` set (db_events d) \<subseteq> er_key ` set (db_events (snd (insert_event_batch env agent b d))) \<and>
    (\<forall>ev \<in> set (eb_events b). \<forall>u. parse (ev_event_id ev) = Some u \<longrightarrow>
      (u, pgt (ev_timestamp_ns ev)) \<in> er_key ` set (db_events (snd (insert_event_batch env agent b d))))"
proof -
  have up: "ig_begin env = None" "\<And>i. ig_insert env i = None" "ig_commit env = None"
    using assms by (simp_all add: ingest_up_def)
  have keys: "er_key ` set (db_events (snd (insert_event_batch env agent b d))) =
      er_key ` set (db_events d) \<union> er_key ` set (batch_rows env agent 0 (eb_events b))"
    unfolding insert_event_batch_up [OF up] Let_def using new_rows_keys by simp
  have "(u, pgt (ev_timestamp_ns ev)) \<in> er_key ` set (batch_rows env agent 0 (eb_events b))"
    if ev: "ev \<in> set (eb_events b)" "parse (ev_event_id ev) = Some u" for ev u
  proof -
    obtain j where j: "event_to_row env agent j ev \<in> set (batch_rows env agent 0 (eb_events b))"
      using batch_row_of_event [OF ev(1)] by blast
    have "er_key (event_to_row env agent j ev) = (u, pgt (ev_timestamp_ns ev))"
      using ev(2) assms by (simp add: er_key_def event_to_row_def ingest_up_def)
    with j show ?thesis by (metis imageI)
  qed
  with keys show ?thesis by auto
qed

lemma batches_stored:
  assumes "\<forall>(env, m) \<in> set ms. ingest_up parse pgt (ib_ingest env)" "map snd ms = map (\<lambda>b. Inr (Some (AEvents b))) bs"
    and "stream_inbound agent ms d tx = (d', tx')"
  shows "er_key ` set (db_events d) \<subseteq> er_key ` set (db_events d') \<and>
    (\<forall>b \<in> set bs. \<forall>ev \<in> set (eb_events b). \<forall>u. parse (ev_event_id ev) = Some u \<longrightarrow>
      (u, pgt (ev_timestamp_ns ev)) \<in> er_key ` set (db_events d'))"
  using assms
proof (induction bs arbitrary: ms d)
  case (Cons b bs)
  obtain env ms' where ms: "ms = (env, Inr (Some (AEvents b))) # ms'" using Cons.prems(2) by (cases ms) auto
  let ?d1 = "snd (insert_event_batch (ib_ingest env) agent b d)"
  have up: "ingest_up parse pgt (ib_ingest env)" using Cons.prems(1) ms by simp
  have "stream_inbound agent ms' ?d1 tx = (d', tx')" using Cons.prems(3) by (simp add: ms handle_agent_message_def)
  from Cons.IH [OF _ _ this] Cons.prems(1,2) ms
  have IH: "er_key ` set (db_events ?d1) \<subseteq> er_key ` set (db_events d') \<and>
    (\<forall>b \<in> set bs. \<forall>ev \<in> set (eb_events b). \<forall>u. parse (ev_event_id ev) = Some u \<longrightarrow>
      (u, pgt (ev_timestamp_ns ev)) \<in> er_key ` set (db_events d'))" by simp
  note k = batch_keys [OF up, of d agent b]
  show ?case
  proof (intro conjI ballI allI impI)
    show "er_key ` set (db_events d) \<subseteq> er_key ` set (db_events d')"
      by (rule order_trans [OF conjunct1 [OF k] conjunct1 [OF IH]])
    fix c ev u
    assume c: "c \<in> set (b # bs)" "ev \<in> set (eb_events c)" "parse (ev_event_id ev) = Some u"
    show "(u, pgt (ev_timestamp_ns ev)) \<in> er_key ` set (db_events d')"
    proof (cases "c = b")
      case True
      with k c(2,3) have "(u, pgt (ev_timestamp_ns ev)) \<in> er_key ` set (db_events ?d1)" by simp
      then show ?thesis by (rule subsetD [OF conjunct1 [OF IH]])
    next
      case False
      with IH c show ?thesis by simp
    qed
  qed
qed simp

lemma sent_events_batches: "sent_events (map (\<lambda>b. Some (AEvents b)) bs) = concat (map eb_events bs)"
  by (induction bs) simp_all

text \<open>C2: with everything up and enough ticks of the uploader, every event pending in the agent's queue
  ends up in the manager's table, under its id and time, and leaves the queue.\<close>

theorem events_reach_manager:
  assumes "queue_inv decode q" "list_all (\<lambda>w. \<exists>now uuid. w = Tick None None now uuid) ws"
    and "length (pending decode q) \<le> 50 * length ws"
    and "uploader_loop decode ws \<lparr>ch_msgs = [], ch_closed = False\<rparr> q = (ch', q')"
    and "\<forall>(env, m) \<in> set ms. ingest_up parse pgt (ib_ingest env)" "map snd ms = map Inr (ch_msgs ch')"
    and "stream_inbound agent ms d tx = (d', tx')"
  shows "pending decode q' = [] \<and> (\<forall>(i, ev) \<in> set (pending decode q). \<forall>u. parse (ev_event_id ev) = Some u \<longrightarrow>
    (\<exists>r \<in> set (db_events d'). er_id r = u \<and> er_timestamp r = pgt (ev_timestamp_ns ev)))"
proof -
  have ok: "sent_events (ch_msgs ch') = map snd (pending decode q)" "pending decode q' = []"
    using uploader_loop_ok [OF assms(1) _ assms(2,4)] assms(3) by simp_all
  obtain bs where bs: "ch_msgs ch' = map (\<lambda>b. Some (AEvents b)) bs"
    using uploader_loop_batches [OF assms(4)] by auto
  then have "map snd ms = map (\<lambda>b. Inr (Some (AEvents b))) bs" using assms(6) by simp
  note st = batches_stored [OF assms(5) this assms(7)]
  have "\<exists>r \<in> set (db_events d'). er_id r = u \<and> er_timestamp r = pgt (ev_timestamp_ns ev)"
    if "(i, ev) \<in> set (pending decode q)" "parse (ev_event_id ev) = Some u" for i ev u
  proof -
    have "ev \<in> set (concat (map eb_events bs))"
      using that(1) ok(1) bs by (force simp: sent_events_batches)
    then obtain b where "b \<in> set bs" "ev \<in> set (eb_events b)" by auto
    with st that(2) have "(u, pgt (ev_timestamp_ns ev)) \<in> er_key ` set (db_events d')" by blast
    then show ?thesis by (auto simp: er_key_def)
  qed
  with ok(2) show ?thesis by blast
qed

theorem events_reach_manager_witness:
  "\<exists>ch' q' d' tx'. uploader_loop id_decode [Tick None None 9 (lit ''x'')] \<lparr>ch_msgs = [], ch_closed = False\<rparr> two_event_queue
      = (ch', q') \<and>
    stream_inbound 7 (map (\<lambda>m. (sample_inbound, Inr m)) (ch_msgs ch')) empty_db \<lparr>ch_msgs = [], ch_closed = False\<rparr> = (d', tx') \<and>
    pending id_decode q' = [] \<and> (\<exists>r \<in> set (db_events d'). er_id r = 1) \<and> (\<exists>r \<in> set (db_events d'). er_id r = 2)"
proof -
  let ?parse = "\<lambda>s. if s = lit ''a'' then Some 1 else if s = lit ''b'' then Some 2 else None"
  obtain ch' q' where up: "uploader_loop id_decode [Tick None None 9 (lit ''x'')] \<lparr>ch_msgs = [], ch_closed = False\<rparr>
      two_event_queue = (ch', q')" by fastforce
  obtain d' tx' where st: "stream_inbound 7 (map (\<lambda>m. (sample_inbound, Inr m)) (ch_msgs ch')) empty_db
      \<lparr>ch_msgs = [], ch_closed = False\<rparr> = (d', tx')" by fastforce
  have pend: "map snd (pending id_decode two_event_queue) = [sample_event (lit ''a''), sample_event (lit ''b'')]"
    by (simp add: two_event_queue_def enqueue_def pending_def unsent_def row_event_def id_decode_def id_encode_def
        max_i64_def Let_def sample_event_def as_bytes_def lit_def unat_of_nat_small)
  have "pending id_decode q' = [] \<and> (\<forall>(i, ev) \<in> set (pending id_decode two_event_queue).
      \<forall>u. ?parse (ev_event_id ev) = Some u \<longrightarrow>
        (\<exists>r \<in> set (db_events d'). er_id r = u \<and> er_timestamp r = ev_timestamp_ns ev div 1000))"
  proof (rule events_reach_manager [OF two_event_queue_inv _ _ up _ _ st])
    show "length (pending id_decode two_event_queue) \<le> 50 * length [Tick None None 9 (lit ''x'')]"
      using arg_cong [OF pend, of length] by simp
  qed (auto simp: ingest_up_def sample_inbound_def sample_ingest_def)
  moreover obtain i j where "pending id_decode two_event_queue =
      [(i, sample_event (lit ''a'')), (j, sample_event (lit ''b''))]"
    using pend by (auto simp: map_eq_Cons_conv)
  ultimately have "pending id_decode q' = []" "\<exists>r \<in> set (db_events d'). er_id r = 1" "\<exists>r \<in> set (db_events d'). er_id r = 2"
    by (auto simp: sample_event_def)
  with up st show ?thesis by blast
qed

end
