(* ===== verification/Ca.thy ===== *)
theory Ca
  imports Agent_Files
begin

text \<open>
  The internal certificate authority, \<open>scrooge-common/src/ca.rs\<close>. The crate \<open>rcgen\<close> is the record \<open>rcgen\<close> of
  the functions the code calls, on its keys \<open>'k\<close> and certificates \<open>'c\<close>; of its parameters of a certificate
  the model has the fields the code sets. A fresh key pair is an argument, with the error of its generation.
\<close>

text \<open>Files of text, read as bytes.\<close>

definition file_bytes :: "rstr files \<Rightarrow> u8 list files" where
  "file_bytes fs = (\<lambda>p. map_option as_bytes (fs p))"

section \<open>The crate as the code sees it\<close>

datatype dn_type = CommonName | OrganizationName
datatype key_usage = KeyCertSign | CrlSign | DigitalSignature | KeyEncipherment
datatype ext_key_usage = ServerAuth
datatype is_ca = NoCa | CaUnconstrained
datatype san_type = DnsName rstr | IpAddress "u8 list"

type_synonym distinguished_name = "(dn_type \<times> rstr) list"

definition dn_push :: "dn_type \<Rightarrow> rstr \<Rightarrow> distinguished_name \<Rightarrow> distinguished_name" where
  "dn_push t v d = (if t \<in> fst ` set d then map (\<lambda>(u, w). if u = t then (u, v) else (u, w)) d else d @ [(t, v)])"

record cert_params =
  cq_is_ca :: is_ca
  cq_key_usages :: "key_usage list"
  cq_extended_key_usages :: "ext_key_usage list"
  cq_subject_alt_names :: "san_type list"
  cq_distinguished_name :: distinguished_name

record csr_params =
  cr_params :: cert_params
  cr_public_key :: "u8 list"

record ('k, 'c) rcgen =
  rg_params_new :: "rstr list \<Rightarrow> rstr + cert_params"
  rg_self_signed :: "cert_params \<Rightarrow> 'k \<Rightarrow> rstr + 'c"
  rg_cert_pem :: "'c \<Rightarrow> rstr"
  rg_key_pem :: "'k \<Rightarrow> rstr"
  rg_key_from_pem :: "rstr \<Rightarrow> rstr + 'k"
  rg_params_from_ca_pem :: "rstr \<Rightarrow> rstr + cert_params"
  rg_csr_from_pem :: "rstr \<Rightarrow> rstr + csr_params"
  rg_signed_by :: "csr_params \<Rightarrow> 'c \<Rightarrow> 'k \<Rightarrow> rstr + 'c"
  rg_request_pem :: "cert_params \<Rightarrow> 'k \<Rightarrow> rstr + rstr"
  rg_parse_ip :: "rstr \<Rightarrow> u8 list option"

datatype ca_error = CaIo rstr rstr | Rcgen rstr

definition rcgen_err :: "rstr + 'a \<Rightarrow> ca_error + 'a" where
  "rcgen_err r = map_err Rcgen r"

lemma rcgen_err_simps [simp]: "rcgen_err (Inl e) = Inl (Rcgen e)" "rcgen_err (Inr a) = Inr a"
  by (simp_all add: rcgen_err_def)

lemma rcgen_err_Inr [rust_res]: "rcgen_err r = Inr a \<longleftrightarrow> r = Inr a"
  by (cases r) auto

section \<open>The root CA\<close>

record ('k, 'c) root_ca =
  rc_cert :: 'c
  rc_key_pair :: 'k
  rc_cert_pem :: rstr
  rc_key_pem :: rstr

definition ca_generate :: "('k, 'c) rcgen \<Rightarrow> rstr + 'k \<Rightarrow> rstr \<Rightarrow> ca_error + ('k, 'c) root_ca" where
  "ca_generate rg new_key subject_cn =
     res_bind (rcgen_err (rg_params_new rg [])) (\<lambda>params.
     let dn = dn_push OrganizationName (lit ''ScroogeDLP'') (dn_push CommonName subject_cn []);
         params = params\<lparr>cq_is_ca := CaUnconstrained, cq_key_usages := [KeyCertSign, CrlSign, DigitalSignature],
           cq_distinguished_name := dn\<rparr>
     in res_bind (rcgen_err new_key) (\<lambda>key_pair.
        res_bind (rcgen_err (rg_self_signed rg params key_pair)) (\<lambda>cert.
        Inr \<lparr>rc_cert = cert, rc_key_pair = key_pair, rc_cert_pem = rg_cert_pem rg cert,
          rc_key_pem = rg_key_pem rg key_pair\<rparr>)))"

definition ca_load_from_files ::
  "('k, 'c) rcgen \<Rightarrow> (rstr \<Rightarrow> rstr option) \<Rightarrow> rstr \<Rightarrow> rstr \<Rightarrow> rstr files \<Rightarrow> ca_error + ('k, 'c) root_ca" where
  "ca_load_from_files rg rd cert_path key_path fs =
     res_bind (map_err (CaIo cert_path) (fs_read (rd cert_path) cert_path fs)) (\<lambda>cert_pem.
     res_bind (map_err (CaIo key_path) (fs_read (rd key_path) key_path fs)) (\<lambda>key_pem.
     res_bind (rcgen_err (rg_key_from_pem rg key_pem)) (\<lambda>key_pair.
     res_bind (rcgen_err (rg_params_from_ca_pem rg cert_pem)) (\<lambda>params.
     res_bind (rcgen_err (rg_self_signed rg params key_pair)) (\<lambda>cert.
     Inr \<lparr>rc_cert = cert, rc_key_pair = key_pair, rc_cert_pem = rg_cert_pem rg cert, rc_key_pem = key_pem\<rparr>)))))"

definition ca_save_to_files ::
  "(rstr \<times> rstr option) option \<Rightarrow> (rstr \<times> rstr option) option \<Rightarrow> ('k, 'c) root_ca \<Rightarrow> rstr \<Rightarrow> rstr \<Rightarrow> rstr files \<Rightarrow>
   (ca_error + unit) \<times> rstr files" where
  "ca_save_to_files wr_cert wr_key ca cert_path key_path fs =
     (case fs_write wr_cert cert_path (rc_cert_pem ca) fs of
        (Inl e, fs) \<Rightarrow> (Inl (CaIo cert_path e), fs)
      | (Inr _, fs) \<Rightarrow>
          (case fs_write wr_key key_path (rc_key_pem ca) fs of
             (Inl e, fs) \<Rightarrow> (Inl (CaIo key_path e), fs)
           | (Inr _, fs) \<Rightarrow> (Inr (), fs)))"

definition sign_csr :: "('k, 'c) rcgen \<Rightarrow> ('k, 'c) root_ca \<Rightarrow> rstr \<Rightarrow> ca_error + rstr" where
  "sign_csr rg ca csr_pem =
     res_bind (rcgen_err (rg_csr_from_pem rg csr_pem)) (\<lambda>csr.
     res_bind (rcgen_err (rg_signed_by rg csr (rc_cert ca) (rc_key_pair ca))) (\<lambda>signed.
     Inr (rg_cert_pem rg signed)))"

definition agent_dn :: "rstr \<Rightarrow> distinguished_name" where
  "agent_dn cn = dn_push OrganizationName (lit ''ScroogeDLP Agent'') (dn_push CommonName cn [])"

definition sign_csr_with_cn :: "('k, 'c) rcgen \<Rightarrow> ('k, 'c) root_ca \<Rightarrow> rstr \<Rightarrow> rstr \<Rightarrow> ca_error + rstr" where
  "sign_csr_with_cn rg ca csr_pem subject_cn =
     res_bind (rcgen_err (rg_csr_from_pem rg csr_pem)) (\<lambda>csr.
     let csr = csr\<lparr>cr_params := (cr_params csr)\<lparr>cq_distinguished_name := agent_dn subject_cn\<rparr>\<rparr>
     in res_bind (rcgen_err (rg_signed_by rg csr (rc_cert ca) (rc_key_pair ca))) (\<lambda>signed.
        Inr (rg_cert_pem rg signed)))"

section \<open>Certificate requests\<close>

definition generate_server_csr :: "('k, 'c) rcgen \<Rightarrow> rstr + 'k \<Rightarrow> rstr \<Rightarrow> rstr list \<Rightarrow> ca_error + rstr \<times> rstr" where
  "generate_server_csr rg new_key common_name sans =
     res_bind (rcgen_err new_key) (\<lambda>key_pair.
     let dns = filter (\<lambda>s. rg_parse_ip rg s = None) sans;
         ips = filter (\<lambda>s. rg_parse_ip rg s \<noteq> None) sans
     in res_bind (rcgen_err (rg_params_new rg dns)) (\<lambda>params.
        let params = params\<lparr>
              cq_subject_alt_names := cq_subject_alt_names params @ map IpAddress (List.map_filter (rg_parse_ip rg) ips),
              cq_distinguished_name := dn_push OrganizationName (lit ''ScroogeDLP'') (dn_push CommonName common_name []),
              cq_key_usages := [DigitalSignature, KeyEncipherment], cq_extended_key_usages := [ServerAuth]\<rparr>
        in res_bind (rcgen_err (rg_request_pem rg params key_pair)) (\<lambda>csr_pem.
           Inr (csr_pem, rg_key_pem rg key_pair))))"

definition generate_agent_csr :: "('k, 'c) rcgen \<Rightarrow> rstr + 'k \<Rightarrow> rstr \<Rightarrow> ca_error + rstr \<times> rstr" where
  "generate_agent_csr rg new_key common_name =
     res_bind (rcgen_err new_key) (\<lambda>key_pair.
     res_bind (rcgen_err (rg_params_new rg [common_name])) (\<lambda>params.
     let params = params\<lparr>cq_distinguished_name := agent_dn common_name\<rparr>
     in res_bind (rcgen_err (rg_request_pem rg params key_pair)) (\<lambda>csr_pem.
        Inr (csr_pem, rg_key_pem rg key_pair))))"

section \<open>What the certificates say\<close>

text \<open>The common names of a subject, in order.\<close>

definition common_names :: "distinguished_name \<Rightarrow> rstr list" where
  "common_names d = map snd (filter (\<lambda>(t, v). t = CommonName) d)"

lemma common_names_agent [simp]: "common_names (agent_dn cn) = [cn]"
  by (simp add: common_names_def agent_dn_def dn_push_def)

text \<open>What the code relies on of \<open>rcgen\<close>: a signed certificate holds the parameters of the request it was given, and
  its PEM is ASCII. \<open>cert_of\<close> reads a certificate.\<close>

definition signs_request :: "('k, 'c) rcgen \<Rightarrow> (rstr \<Rightarrow> cert_params option) \<Rightarrow> bool" where
  "signs_request rg cert_of \<longleftrightarrow> (\<forall>csr cert key signed. rg_signed_by rg csr cert key = Inr signed \<longrightarrow>
     is_ascii (rg_cert_pem rg signed) \<and> cert_of (rg_cert_pem rg signed) = Some (cr_params csr))"

text \<open>What the code relies on of X.509: the reader of the manager sees the common names of a certificate.\<close>

definition reads_subject :: "(rstr \<Rightarrow> cert_params option) \<Rightarrow> (rstr \<Rightarrow> u8 list) \<Rightarrow> (u8 list \<Rightarrow> rstr option list option) \<Rightarrow> bool" where
  "reads_subject cert_of der parse_x509 \<longleftrightarrow> (\<forall>pem. parse_x509 (der pem) =
     map_option (\<lambda>p. map Some (common_names (cq_distinguished_name p))) (cert_of pem))"

text \<open>The certificate of an enrollment names the agent as the manager does, whatever name its request asks for;
  everything else is what the request asks for.\<close>

lemma sign_csr_with_cn_Inr:
  assumes "signs_request rg cert_of" "sign_csr_with_cn rg ca csr_pem cn = Inr cert"
  shows "is_ascii cert \<and> (\<exists>csr. rg_csr_from_pem rg csr_pem = Inr csr \<and>
    cert_of cert = Some ((cr_params csr)\<lparr>cq_distinguished_name := agent_dn cn\<rparr>))"
  using assms by (auto simp: sign_csr_with_cn_def signs_request_def res_bind_Inr_iff rcgen_err_Inr Let_def)

text \<open>A CA that is saved and loaded signs with the key it was made with, under the name it was made with.\<close>

lemma ca_save_load:
  assumes "ca_generate rg new_key cn = Inr ca" "ca_save_to_files None None ca cp kp fs = (r, fs')" "cp \<noteq> kp"
    and key: "\<And>k. rg_key_from_pem rg (rg_key_pem rg k) = Inr k"
    and params: "\<And>p k c. rg_self_signed rg p k = Inr c \<Longrightarrow>
      \<exists>q. rg_params_from_ca_pem rg (rg_cert_pem rg c) = Inr q \<and> cq_distinguished_name q = cq_distinguished_name p"
    and total: "\<And>p k. \<exists>c. rg_self_signed rg p k = Inr c"
  shows "r = Inr () \<and> (\<exists>ca' q. ca_load_from_files rg (\<lambda>_. None) cp kp fs' = Inr ca' \<and>
    rc_key_pair ca' = rc_key_pair ca \<and> rc_key_pem ca' = rc_key_pem ca \<and>
    rg_self_signed rg q (rc_key_pair ca) = Inr (rc_cert ca') \<and> rc_cert_pem ca' = rg_cert_pem rg (rc_cert ca') \<and>
    cq_distinguished_name q = [(CommonName, cn), (OrganizationName, lit ''ScroogeDLP'')])"
proof -
  obtain p k c where g: "rg_self_signed rg p k = Inr c"
    "ca = \<lparr>rc_cert = c, rc_key_pair = k, rc_cert_pem = rg_cert_pem rg c, rc_key_pem = rg_key_pem rg k\<rparr>"
    "cq_distinguished_name p = [(CommonName, cn), (OrganizationName, lit ''ScroogeDLP'')]"
    using assms(1) by (auto simp: ca_generate_def res_bind_Inr_iff rcgen_err_Inr Let_def dn_push_def)
  obtain q where q: "rg_params_from_ca_pem rg (rg_cert_pem rg c) = Inr q" "cq_distinguished_name q = cq_distinguished_name p"
    using params [OF g(1)] by blast
  obtain c' where c': "rg_self_signed rg q k = Inr c'" using total by blast
  have s: "r = Inr ()" "fs' cp = Some (rg_cert_pem rg c)" "fs' kp = Some (rg_key_pem rg k)"
    using assms(2,3) by (auto simp: ca_save_to_files_def fs_write_def g(2))
  have "ca_load_from_files rg (\<lambda>_. None) cp kp fs' = Inr \<lparr>rc_cert = c', rc_key_pair = k,
      rc_cert_pem = rg_cert_pem rg c', rc_key_pem = rg_key_pem rg k\<rparr>"
    using s q(1) c' by (simp add: ca_load_from_files_def fs_read_def key)
  then show ?thesis using s c' q(2) g(2,3) by auto
qed

section \<open>A crate for examples\<close>

definition sample_cert :: "rstr \<Rightarrow> cert_params" where
  "sample_cert cn = \<lparr>cq_is_ca = NoCa, cq_key_usages = [], cq_extended_key_usages = [],
     cq_subject_alt_names = [DnsName (lit ''csr'')], cq_distinguished_name = agent_dn cn\<rparr>"

definition sample_rcgen :: "(rstr, cert_params) rcgen" where
  "sample_rcgen = \<lparr>rg_params_new = \<lambda>sans. Inr (sample_cert []), rg_self_signed = \<lambda>p k. Inr p,
     rg_cert_pem = \<lambda>p. concat (common_names (cq_distinguished_name p)), rg_key_pem = id, rg_key_from_pem = Inr,
     rg_params_from_ca_pem = \<lambda>pem. Inr (sample_cert pem),
     rg_csr_from_pem = \<lambda>pem. Inr \<lparr>cr_params = (sample_cert [])\<lparr>cq_subject_alt_names := [DnsName pem]\<rparr>, cr_public_key = []\<rparr>,
     rg_signed_by = \<lambda>csr c k. (case common_names (cq_distinguished_name (cr_params csr)) of
       [cn] \<Rightarrow> if is_ascii cn \<and> cr_params csr = sample_cert cn then Inr (cr_params csr) else Inl [] | _ \<Rightarrow> Inl []),
     rg_request_pem = \<lambda>p k. Inr (lit ''csr''), rg_parse_ip = \<lambda>_. None\<rparr>"

text \<open>A certificate is its PEM; it is read as the certificate of the name it spells.\<close>

definition sample_cert_of :: "rstr \<Rightarrow> cert_params option" where
  "sample_cert_of pem = (if is_ascii pem then Some (sample_cert pem) else None)"

definition sample_der :: "rstr \<Rightarrow> u8 list" where
  "sample_der pem = (if is_ascii pem then map of_nat pem else [200])"

definition sample_x509 :: "u8 list \<Rightarrow> rstr option list option" where
  "sample_x509 der = (if list_all (\<lambda>b. unat b < 128) der then Some [Some (map unat der)] else None)"

lemma sample_signs: "signs_request sample_rcgen sample_cert_of"
  by (auto simp: signs_request_def sample_rcgen_def sample_cert_of_def split: list.splits if_splits)

lemma sample_byte: "c < 128 \<Longrightarrow> unat (of_nat c :: u8) = c"
  by (rule unat_of_nat_small) simp

lemma sample_reads: "reads_subject sample_cert_of sample_der sample_x509"
proof -
  have "list_all (\<lambda>b. unat b < 128) (map of_nat pem :: u8 list) \<and> map unat (map of_nat pem :: u8 list) = pem"
    if "is_ascii pem" for pem
    using that by (induction pem) (auto simp: sample_byte)
  then show ?thesis
    by (auto simp: reads_subject_def sample_cert_of_def sample_der_def sample_x509_def sample_cert_def)
qed

end
