(* ===== verification/Config.thy ===== *)
theory Config
  imports Agent_Files
begin

text \<open>
  The configuration of agent and manager, \<open>scrooge-common/src/config.rs\<close>: what \<open>derive(Deserialize)\<close> makes of a
  document under the \<open>serde\<close> attributes of each field, the defaults, loading and validation. The YAML parser
  is a parameter: it gives, for each section of a document, the fields that are present with values of
  their type (a \<open>raw\<close> record, \<open>None\<close> being an absent key), or its error. Unknown keys are ignored by it.
\<close>

section \<open>Errors\<close>

text \<open>A YAML error is the parser's, or the absence of a field that has no default.\<close>

datatype yaml_error = Malformed rstr | MissingKey

datatype config_error =
    Io rstr rstr
  | Yaml yaml_error
  | MissingField rstr
  | InvalidValue rstr rstr

definition required :: "'a option \<Rightarrow> yaml_error + 'a" where
  "required x = ok_or MissingKey x"

definition with_default :: "'a \<Rightarrow> 'a option \<Rightarrow> 'a" where
  "with_default d x = (case x of None \<Rightarrow> d | Some a \<Rightarrow> a)"

lemma required_simps [simp]: "required None = Inl MissingKey" "required (Some a) = Inr a"
  by (simp_all add: required_def)

lemma with_default_simps [simp]: "with_default d None = d" "with_default d (Some a) = a"
  by (simp_all add: with_default_def)

lemma required_Inr [rust_res]: "required x = Inr a \<longleftrightarrow> x = Some a"
  by (cases x) auto

section \<open>Defaults\<close>

definition default_true :: bool where "default_true = True"
definition default_log_level :: rstr where "default_log_level = lit ''info''"
definition default_heartbeat_interval_secs :: u32 where "default_heartbeat_interval_secs = 30"
definition default_grpc_addr :: rstr where "default_grpc_addr = lit ''0.0.0.0:5443''"
definition default_rest_addr :: rstr where "default_rest_addr = lit ''0.0.0.0:55000''"
definition default_pool_max :: u32 where "default_pool_max = 16"
definition default_protocol :: rstr where "default_protocol = lit ''tcp_tls''"
definition default_min_severity :: rstr where "default_min_severity = lit ''medium''"
definition default_access_token_ttl_secs :: u64 where "default_access_token_ttl_secs = 3600"
definition default_refresh_token_ttl_secs :: u64 where "default_refresh_token_ttl_secs = 30 * 24 * 3600"
definition default_refresh_interval_secs :: u32 where "default_refresh_interval_secs = 10"
definition default_refresh_mode :: rstr where "default_refresh_mode = lit ''active_only''"
definition default_idle_timeout_secs :: u32 where "default_idle_timeout_secs = 3600"
definition default_absolute_timeout_secs :: u32 where "default_absolute_timeout_secs = 3600"
definition default_warn_before_secs :: u32 where "default_warn_before_secs = 60"

section \<open>The agent\<close>

record agent_manager_config =
  am_endpoint :: rstr
  am_enrollment_token :: "rstr option"
  am_verify_tls :: bool
  am_ca_cert_path :: rstr

record agent_runtime_config =
  ar_data_dir :: rstr
  ar_log_level :: rstr
  ar_heartbeat_interval_secs :: u32
  ar_watch_paths :: "rstr list"

record agent_config =
  ac_manager :: agent_manager_config
  ac_agent :: agent_runtime_config

record raw_agent_manager =
  ram_endpoint :: "rstr option"
  ram_enrollment_token :: "rstr option"
  ram_verify_tls :: "bool option"
  ram_ca_cert_path :: "rstr option"

record raw_agent_runtime =
  rar_data_dir :: "rstr option"
  rar_log_level :: "rstr option"
  rar_heartbeat_interval_secs :: "u32 option"
  rar_watch_paths :: "rstr list option"

record raw_agent_config =
  rac_manager :: "raw_agent_manager option"
  rac_agent :: "raw_agent_runtime option"

definition de_agent_manager :: "raw_agent_manager \<Rightarrow> yaml_error + agent_manager_config" where
  "de_agent_manager r =
     res_bind (required (ram_endpoint r)) (\<lambda>endpoint.
     res_bind (required (ram_ca_cert_path r)) (\<lambda>ca_cert_path.
     Inr \<lparr>am_endpoint = endpoint, am_enrollment_token = ram_enrollment_token r,
       am_verify_tls = with_default default_true (ram_verify_tls r), am_ca_cert_path = ca_cert_path\<rparr>))"

definition de_agent_runtime :: "raw_agent_runtime \<Rightarrow> yaml_error + agent_runtime_config" where
  "de_agent_runtime r =
     res_bind (required (rar_data_dir r)) (\<lambda>data_dir.
     Inr \<lparr>ar_data_dir = data_dir, ar_log_level = with_default default_log_level (rar_log_level r),
       ar_heartbeat_interval_secs = with_default default_heartbeat_interval_secs (rar_heartbeat_interval_secs r),
       ar_watch_paths = with_default [] (rar_watch_paths r)\<rparr>)"

definition de_agent_config :: "raw_agent_config \<Rightarrow> yaml_error + agent_config" where
  "de_agent_config r =
     res_bind (required (rac_manager r)) (\<lambda>m. res_bind (de_agent_manager m) (\<lambda>manager.
     res_bind (required (rac_agent r)) (\<lambda>a. res_bind (de_agent_runtime a) (\<lambda>agent.
     Inr \<lparr>ac_manager = manager, ac_agent = agent\<rparr>))))"

definition agent_config_validate :: "agent_config \<Rightarrow> config_error + unit" where
  "agent_config_validate c =
     (if am_endpoint (ac_manager c) = [] then Inl (MissingField (lit ''manager.endpoint''))
      else if 58 \<notin> set (am_endpoint (ac_manager c))
      then Inl (InvalidValue (lit ''manager.endpoint'') (lit ''expected `host:port`''))
      else if ar_data_dir (ac_agent c) = [] then Inl (MissingField (lit ''agent.data_dir''))
      else Inr ())"

text \<open>\<open>std::fs::read_to_string\<close>, then \<open>serde_yaml::from_str\<close>; \<open>rd\<close> is the outcome of the read, which also fails
  where there is no such file. Shared by the two loaders.\<close>

definition read_config ::
  "(rstr \<Rightarrow> rstr + 'raw) \<Rightarrow> ('raw \<Rightarrow> yaml_error + 'c) \<Rightarrow> rstr option \<Rightarrow> rstr \<Rightarrow> rstr files \<Rightarrow> config_error + 'c" where
  "read_config parse de rd path fs =
     res_bind (map_err (Io path) (fs_read rd path fs)) (\<lambda>contents.
     res_bind (map_err (\<lambda>e. Yaml (Malformed e)) (parse contents)) (\<lambda>raw. map_err Yaml (de raw)))"

definition agent_config_load ::
  "(rstr \<Rightarrow> rstr + raw_agent_config) \<Rightarrow> rstr option \<Rightarrow> rstr \<Rightarrow> rstr files \<Rightarrow> config_error + agent_config" where
  "agent_config_load parse rd path fs =
     res_bind (read_config parse de_agent_config rd path fs) (\<lambda>config.
     res_bind (agent_config_validate config) (\<lambda>_. Inr config))"

section \<open>The manager\<close>

record manager_server_config =
  ms_grpc_listen_addr :: rstr
  ms_rest_listen_addr :: rstr
  ms_tls_cert_path :: rstr
  ms_tls_key_path :: rstr
  ms_ca_cert_path :: rstr
  ms_ca_key_path :: rstr
  ms_public_grpc_endpoint :: "rstr option"
  ms_public_rest_base_url :: "rstr option"
  ms_agent_release_tag :: "rstr option"
  ms_rest_tls_cert_path :: "rstr option"
  ms_rest_tls_key_path :: "rstr option"

record database_config =
  dc_url :: rstr
  dc_pool_max :: u32

record syslog_tls =
  sy_verify :: bool
  sy_ca_cert_path :: "rstr option"
  sy_client_cert_path :: "rstr option"
  sy_client_key_path :: "rstr option"

record syslog_destination =
  sd_host :: rstr
  sd_port :: "16 word"
  sd_protocol :: rstr
  sd_tls :: "syslog_tls option"

record syslog_filters =
  sf_min_severity :: rstr
  sf_respect_per_rule_flag :: bool
  sf_include_event_types :: "rstr list"
  sf_exclude_event_types :: "rstr list"

record syslog_forwarder_config =
  sw_enabled :: bool
  sw_destination :: "syslog_destination option"
  sw_filters :: syslog_filters

record auth_config =
  ah_jwt_secret :: rstr
  ah_access_token_ttl_secs :: u64
  ah_refresh_token_ttl_secs :: u64

record auto_refresh_config =
  af_enabled :: bool
  af_interval_secs :: u32
  af_mode :: rstr

record session_config =
  se_idle_timeout_secs :: u32
  se_absolute_timeout_secs :: u32
  se_warn_before_secs :: u32
  se_extend_on_activity :: bool

record dashboard_config =
  dh_auto_refresh :: auto_refresh_config
  dh_session :: session_config

record manager_config =
  mc_server :: manager_server_config
  mc_database :: database_config
  mc_syslog_forwarder :: syslog_forwarder_config
  mc_auth :: auth_config
  mc_dashboard :: dashboard_config

text \<open>The \<open>Default\<close> implementations.\<close>

definition syslog_filters_default :: syslog_filters where
  "syslog_filters_default = \<lparr>sf_min_severity = default_min_severity, sf_respect_per_rule_flag = True,
     sf_include_event_types = [], sf_exclude_event_types = []\<rparr>"

definition syslog_forwarder_default :: syslog_forwarder_config where
  "syslog_forwarder_default = \<lparr>sw_enabled = False, sw_destination = None, sw_filters = syslog_filters_default\<rparr>"

definition auto_refresh_default :: auto_refresh_config where
  "auto_refresh_default = \<lparr>af_enabled = True, af_interval_secs = default_refresh_interval_secs,
     af_mode = default_refresh_mode\<rparr>"

definition session_default :: session_config where
  "session_default = \<lparr>se_idle_timeout_secs = default_idle_timeout_secs,
     se_absolute_timeout_secs = default_absolute_timeout_secs, se_warn_before_secs = default_warn_before_secs,
     se_extend_on_activity = False\<rparr>"

definition dashboard_default :: dashboard_config where
  "dashboard_default = \<lparr>dh_auto_refresh = auto_refresh_default, dh_session = session_default\<rparr>"

subsection \<open>Sections of a document\<close>

record raw_manager_server =
  rms_grpc_listen_addr :: "rstr option"
  rms_rest_listen_addr :: "rstr option"
  rms_tls_cert_path :: "rstr option"
  rms_tls_key_path :: "rstr option"
  rms_ca_cert_path :: "rstr option"
  rms_ca_key_path :: "rstr option"
  rms_public_grpc_endpoint :: "rstr option"
  rms_public_rest_base_url :: "rstr option"
  rms_agent_release_tag :: "rstr option"
  rms_rest_tls_cert_path :: "rstr option"
  rms_rest_tls_key_path :: "rstr option"

record raw_database =
  rdc_url :: "rstr option"
  rdc_pool_max :: "u32 option"

record raw_syslog_tls =
  rsy_verify :: "bool option"
  rsy_ca_cert_path :: "rstr option"
  rsy_client_cert_path :: "rstr option"
  rsy_client_key_path :: "rstr option"

record raw_syslog_destination =
  rsd_host :: "rstr option"
  rsd_port :: "16 word option"
  rsd_protocol :: "rstr option"
  rsd_tls :: "raw_syslog_tls option"

record raw_syslog_filters =
  rsf_min_severity :: "rstr option"
  rsf_respect_per_rule_flag :: "bool option"
  rsf_include_event_types :: "rstr list option"
  rsf_exclude_event_types :: "rstr list option"

record raw_syslog_forwarder =
  rsw_enabled :: "bool option"
  rsw_destination :: "raw_syslog_destination option"
  rsw_filters :: "raw_syslog_filters option"

record raw_auth =
  rah_jwt_secret :: "rstr option"
  rah_access_token_ttl_secs :: "u64 option"
  rah_refresh_token_ttl_secs :: "u64 option"

record raw_auto_refresh =
  raf_enabled :: "bool option"
  raf_interval_secs :: "u32 option"
  raf_mode :: "rstr option"

record raw_session =
  rse_idle_timeout_secs :: "u32 option"
  rse_absolute_timeout_secs :: "u32 option"
  rse_warn_before_secs :: "u32 option"
  rse_extend_on_activity :: "bool option"

record raw_dashboard =
  rdh_auto_refresh :: "raw_auto_refresh option"
  rdh_session :: "raw_session option"

record raw_manager_config =
  rmc_server :: "raw_manager_server option"
  rmc_database :: "raw_database option"
  rmc_syslog_forwarder :: "raw_syslog_forwarder option"
  rmc_auth :: "raw_auth option"
  rmc_dashboard :: "raw_dashboard option"

subsection \<open>Deserialization\<close>

definition de_manager_server :: "raw_manager_server \<Rightarrow> yaml_error + manager_server_config" where
  "de_manager_server r =
     res_bind (required (rms_tls_cert_path r)) (\<lambda>tls_cert. res_bind (required (rms_tls_key_path r)) (\<lambda>tls_key.
     res_bind (required (rms_ca_cert_path r)) (\<lambda>ca_cert. res_bind (required (rms_ca_key_path r)) (\<lambda>ca_key.
     Inr \<lparr>ms_grpc_listen_addr = with_default default_grpc_addr (rms_grpc_listen_addr r),
       ms_rest_listen_addr = with_default default_rest_addr (rms_rest_listen_addr r),
       ms_tls_cert_path = tls_cert, ms_tls_key_path = tls_key, ms_ca_cert_path = ca_cert, ms_ca_key_path = ca_key,
       ms_public_grpc_endpoint = rms_public_grpc_endpoint r, ms_public_rest_base_url = rms_public_rest_base_url r,
       ms_agent_release_tag = rms_agent_release_tag r, ms_rest_tls_cert_path = rms_rest_tls_cert_path r,
       ms_rest_tls_key_path = rms_rest_tls_key_path r\<rparr>))))"

definition de_database :: "raw_database \<Rightarrow> yaml_error + database_config" where
  "de_database r = res_bind (required (rdc_url r)) (\<lambda>url.
     Inr \<lparr>dc_url = url, dc_pool_max = with_default default_pool_max (rdc_pool_max r)\<rparr>)"

definition de_syslog_tls :: "raw_syslog_tls \<Rightarrow> syslog_tls" where
  "de_syslog_tls r = \<lparr>sy_verify = with_default default_true (rsy_verify r), sy_ca_cert_path = rsy_ca_cert_path r,
     sy_client_cert_path = rsy_client_cert_path r, sy_client_key_path = rsy_client_key_path r\<rparr>"

definition de_syslog_destination :: "raw_syslog_destination \<Rightarrow> yaml_error + syslog_destination" where
  "de_syslog_destination r =
     res_bind (required (rsd_host r)) (\<lambda>host. res_bind (required (rsd_port r)) (\<lambda>port.
     Inr \<lparr>sd_host = host, sd_port = port, sd_protocol = with_default default_protocol (rsd_protocol r),
       sd_tls = map_option de_syslog_tls (rsd_tls r)\<rparr>))"

definition de_syslog_filters :: "raw_syslog_filters \<Rightarrow> syslog_filters" where
  "de_syslog_filters r =
     \<lparr>sf_min_severity = with_default default_min_severity (rsf_min_severity r),
      sf_respect_per_rule_flag = with_default default_true (rsf_respect_per_rule_flag r),
      sf_include_event_types = with_default [] (rsf_include_event_types r),
      sf_exclude_event_types = with_default [] (rsf_exclude_event_types r)\<rparr>"

definition de_syslog_forwarder :: "raw_syslog_forwarder \<Rightarrow> yaml_error + syslog_forwarder_config" where
  "de_syslog_forwarder r =
     res_bind (case rsw_destination r of None \<Rightarrow> Inr None
               | Some d \<Rightarrow> res_bind (de_syslog_destination d) (\<lambda>d. Inr (Some d))) (\<lambda>destination.
     Inr \<lparr>sw_enabled = with_default False (rsw_enabled r), sw_destination = destination,
       sw_filters = with_default syslog_filters_default (map_option de_syslog_filters (rsw_filters r))\<rparr>)"

definition de_auth :: "raw_auth \<Rightarrow> yaml_error + auth_config" where
  "de_auth r = res_bind (required (rah_jwt_secret r)) (\<lambda>jwt_secret.
     Inr \<lparr>ah_jwt_secret = jwt_secret,
       ah_access_token_ttl_secs = with_default default_access_token_ttl_secs (rah_access_token_ttl_secs r),
       ah_refresh_token_ttl_secs = with_default default_refresh_token_ttl_secs (rah_refresh_token_ttl_secs r)\<rparr>)"

definition de_auto_refresh :: "raw_auto_refresh \<Rightarrow> auto_refresh_config" where
  "de_auto_refresh r = \<lparr>af_enabled = with_default default_true (raf_enabled r),
     af_interval_secs = with_default default_refresh_interval_secs (raf_interval_secs r),
     af_mode = with_default default_refresh_mode (raf_mode r)\<rparr>"

definition de_session :: "raw_session \<Rightarrow> session_config" where
  "de_session r =
     \<lparr>se_idle_timeout_secs = with_default default_idle_timeout_secs (rse_idle_timeout_secs r),
      se_absolute_timeout_secs = with_default default_absolute_timeout_secs (rse_absolute_timeout_secs r),
      se_warn_before_secs = with_default default_warn_before_secs (rse_warn_before_secs r),
      se_extend_on_activity = with_default False (rse_extend_on_activity r)\<rparr>"

definition de_dashboard :: "raw_dashboard \<Rightarrow> dashboard_config" where
  "de_dashboard r =
     \<lparr>dh_auto_refresh = with_default auto_refresh_default (map_option de_auto_refresh (rdh_auto_refresh r)),
      dh_session = with_default session_default (map_option de_session (rdh_session r))\<rparr>"

definition de_manager_config :: "raw_manager_config \<Rightarrow> yaml_error + manager_config" where
  "de_manager_config r =
     res_bind (required (rmc_server r)) (\<lambda>s. res_bind (de_manager_server s) (\<lambda>server.
     res_bind (required (rmc_database r)) (\<lambda>d. res_bind (de_database d) (\<lambda>database.
     res_bind (case rmc_syslog_forwarder r of None \<Rightarrow> Inr syslog_forwarder_default
               | Some f \<Rightarrow> de_syslog_forwarder f) (\<lambda>syslog_forwarder.
     res_bind (required (rmc_auth r)) (\<lambda>a. res_bind (de_auth a) (\<lambda>auth.
     Inr \<lparr>mc_server = server, mc_database = database, mc_syslog_forwarder = syslog_forwarder, mc_auth = auth,
       mc_dashboard = with_default dashboard_default (map_option de_dashboard (rmc_dashboard r))\<rparr>)))))))"

text \<open>\<open>str::len\<close> counts bytes.\<close>

definition manager_config_validate :: "manager_config \<Rightarrow> config_error + unit" where
  "manager_config_validate c =
     (if blen (ah_jwt_secret (mc_auth c)) < 32
      then Inl (InvalidValue (lit ''auth.jwt_secret'') (lit ''must be at least 32 characters''))
      else if dc_url (mc_database c) = [] then Inl (MissingField (lit ''database.url''))
      else Inr ())"

definition manager_config_load ::
  "(rstr \<Rightarrow> rstr + raw_manager_config) \<Rightarrow> rstr option \<Rightarrow> rstr \<Rightarrow> rstr files \<Rightarrow> config_error + manager_config" where
  "manager_config_load parse rd path fs =
     res_bind (read_config parse de_manager_config rd path fs) (\<lambda>config.
     res_bind (manager_config_validate config) (\<lambda>_. Inr config))"

section \<open>What the loaders guarantee\<close>

lemma read_config_Inr [rust_res]:
  "read_config parse de rd path fs = Inr c \<longleftrightarrow>
     (\<exists>text raw. rd = None \<and> fs path = Some text \<and> parse text = Inr raw \<and> de raw = Inr c)"
  by (auto simp: read_config_def fs_read_def map_err_def ok_or_def res_bind_Inr_iff split: option.splits sum.splits)

lemma agent_config_validate_ok [rust_res]:
  "agent_config_validate c = Inr () \<longleftrightarrow> am_endpoint (ac_manager c) \<noteq> [] \<and> 58 \<in> set (am_endpoint (ac_manager c))
     \<and> ar_data_dir (ac_agent c) \<noteq> []"
  by (auto simp: agent_config_validate_def)

lemma manager_config_validate_ok [rust_res]:
  "manager_config_validate c = Inr () \<longleftrightarrow> 32 \<le> blen (ah_jwt_secret (mc_auth c)) \<and> dc_url (mc_database c) \<noteq> []"
  by (auto simp: manager_config_validate_def)

lemma de_agent_config_Inr [rust_res]:
  "de_agent_config r = Inr c \<longleftrightarrow> (\<exists>m a e p dir. rac_manager r = Some m \<and> rac_agent r = Some a \<and>
     ram_endpoint m = Some e \<and> ram_ca_cert_path m = Some p \<and> rar_data_dir a = Some dir \<and>
     c = \<lparr>ac_manager = \<lparr>am_endpoint = e, am_enrollment_token = ram_enrollment_token m,
            am_verify_tls = with_default True (ram_verify_tls m), am_ca_cert_path = p\<rparr>,
          ac_agent = \<lparr>ar_data_dir = dir, ar_log_level = with_default (lit ''info'') (rar_log_level a),
            ar_heartbeat_interval_secs = with_default 30 (rar_heartbeat_interval_secs a),
            ar_watch_paths = with_default [] (rar_watch_paths a)\<rparr>\<rparr>)"
  by (auto simp: de_agent_config_def de_agent_manager_def de_agent_runtime_def res_bind_Inr_iff required_Inr
      default_true_def default_log_level_def default_heartbeat_interval_secs_def)

text \<open>The agent's configuration loads exactly when the file can be read and parsed, the three required fields
  are there, the endpoint has a colon and the data directory is not empty; what it loads is what the
  document says, with the documented value where it says nothing.\<close>

theorem agent_config_load_iff:
  "agent_config_load parse rd path fs = Inr c \<longleftrightarrow>
     (\<exists>text r m a e p dir. rd = None \<and> fs path = Some text \<and> parse text = Inr r \<and>
        rac_manager r = Some m \<and> rac_agent r = Some a \<and> ram_endpoint m = Some e \<and> 58 \<in> set e \<and>
        ram_ca_cert_path m = Some p \<and> rar_data_dir a = Some dir \<and> dir \<noteq> [] \<and>
        c = \<lparr>ac_manager = \<lparr>am_endpoint = e, am_enrollment_token = ram_enrollment_token m,
               am_verify_tls = with_default True (ram_verify_tls m), am_ca_cert_path = p\<rparr>,
             ac_agent = \<lparr>ar_data_dir = dir, ar_log_level = with_default (lit ''info'') (rar_log_level a),
               ar_heartbeat_interval_secs = with_default 30 (rar_heartbeat_interval_secs a),
               ar_watch_paths = with_default [] (rar_watch_paths a)\<rparr>\<rparr>)"
  by (auto simp: agent_config_load_def res_bind_Inr_iff read_config_Inr de_agent_config_Inr agent_config_validate_ok)

text \<open>The sections of the manager's document: a section that is absent and one that is empty give the same
  configuration, so the \<open>Default\<close> implementations and the defaults of the fields agree.\<close>

definition empty_filters :: raw_syslog_filters where
  "empty_filters = \<lparr>rsf_min_severity = None, rsf_respect_per_rule_flag = None,
     rsf_include_event_types = None, rsf_exclude_event_types = None\<rparr>"

definition empty_forwarder :: raw_syslog_forwarder where
  "empty_forwarder = \<lparr>rsw_enabled = None, rsw_destination = None, rsw_filters = None\<rparr>"

definition empty_refresh :: raw_auto_refresh where
  "empty_refresh = \<lparr>raf_enabled = None, raf_interval_secs = None, raf_mode = None\<rparr>"

definition empty_session :: raw_session where
  "empty_session = \<lparr>rse_idle_timeout_secs = None, rse_absolute_timeout_secs = None, rse_warn_before_secs = None,
     rse_extend_on_activity = None\<rparr>"

definition empty_dashboard :: raw_dashboard where
  "empty_dashboard = \<lparr>rdh_auto_refresh = None, rdh_session = None\<rparr>"

lemma de_empty_sections [simp]:
  "de_syslog_filters empty_filters = syslog_filters_default"
  "de_auto_refresh empty_refresh = auto_refresh_default"
  "de_session empty_session = session_default"
  "de_dashboard empty_dashboard = dashboard_default"
  "de_syslog_forwarder empty_forwarder = Inr syslog_forwarder_default"
  by (simp_all add: de_syslog_filters_def empty_filters_def syslog_filters_default_def default_true_def
      de_auto_refresh_def empty_refresh_def auto_refresh_default_def de_session_def empty_session_def
      session_default_def de_dashboard_def empty_dashboard_def dashboard_default_def de_syslog_forwarder_def
      empty_forwarder_def syslog_forwarder_default_def)

text \<open>A document with every optional section filled in by an empty one.\<close>

definition fill_dashboard :: "raw_dashboard \<Rightarrow> raw_dashboard" where
  "fill_dashboard r = \<lparr>rdh_auto_refresh = Some (with_default empty_refresh (rdh_auto_refresh r)),
     rdh_session = Some (with_default empty_session (rdh_session r))\<rparr>"

definition fill_forwarder :: "raw_syslog_forwarder \<Rightarrow> raw_syslog_forwarder" where
  "fill_forwarder r = r\<lparr>rsw_filters := Some (with_default empty_filters (rsw_filters r))\<rparr>"

definition fill_sections :: "raw_manager_config \<Rightarrow> raw_manager_config" where
  "fill_sections r = r\<lparr>
     rmc_syslog_forwarder := Some (fill_forwarder (with_default empty_forwarder (rmc_syslog_forwarder r))),
     rmc_dashboard := Some (fill_dashboard (with_default empty_dashboard (rmc_dashboard r)))\<rparr>"

lemma de_fill_dashboard: "de_dashboard (fill_dashboard r) = de_dashboard r"
  by (cases "rdh_auto_refresh r"; cases "rdh_session r") (simp_all add: de_dashboard_def fill_dashboard_def)

lemma de_fill_forwarder: "de_syslog_forwarder (fill_forwarder r) = de_syslog_forwarder r"
  by (cases "rsw_filters r") (simp_all add: de_syslog_forwarder_def fill_forwarder_def)

text \<open>A section of the manager's document that is left out counts as an empty one, at every level, so the
  \<open>Default\<close> implementations agree with the defaults of the single fields.\<close>

theorem absent_section_is_empty:
  "de_manager_config (fill_sections r) = de_manager_config r"
  by (cases "rmc_syslog_forwarder r"; cases "rmc_dashboard r")
    (simp_all add: de_manager_config_def fill_sections_def de_fill_dashboard de_fill_forwarder)

end
