(* ===== verification/Platform.thy ===== *)
theory Platform
  imports Monitors
begin

text \<open>
  The platform layer of the agent: the trait \<open>PlatformAgent\<close> of \<open>scrooge-agent-core/src/platform.rs\<close> as the record
  of its methods on a state \<open>'p\<close>, and its three implementations, \<open>scrooge-agent-linux/src/lib.rs\<close> (whose
  operations are in \<open>Monitors\<close>), \<open>scrooge-agent-macos/src/lib.rs\<close> and \<open>scrooge-agent-windows/src/lib.rs\<close>.
  The interface \<open>platform\<close> states what the main program relies on: what it starts is what is shut down.
\<close>

datatype platform_error =
    PlatformIo rstr | NotSupported rstr | NotImplemented rstr | PermissionDenied rstr | ChannelClosed | OtherError rstr

datatype response_action =
    LogOnly | Quarantine rstr | KillProcess u32 | LockWorkstation | NotifyUser rstr rstr | ClearClipboard

text \<open>The answer of \<open>shutdown\<close> is the tasks it aborts.\<close>

record 'p platform_agent =
  pg_new :: "registry \<Rightarrow> rstr list \<Rightarrow> 'p"
  pg_init :: "'p \<Rightarrow> platform_error + unit"
  pg_start_filemon :: "'p \<Rightarrow> (platform_error + unit) \<times> 'p"
  pg_start_devctl :: "'p \<Rightarrow> (platform_error + unit) \<times> 'p"
  pg_start_clipscreen :: "'p \<Rightarrow> (platform_error + unit) \<times> 'p"
  pg_start_netinsp :: "'p \<Rightarrow> (platform_error + unit) \<times> 'p"
  pg_execute_action :: "response_action \<Rightarrow> 'p \<Rightarrow> platform_error + unit"
  pg_shutdown :: "'p \<Rightarrow> monitor_task list \<times> 'p"

definition linux_platform :: "linux_agent platform_agent" where
  "linux_platform = \<lparr>pg_new = linux_agent_new, pg_init = \<lambda>_. Inr (), pg_start_filemon = \<lambda>a. (Inr (), start_filemon a),
     pg_start_devctl = \<lambda>a. (Inr (), a), pg_start_clipscreen = \<lambda>a. (Inr (), start_clipscreen a),
     pg_start_netinsp = \<lambda>a. (Inr (), a), pg_execute_action = \<lambda>_ _. Inr (), pg_shutdown = linux_shutdown\<rparr>"

datatype macos_agent = MacosAgent

definition macos_platform :: "macos_agent platform_agent" where
  "macos_platform = \<lparr>pg_new = \<lambda>_ _. MacosAgent, pg_init = \<lambda>_. Inr (), pg_start_filemon = \<lambda>a. (Inr (), a),
     pg_start_devctl = \<lambda>a. (Inr (), a), pg_start_clipscreen = \<lambda>a. (Inr (), a), pg_start_netinsp = \<lambda>a. (Inr (), a),
     pg_execute_action = \<lambda>_ _. Inr (), pg_shutdown = \<lambda>a. ([], a)\<rparr>"

datatype windows_agent = WindowsAgent

definition not_implemented :: "string \<Rightarrow> platform_error + unit" where
  "not_implemented what = Inl (NotImplemented (lit what))"

definition windows_platform :: "windows_agent platform_agent" where
  "windows_platform = \<lparr>pg_new = \<lambda>_ _. WindowsAgent,
     pg_init = \<lambda>_. not_implemented ''WindowsAgent (planowane: Milestone 8+)'',
     pg_start_filemon = \<lambda>a. (not_implemented ''mod_filemon (Windows)'', a),
     pg_start_devctl = \<lambda>a. (not_implemented ''mod_devctl (Windows)'', a),
     pg_start_clipscreen = \<lambda>a. (not_implemented ''mod_clipscreen (Windows)'', a),
     pg_start_netinsp = \<lambda>a. (not_implemented ''mod_netinsp (Windows)'', a),
     pg_execute_action = \<lambda>_ _. not_implemented ''mod_response (Windows)'', pg_shutdown = \<lambda>a. ([], a)\<rparr>"

section \<open>The contract\<close>

text \<open>The two modules the main program starts, one after the other, stopping at the first error.\<close>

definition start_modules :: "'p platform_agent \<Rightarrow> 'p \<Rightarrow> (platform_error + unit) \<times> 'p" where
  "start_modules ops a =
     (case pg_start_clipscreen ops a of
        (Inl e, a) \<Rightarrow> (Inl e, a)
      | (Inr _, a) \<Rightarrow> pg_start_filemon ops a)"

locale platform =
  fixes ops :: "'p platform_agent" and running :: "'p \<Rightarrow> monitor_task list"
  assumes new_idle: "running (pg_new ops r paths) = []"
    and clip_starts: "pg_start_clipscreen ops a = (x, b) \<Longrightarrow>
      running b = running a \<or> \<not> isl x \<and> running b = running a @ [ClipboardTask]"
    and file_starts: "pg_start_filemon ops a = (y, b) \<Longrightarrow>
      running b = running a \<or> \<not> isl y \<and> (\<exists>ps. running b = running a @ [FilemonTask ps])"
    and shutdown_stops: "pg_shutdown ops a = (ts, b) \<Longrightarrow> ts = running a \<and> running b = []"
begin

lemma started_tasks:
  assumes "start_modules ops (pg_new ops r paths) = (x, a)"
  shows "distinct (running a) \<and> length (running a) \<le> 2"
proof -
  obtain y b where c: "pg_start_clipscreen ops (pg_new ops r paths) = (y, b)" by fastforce
  have b: "running b = [] \<or> running b = [ClipboardTask]" using clip_starts [OF c] by (auto simp: new_idle)
  show ?thesis
  proof (cases y)
    case (Inl e) with assms c b show ?thesis by (auto simp: start_modules_def)
  next
    case (Inr u)
    with assms c have "pg_start_filemon ops b = (x, a)" by (simp add: start_modules_def)
    from file_starts [OF this] b show ?thesis by auto
  qed
qed

lemma shutdown_leaves_none: "running (snd (pg_shutdown ops a)) = [] \<and> fst (pg_shutdown ops a) = running a"
  using shutdown_stops [of a] by (cases "pg_shutdown ops a") auto

end

interpretation linux: platform linux_platform la_tasks
  by unfold_locales
    (auto simp: linux_platform_def linux_agent_new_def start_clipscreen_def start_filemon_def register_task_def
      linux_shutdown_def split: if_splits)

interpretation macos: platform macos_platform "\<lambda>_. []"
  by unfold_locales (auto simp: macos_platform_def)

interpretation windows: platform windows_platform "\<lambda>_. []"
  by unfold_locales (auto simp: windows_platform_def)

text \<open>On Linux the agent runs the clipboard monitor, and the file monitor when it has paths to watch; shutting
  down aborts exactly these.\<close>

lemma linux_session:
  assumes "start_modules linux_platform (pg_new linux_platform r paths) = (x, a)"
  shows "x = Inr () \<and> fst (pg_shutdown linux_platform a) =
    [ClipboardTask] @ (if paths = [] then [] else [FilemonTask paths]) \<and> la_tasks (snd (pg_shutdown linux_platform a)) = []"
  using assms linux.shutdown_leaves_none [of a]
  by (auto simp: start_modules_def linux_platform_def linux_agent_new_def start_clipscreen_def start_filemon_def
      register_task_def linux_shutdown_def split: if_splits)

end
