(* ===== verification/Agent_Start.thy ===== *)
theory Agent_Start
  imports Ca Config Platform Agent_Stream Enrollment
begin

text \<open>
  The start of the agent, \<open>scrooge-agent-bin/src/main.rs\<close> and \<open>enroll.rs\<close> with
  \<open>scrooge-agent-core/src/system.rs\<close>: configuration, the local queue, the monitors, and the identity, loaded
  from disk or obtained by enrolling with the manager. The call to the manager is a function on the
  manager's state \<open>'s\<close>; \<open>manager_rpc\<close> is the handler of \<open>Enrollment\<close>, so that agent and manager compose.
  TLS connections, UUIDs, the clock and the facts of the host are parameters.
\<close>

section \<open>Enrolling\<close>

record system_info =
  si_hostname :: rstr
  si_os :: rstr
  si_os_version :: rstr
  si_arch :: rstr
  si_agent_version :: rstr

text \<open>The host: its name or the error of reading it, and the constants and probes of the platform.\<close>

record host =
  ho_hostname :: "rstr + rstr"
  ho_os :: rstr
  ho_arch :: rstr
  ho_os_type :: rstr
  ho_os_release :: rstr

definition collect_system_info :: "host \<Rightarrow> rstr \<Rightarrow> rstr + system_info" where
  "collect_system_info h agent_version =
     res_bind (ho_hostname h) (\<lambda>hostname.
     Inr \<lparr>si_hostname = hostname, si_os = ho_os h, si_os_version = ho_os_type h @ lit '' '' @ ho_os_release h,
       si_arch = ho_arch h, si_agent_version = agent_version\<rparr>)"

record enrollment_params =
  ep_endpoint :: rstr
  ep_ca_cert_path :: rstr
  ep_enrollment_token :: rstr

record enroll_tls =
  el_ca :: "u8 list"
  el_domain :: rstr
  el_uri :: rstr

datatype 'e enroll_error =
    EReadCa rstr | EConnect rstr | ECsr ca_error | ERpc 'e | EAgentId | ECertUtf8

record ('k, 'c) client_env =
  cv_rg :: "('k, 'c) rcgen"
  cv_new_key :: "rstr + 'k"
  cv_connect :: "enroll_tls \<Rightarrow> rstr + unit"
  cv_parse_uuid :: "rstr \<Rightarrow> uuid option"
  cv_show_uuid :: "uuid \<Rightarrow> rstr"

type_synonym ('e, 's) enroll_rpc = "enroll_request \<Rightarrow> 's \<Rightarrow> ('e + enroll_response) \<times> 's"

definition enroll_message :: "rstr \<Rightarrow> system_info \<Rightarrow> rstr \<Rightarrow> enroll_request" where
  "enroll_message token info csr_pem =
     \<lparr>eq_enrollment_token = token,
      eq_info = Some \<lparr>ai_hostname = si_hostname info, ai_os = si_os info, ai_os_version = si_os_version info,
        ai_arch = si_arch info, ai_agent_version = si_agent_version info, ai_initial_tags = []\<rparr>,
      eq_csr_pem = as_bytes csr_pem\<rparr>"

definition agent_enroll ::
  "('k, 'c) client_env \<Rightarrow> ('e, 's) enroll_rpc \<Rightarrow> rstr option \<Rightarrow> rstr files \<Rightarrow> enrollment_params \<Rightarrow> system_info \<Rightarrow> 's \<Rightarrow>
   ('e enroll_error + agent_state) \<times> 's" where
  "agent_enroll env rpc rd fs params info s =
     (case fs_read rd (ep_ca_cert_path params) (file_bytes fs) of
        Inl e \<Rightarrow> (Inl (EReadCa e), s)
      | Inr ca_pem \<Rightarrow>
     (case cv_connect env \<lparr>el_ca = ca_pem, el_domain = endpoint_host (ep_endpoint params),
          el_uri = lit ''https://'' @ ep_endpoint params\<rparr> of
        Inl e \<Rightarrow> (Inl (EConnect e), s)
      | Inr _ \<Rightarrow>
     (case generate_agent_csr (cv_rg env) (cv_new_key env) (si_hostname info) of
        Inl e \<Rightarrow> (Inl (ECsr e), s)
      | Inr (csr_pem, key_pem) \<Rightarrow>
     (case rpc (enroll_message (ep_enrollment_token params) info csr_pem) s of
        (Inl e, s) \<Rightarrow> (Inl (ERpc e), s)
      | (Inr resp, s) \<Rightarrow>
     (case cv_parse_uuid env (es_agent_id resp) of
        None \<Rightarrow> (Inl EAgentId, s)
      | Some agent_id \<Rightarrow>
     (case from_utf8 (es_cert_pem resp) of
        None \<Rightarrow> (Inl ECertUtf8, s)
      | Some cert_pem \<Rightarrow>
          (Inr \<lparr>as_agent_id = agent_id, as_cert_pem = cert_pem, as_key_pem = key_pem\<rparr>, s)))))))"

section \<open>The identity of a start\<close>

datatype 'e start_error =
    SConfig config_error | SMkdir rstr | SQueue queue_error | SInfo rstr | SState state_error | SNoToken
  | SEnroll "'e enroll_error" | SPlatform platform_error

text \<open>The outcomes of the file operations of a start.\<close>

record start_files =
  sv_config :: "rstr option"
  sv_mkdir :: "rstr option"
  sv_queue :: "rstr option"
  sv_read :: "rstr \<Rightarrow> rstr option"
  sv_ca :: "rstr option"
  sv_save :: save_outcome

definition load_or_enroll ::
  "('k, 'c) client_env \<Rightarrow> ('e, 's) enroll_rpc \<Rightarrow> start_files \<Rightarrow> agent_config \<Rightarrow> system_info \<Rightarrow> rstr files \<Rightarrow> 's \<Rightarrow>
   ('e start_error + agent_state) \<times> rstr files \<times> 's" where
  "load_or_enroll env rpc sv config info fs s =
     (let data_dir = ar_data_dir (ac_agent config)
      in case state_load (cv_parse_uuid env) (sv_read sv) data_dir fs of
           Inl e \<Rightarrow> (Inl (SState e), fs, s)
         | Inr (Some existing) \<Rightarrow> (Inr existing, fs, s)
         | Inr None \<Rightarrow>
             (case am_enrollment_token (ac_manager config) of
                None \<Rightarrow> (Inl SNoToken, fs, s)
              | Some token \<Rightarrow>
                  (case agent_enroll env rpc (sv_ca sv) fs \<lparr>ep_endpoint = am_endpoint (ac_manager config),
                       ep_ca_cert_path = am_ca_cert_path (ac_manager config), ep_enrollment_token = token\<rparr> info s of
                     (Inl e, s) \<Rightarrow> (Inl (SEnroll e), fs, s)
                   | (Inr fresh, s) \<Rightarrow>
                       (case state_save (cv_show_uuid env) (sv_save sv) fresh data_dir fs of
                          (Inl e, fs) \<Rightarrow> (Inl (SState e), fs, s)
                        | (Inr _, fs) \<Rightarrow> (Inr fresh, fs, s)))))"

section \<open>Main\<close>

record agent_args =
  aa_config :: rstr
  aa_enrollment_token :: "rstr option"
  aa_emit_test_event :: "u32 option"

record stream_config =
  sc_endpoint :: rstr
  sc_ca_cert_path :: rstr
  sc_cert_path :: rstr
  sc_key_path :: rstr
  sc_policies_dir :: rstr
  sc_agent_id :: uuid
  sc_heartbeat_secs :: u64

definition stream_config_of :: "agent_config \<Rightarrow> agent_state \<Rightarrow> stream_config" where
  "stream_config_of config state =
     (let data_dir = ar_data_dir (ac_agent config)
      in \<lparr>sc_endpoint = am_endpoint (ac_manager config), sc_ca_cert_path = am_ca_cert_path (ac_manager config),
          sc_cert_path = path_join data_dir (lit ''agent.cert''), sc_key_path = path_join data_dir (lit ''agent.key''),
          sc_policies_dir = path_join data_dir (lit ''policies''), sc_agent_id = as_agent_id state,
          sc_heartbeat_secs = ucast (ar_heartbeat_interval_secs (ac_agent config))\<rparr>)"

text \<open>The artificial events of \<open>--emit-test-event\<close>; an UUID and a time for each.\<close>

definition build_test_event :: "rstr \<Rightarrow> int \<Rightarrow> nat \<Rightarrow> event" where
  "build_test_event uuid now idx =
     \<lparr>ev_event_id = uuid, ev_timestamp_ns = now, ev_agent_id = [], ev_type = 30, ev_severity = 2, ev_direction = 0,
      ev_user_name = lit ''test-user-'' @ show_nat idx, ev_process_id = 0,
      ev_process_name = lit ''scrooge-agent --emit-test-event'',
      ev_details = Some (DClipboard \<lparr>ce_content_size = 16, ce_content_preview = lit ''**** **** **** 0366'',
        ce_content_hash = [], ce_mime_type = lit ''text/plain'', ce_source_process_name = [], ce_was_cleared = False\<rparr>),
      ev_matched_policy_id = [], ev_matched_rule_id = [], ev_action_taken = 0,
      ev_matches = [\<lparr>pm_classifier_id = lit ''credit_card'', pm_match_count = 1,
        pm_sample_excerpt = lit ''**** **** **** 0366''\<rparr>],
      ev_forward_to_siem = False\<rparr>"

record test_events =
  te_encode :: "event \<Rightarrow> u8 list"
  te_uuid :: "nat \<Rightarrow> rstr"
  te_now :: "nat \<Rightarrow> int"
  te_outcome :: "nat \<Rightarrow> rstr option"

fun emit_test_events :: "test_events \<Rightarrow> nat list \<Rightarrow> event_queue \<Rightarrow> (queue_error + unit) \<times> event_queue" where
  "emit_test_events te [] q = (Inr (), q)"
| "emit_test_events te (i # is) q =
     (case enqueue (te_encode te) (te_outcome te i) (te_now te i) (build_test_event (te_uuid te i) (te_now te i) i) q of
        (Inl e, q) \<Rightarrow> (Inl e, q)
      | (Inr _, q) \<Rightarrow> emit_test_events te is q)"

text \<open>Where \<open>main\<close> gets to: the events are emitted, or the stream is opened with the monitors running.\<close>

datatype 'p started = EmittedTestEvents | Streaming stream_config 'p

definition agent_main ::
  "('k, 'c) client_env \<Rightarrow> ('e, 's) enroll_rpc \<Rightarrow> start_files \<Rightarrow> test_events \<Rightarrow> (rstr \<Rightarrow> rstr + raw_agent_config) \<Rightarrow>
   'p platform_agent \<Rightarrow> registry \<Rightarrow> host \<Rightarrow> rstr \<Rightarrow> agent_args \<Rightarrow> rstr files \<Rightarrow> event_queue option \<Rightarrow> 's \<Rightarrow>
   ('e start_error + 'p started) \<times> rstr files \<times> event_queue option \<times> 's" where
  "agent_main env rpc sv te parse ops classifiers host version args fs db s =
     (case agent_config_load parse (sv_config sv) (aa_config args) fs of
        Inl e \<Rightarrow> (Inl (SConfig e), fs, db, s)
      | Inr config \<Rightarrow>
     (let config = (case aa_enrollment_token args of None \<Rightarrow> config
            | Some tok \<Rightarrow> config\<lparr>ac_manager := (ac_manager config)\<lparr>am_enrollment_token := Some tok\<rparr>\<rparr>)
      in case sv_mkdir sv of Some e \<Rightarrow> (Inl (SMkdir e), fs, db, s) | None \<Rightarrow>
     (case aa_emit_test_event args of
        Some count \<Rightarrow>
          (case queue_open (sv_queue sv) db of
             Inl e \<Rightarrow> (Inl (SQueue e), fs, db, s)
           | Inr q \<Rightarrow>
               (case emit_test_events te [0..<unat count] q of
                  (Inl e, q) \<Rightarrow> (Inl (SQueue e), fs, Some q, s)
                | (Inr _, q) \<Rightarrow> (Inr EmittedTestEvents, fs, Some q, s)))
      | None \<Rightarrow>
     (let platform = pg_new ops classifiers (ar_watch_paths (ac_agent config))
      in case pg_init ops platform of
        Inl e \<Rightarrow> (Inl (SPlatform e), fs, db, s)
      | Inr _ \<Rightarrow>
     (case queue_open (sv_queue sv) db of
        Inl e \<Rightarrow> (Inl (SQueue e), fs, db, s)
      | Inr q \<Rightarrow>
     (case start_modules ops platform of
        (Inl e, platform) \<Rightarrow> (Inl (SPlatform e), fs, Some q, s)
      | (Inr _, platform) \<Rightarrow>
     (case collect_system_info host version of
        Inl e \<Rightarrow> (Inl (SInfo e), fs, Some q, s)
      | Inr info \<Rightarrow>
     (case load_or_enroll env rpc sv config info fs s of
        (Inl e, fs, s) \<Rightarrow> (Inl e, fs, Some q, s)
      | (Inr state, fs, s) \<Rightarrow>
          (Inr (Streaming (stream_config_of config state) platform), fs, Some q, s)))))))))"

text \<open>An agent that gets to its stream has a valid configuration, and on Linux its monitors run. On Windows it
  never gets there.\<close>

lemma agent_main_streams:
  assumes "agent_main env rpc sv te parse ops cl host version args fs db s = (Inr (Streaming sc p), fs', db', s')"
  shows "\<exists>c c' st info. agent_config_load parse (sv_config sv) (aa_config args) fs = Inr c \<and>
    ac_agent c' = ac_agent c \<and> am_endpoint (ac_manager c') = am_endpoint (ac_manager c) \<and>
    load_or_enroll env rpc sv c' info fs s = (Inr st, fs', s') \<and> sc = stream_config_of c' st \<and>
    pg_init ops (pg_new ops cl (ar_watch_paths (ac_agent c))) = Inr () \<and>
    start_modules ops (pg_new ops cl (ar_watch_paths (ac_agent c))) = (Inr (), p)"
proof -
  obtain c where c: "agent_config_load parse (sv_config sv) (aa_config args) fs = Inr c"
    using assms by (auto simp: agent_main_def split: sum.splits)
  define c' where "c' = (case aa_enrollment_token args of None \<Rightarrow> c
            | Some tok \<Rightarrow> c\<lparr>ac_manager := (ac_manager c)\<lparr>am_enrollment_token := Some tok\<rparr>\<rparr>)"
  have k: "ac_agent c' = ac_agent c" "am_endpoint (ac_manager c') = am_endpoint (ac_manager c)"
    by (simp_all add: c'_def split: option.splits)
  have e: "aa_emit_test_event args = None" "sv_mkdir sv = None"
    using assms c by (auto simp: agent_main_def Let_def split: option.splits sum.splits prod.splits)
  let ?p = "pg_new ops cl (ar_watch_paths (ac_agent c))"
  obtain u where i: "pg_init ops ?p = Inr u"
    using assms c k e by (cases "pg_init ops ?p") (auto simp: agent_main_def Let_def c'_def [symmetric])
  obtain q where q: "queue_open (sv_queue sv) db = Inr q"
    using assms c k e i by (cases "queue_open (sv_queue sv) db") (auto simp: agent_main_def Let_def c'_def [symmetric])
  obtain x p1 where m: "start_modules ops ?p = (x, p1)" by fastforce
  have x: "x = Inr ()" using assms c k e i q m by (cases x) (auto simp: agent_main_def Let_def c'_def [symmetric])
  obtain info where f: "collect_system_info host version = Inr info"
    using assms c k e i q m x
    by (cases "collect_system_info host version") (auto simp: agent_main_def Let_def c'_def [symmetric])
  obtain y fs1 s1 where l: "load_or_enroll env rpc sv c' info fs s = (y, fs1, s1)" by (metis prod_cases3)
  have "\<exists>st. y = Inr st \<and> fs1 = fs' \<and> s1 = s' \<and> sc = stream_config_of c' st \<and> p1 = p"
    using assms c k e i q m x f l by (cases y) (auto simp: agent_main_def Let_def c'_def [symmetric])
  then show ?thesis using c k i m x l by auto
qed

lemma windows_agent_never_streams:
  "agent_main env rpc sv te parse windows_platform cl host version args fs db s \<noteq> (Inr (Streaming sc p), fs', db', s')"
  using agent_main_streams [of env rpc sv te parse windows_platform]
  by (auto simp: windows_platform_def not_implemented_def)

section \<open>From the first start to an accepted stream\<close>

lemma agent_enroll_Inr:
  assumes "agent_enroll env rpc rd fs params info s = (Inr st, s')"
  obtains csr_pem key resp where "rd = None" "fs (ep_ca_cert_path params) \<noteq> None" "cv_new_key env = Inr key"
    "as_key_pem st = rg_key_pem (cv_rg env) key"
    "rpc (enroll_message (ep_enrollment_token params) info csr_pem) s = (Inr resp, s')"
    "cv_parse_uuid env (es_agent_id resp) = Some (as_agent_id st)" "from_utf8 (es_cert_pem resp) = Some (as_cert_pem st)"
proof -
  obtain ca where ca: "fs_read rd (ep_ca_cert_path params) (file_bytes fs) = Inr ca"
    using assms by (auto simp: agent_enroll_def split: sum.splits)
  obtain u where c: "cv_connect env \<lparr>el_ca = ca, el_domain = endpoint_host (ep_endpoint params),
      el_uri = lit ''https://'' @ ep_endpoint params\<rparr> = Inr u"
    using assms ca by (auto simp: agent_enroll_def split: sum.splits)
  obtain csr_pem key_pem where g: "generate_agent_csr (cv_rg env) (cv_new_key env) (si_hostname info) = Inr (csr_pem, key_pem)"
    using assms ca c by (auto simp: agent_enroll_def split: sum.splits)
  obtain r s1 where r: "rpc (enroll_message (ep_enrollment_token params) info csr_pem) s = (r, s1)" by fastforce
  obtain resp where resp: "r = Inr resp" using assms ca c g r by (cases r) (auto simp: agent_enroll_def)
  obtain key where key: "cv_new_key env = Inr key" "key_pem = rg_key_pem (cv_rg env) key"
    using g by (auto simp: generate_agent_csr_def res_bind_Inr_iff rcgen_err_Inr Let_def)
  have "s1 = s'" "cv_parse_uuid env (es_agent_id resp) = Some (as_agent_id st)"
    "from_utf8 (es_cert_pem resp) = Some (as_cert_pem st)" "as_key_pem st = key_pem"
    using assms ca c g r resp by (auto simp: agent_enroll_def split: option.splits)
  with that [of key csr_pem resp] r resp key ca show thesis
    by (auto simp: fs_read_def file_bytes_def ok_or_def split: option.splits)
qed

lemma load_or_enroll_Inr:
  assumes "load_or_enroll env rpc sv config info fs s = (Inr st, fs', s')"
    and "state_load (cv_parse_uuid env) (sv_read sv) (ar_data_dir (ac_agent config)) fs = Inr None"
  obtains token where "am_enrollment_token (ac_manager config) = Some token"
    "agent_enroll env rpc (sv_ca sv) fs \<lparr>ep_endpoint = am_endpoint (ac_manager config),
       ep_ca_cert_path = am_ca_cert_path (ac_manager config), ep_enrollment_token = token\<rparr> info s = (Inr st, s')"
    "state_save (cv_show_uuid env) (sv_save sv) st (ar_data_dir (ac_agent config)) fs = (Inr (), fs')"
proof -
  obtain token where t: "am_enrollment_token (ac_manager config) = Some token"
    using assms by (auto simp: load_or_enroll_def Let_def split: option.splits)
  let ?p = "\<lparr>ep_endpoint = am_endpoint (ac_manager config), ep_ca_cert_path = am_ca_cert_path (ac_manager config),
    ep_enrollment_token = token\<rparr>"
  obtain r s1 where e: "agent_enroll env rpc (sv_ca sv) fs ?p info s = (r, s1)" by fastforce
  obtain fresh where f: "r = Inr fresh" using assms t e by (cases r) (auto simp: load_or_enroll_def Let_def)
  obtain q fs1 where q: "state_save (cv_show_uuid env) (sv_save sv) fresh (ar_data_dir (ac_agent config)) fs = (q, fs1)"
    by fastforce
  have "q = Inr () \<and> fresh = st \<and> fs1 = fs' \<and> s1 = s'"
    using assms t e f q by (cases q) (auto simp: load_or_enroll_def Let_def)
  with that [OF t] e f q show thesis by simp
qed

text \<open>The manager of \<open>main\<close>: its handler signs with the root CA.\<close>

definition signs_with :: "enroll_env \<Rightarrow> ('k, 'c) rcgen \<Rightarrow> ('k, 'c) root_ca \<Rightarrow> bool" where
  "signs_with menv rg ca \<longleftrightarrow> en_sign menv = (\<lambda>csr cn. map_err (\<lambda>_. []) (sign_csr_with_cn rg ca csr cn))"

lemma manager_cert:
  assumes "signs_with menv rg ca" "signs_request rg cert_of" "reads_subject cert_of der parse_x509"
    and "en_sign menv csr cn = Inr cert"
  shows "is_ascii cert \<and> parse_x509 (der cert) = Some [Some cn]"
proof -
  have "sign_csr_with_cn rg ca csr cn = Inr cert"
    using assms(1,4) by (auto simp: signs_with_def map_err_def split: sum.splits)
  from sign_csr_with_cn_Inr [OF assms(2) this] assms(3) show ?thesis by (auto simp: reads_subject_def)
qed

text \<open>C6: agent, certificate authority and manager together: when a first start obtains an identity, the next
  start loads the same identity from disk without calling the manager, the certificate and key on disk are
  what the stream connects with, and the manager accepts the stream of this certificate as the agent's.\<close>

theorem first_start_gives_identity:
  assumes "load_or_enroll env (enroll menv) sv config info fs d = (Inr st, fs', d')"
    and first: "state_load (cv_parse_uuid env) (sv_read sv) (ar_data_dir (ac_agent config)) fs = Inr None"
    and ca: "signs_with menv rg ca" "signs_request rg cert_of" "reads_subject cert_of der parse_x509"
    and uuid: "\<And>u. cv_parse_uuid env (en_show_uuid menv u) = Some u"
      "\<And>u. cv_parse_uuid env (ws_trim (cv_show_uuid env u)) = Some u"
    and same: "cv_parse_uuid env2 = cv_parse_uuid env"
    and pinned: "am_ca_cert_path (ac_manager config) \<notin> path_join (ar_data_dir (ac_agent config)) ` {CERT_FILENAME, KEY_FILENAME, ID_FILENAME}"
  shows "load_or_enroll env2 rpc2 (sv\<lparr>sv_read := \<lambda>_. None\<rparr>) config info2 fs' s2 = (Inr st, fs', s2) \<and>
    stream_accept (cv_parse_uuid env) parse_x509 None (Some [der (as_cert_pem st)]) d' = Inr (as_agent_id st) \<and>
    (\<exists>ca_pem key. cv_new_key env = Inr key \<and> fs (am_ca_cert_path (ac_manager config)) = Some ca_pem \<and>
      (let sc = stream_config_of config st in
         build_channel connect (\<lambda>_. None) (file_bytes fs') (sc_endpoint sc) (sc_ca_cert_path sc) (sc_cert_path sc) (sc_key_path sc) =
         connect \<lparr>tls_ca = as_bytes ca_pem, tls_cert = as_bytes (as_cert_pem st),
           tls_key = as_bytes (rg_key_pem (cv_rg env) key), tls_domain = endpoint_host (am_endpoint (ac_manager config)),
           tls_uri = lit ''https://'' @ am_endpoint (ac_manager config)\<rparr>))"
proof (intro conjI)
  let ?dir = "ar_data_dir (ac_agent config)" let ?m = "ac_manager config"
  obtain token where e: "agent_enroll env (enroll menv) (sv_ca sv) fs \<lparr>ep_endpoint = am_endpoint ?m,
       ep_ca_cert_path = am_ca_cert_path ?m, ep_enrollment_token = token\<rparr> info d = (Inr st, d')"
    and save: "state_save (cv_show_uuid env) (sv_save sv) st ?dir fs = (Inr (), fs')"
    using load_or_enroll_Inr [OF assms(1) first] by metis
  obtain csr key resp where r: "fs (am_ca_cert_path ?m) \<noteq> None" "cv_new_key env = Inr key"
    "as_key_pem st = rg_key_pem (cv_rg env) key" "enroll menv (enroll_message token info csr) d = (Inr resp, d')"
    "cv_parse_uuid env (es_agent_id resp) = Some (as_agent_id st)" "from_utf8 (es_cert_pem resp) = Some (as_cert_pem st)"
    using agent_enroll_Inr [OF e] by (metis enrollment_params.select_convs(2,3))
  have "state_load (cv_parse_uuid env) (\<lambda>_. None) ?dir fs' = Inr (Some st)"
    using uuid(2) by (intro state_load_saved [OF save])
  then show "load_or_enroll env2 rpc2 (sv\<lparr>sv_read := \<lambda>_. None\<rparr>) config info2 fs' s2 = (Inr st, fs', s2)"
    by (simp add: load_or_enroll_def same Let_def)
  have "\<exists>cert. from_utf8 (es_cert_pem resp) = Some cert \<and>
      stream_accept (cv_parse_uuid env) parse_x509 None (Some [der cert]) d' = Inr (en_new_id menv) \<and>
      cv_parse_uuid env (es_agent_id resp) = Some (en_new_id menv)"
    by (intro enroll_then_accept [OF r(4)] uuid(1) manager_cert [OF ca])
  with r(5,6) show "stream_accept (cv_parse_uuid env) parse_x509 None (Some [der (as_cert_pem st)]) d' = Inr (as_agent_id st)"
    by auto
  obtain ca_pem where pem: "fs (am_ca_cert_path ?m) = Some ca_pem" using r(1) by blast
  have "fs' (am_ca_cert_path ?m) = Some ca_pem" "fs' (path_join ?dir CERT_FILENAME) = Some (as_cert_pem st)"
    "fs' (path_join ?dir KEY_FILENAME) = Some (rg_key_pem (cv_rg env) key)"
    using pinned pem r(3) state_paths_distinct [of ?dir] by (simp_all add: state_save_ok [OF save])
  then show "\<exists>ca_pem key. cv_new_key env = Inr key \<and> fs (am_ca_cert_path ?m) = Some ca_pem \<and>
      (let sc = stream_config_of config st in
         build_channel connect (\<lambda>_. None) (file_bytes fs') (sc_endpoint sc) (sc_ca_cert_path sc) (sc_cert_path sc) (sc_key_path sc) =
         connect \<lparr>tls_ca = as_bytes ca_pem, tls_cert = as_bytes (as_cert_pem st),
           tls_key = as_bytes (rg_key_pem (cv_rg env) key), tls_domain = endpoint_host (am_endpoint ?m),
           tls_uri = lit ''https://'' @ am_endpoint ?m\<rparr>)"
    using r(2) pem
    by (simp add: stream_config_of_def build_channel_def file_bytes_def fs_read_def CERT_FILENAME_def KEY_FILENAME_def Let_def)
qed

subsection \<open>A concrete manager and agent\<close>

definition sample_root :: "(rstr, cert_params) root_ca" where
  "sample_root = \<lparr>rc_cert = sample_cert [], rc_key_pair = lit ''k'', rc_cert_pem = [], rc_key_pem = lit ''k''\<rparr>"

definition sample_show :: "uuid \<Rightarrow> rstr" where
  "sample_show u = [65, unat u, 65]"

definition sample_parse_id :: "rstr \<Rightarrow> uuid option" where
  "sample_parse_id s = (case s of [a, n, b] \<Rightarrow> Some (of_nat n) | _ \<Rightarrow> None)"

lemma sample_ids: "sample_parse_id (sample_show u) = Some u" "ws_trim (sample_show u) = sample_show u"
  by (simp_all add: sample_show_def sample_parse_id_def ws_trim_def is_whitespace_def)

definition sample_manager :: enroll_env where
  "sample_manager = (sample_env 1)\<lparr>en_sign := \<lambda>csr cn. map_err (\<lambda>_. []) (sign_csr_with_cn sample_rcgen sample_root csr cn),
     en_show_uuid := sample_show\<rparr>"

definition sample_client :: "(rstr, cert_params) client_env" where
  "sample_client = \<lparr>cv_rg = sample_rcgen, cv_new_key = Inr (lit ''key''), cv_connect = \<lambda>_. Inr (),
     cv_parse_uuid = sample_parse_id, cv_show_uuid = sample_show\<rparr>"

definition sample_config :: agent_config where
  "sample_config = \<lparr>ac_manager = \<lparr>am_endpoint = lit ''m:5443'', am_enrollment_token = Some (lit ''t''),
       am_verify_tls = True, am_ca_cert_path = lit ''ca''\<rparr>,
     ac_agent = \<lparr>ar_data_dir = lit ''d'', ar_log_level = lit ''info'', ar_heartbeat_interval_secs = 30, ar_watch_paths = []\<rparr>\<rparr>"

definition sample_info :: system_info where
  "sample_info = \<lparr>si_hostname = lit ''h'', si_os = lit ''linux'', si_os_version = [], si_arch = [], si_agent_version = []\<rparr>"

definition sample_files :: "rstr files" where
  "sample_files = (\<lambda>p. if p = lit ''ca'' then Some (lit ''pem'') else None)"

definition sample_start :: "(rstr \<times> rstr option) option \<Rightarrow> start_files" where
  "sample_start wr = \<lparr>sv_config = None, sv_mkdir = None, sv_queue = None, sv_read = \<lambda>_. None, sv_ca = None,
     sv_save = \<lparr>so_mkdir = None, so_cert = wr, so_key = None, so_id = None, so_chmod = None\<rparr>\<rparr>"

lemma sample_sign:
  "sign_csr_with_cn sample_rcgen sample_root (lit ''csr'') (sample_show 1) = Inr (sample_show 1)"
  by (simp add: sign_csr_with_cn_def sample_rcgen_def sample_cert_def agent_dn_def dn_push_def common_names_def sample_show_def)

lemma sample_paths:
  "path_join (lit ''d'') CERT_FILENAME = lit ''d/agent.cert''" "path_join (lit ''d'') KEY_FILENAME = lit ''d/agent.key''"
  "path_join (lit ''d'') ID_FILENAME = lit ''d/agent.id''"
  by (simp_all add: path_join_def CERT_FILENAME_def KEY_FILENAME_def ID_FILENAME_def lit_def)

lemma sample_first: "state_load sample_parse_id (\<lambda>_. None) (lit ''d'') sample_files = Inr None"
  by (simp add: state_load_def sample_paths sample_files_def)

lemma sample_enroll_ok:
  "\<exists>resp d'. enroll sample_manager (enroll_message (lit ''t'') sample_info (lit ''csr'')) one_use_db = (Inr resp, d') \<and>
     es_agent_id resp = sample_show 1 \<and> es_cert_pem resp = as_bytes (sample_show 1) \<and> map ag_id (db_agents d') = [1] \<and>
     map_option et_uses_count (find_token (hex_bytes (as_bytes (lit ''t''))) d') = Some 1 \<and>
     map_option et_max_uses (find_token (hex_bytes (as_bytes (lit ''t''))) d') = Some (Some 1) \<and>
     map_option et_expires_at (find_token (hex_bytes (as_bytes (lit ''t''))) d') = Some (Some 200)"
  by (simp add: enroll_message_def sample_info_def sample_manager_def sample_enroll Let_def from_utf8_ascii sample_sign)

lemma sample_agent_enroll:
  "\<exists>st d'. agent_enroll sample_client (enroll sample_manager) None sample_files \<lparr>ep_endpoint = lit ''m:5443'',
     ep_ca_cert_path = lit ''ca'', ep_enrollment_token = lit ''t''\<rparr> sample_info one_use_db = (Inr st, d') \<and>
     as_agent_id st = 1 \<and> map ag_id (db_agents d') = [1] \<and> (\<exists>t. find_token (hex_bytes (as_bytes (lit ''t''))) d' = Some t \<and>
       et_uses_count t = 1 \<and> et_max_uses t = Some 1 \<and> et_expires_at t = Some 200)"
proof -
  obtain resp d' where e: "enroll sample_manager (enroll_message (lit ''t'') sample_info (lit ''csr'')) one_use_db = (Inr resp, d')"
    "es_agent_id resp = sample_show 1" "es_cert_pem resp = as_bytes (sample_show 1)" "map ag_id (db_agents d') = [1]"
    "\<exists>t. find_token (hex_bytes (as_bytes (lit ''t''))) d' = Some t \<and>
       et_uses_count t = 1 \<and> et_max_uses t = Some 1 \<and> et_expires_at t = Some 200"
    using sample_enroll_ok by (force simp: map_option_case split: option.splits)
  have "generate_agent_csr sample_rcgen (Inr (lit ''key'')) (lit ''h'') = Inr (lit ''csr'', lit ''key'')"
    by (simp add: generate_agent_csr_def sample_rcgen_def)
  moreover have "is_ascii (sample_show 1)" by (simp add: sample_show_def)
  ultimately show ?thesis using e
    by (simp add: agent_enroll_def sample_client_def fs_read_def file_bytes_def sample_files_def sample_info_def
        sample_ids from_utf8_ascii)
qed

lemma sample_load_or_enroll:
  "\<exists>st fs' d'. load_or_enroll sample_client (enroll sample_manager) (sample_start None) sample_config sample_info sample_files one_use_db
     = (Inr st, fs', d') \<and> as_agent_id st = 1"
proof -
  obtain st d' where "agent_enroll sample_client (enroll sample_manager) None sample_files \<lparr>ep_endpoint = lit ''m:5443'',
     ep_ca_cert_path = lit ''ca'', ep_enrollment_token = lit ''t''\<rparr> sample_info one_use_db = (Inr st, d')" "as_agent_id st = 1"
    using sample_agent_enroll by blast
  then show ?thesis using sample_first
    by (simp add: load_or_enroll_def sample_start_def sample_config_def sample_client_def state_save_def fs_write_def Let_def)
qed

theorem first_start_gives_identity_witness:
  "\<exists>st fs' d'. load_or_enroll sample_client (enroll sample_manager) (sample_start None) sample_config sample_info sample_files one_use_db
       = (Inr st, fs', d') \<and>
     load_or_enroll sample_client (\<lambda>req s. (Inl (), s)) (sample_start None) sample_config sample_info fs' () = (Inr st, fs', ()) \<and>
     stream_accept sample_parse_id sample_x509 None (Some [sample_der (as_cert_pem st)]) d' = Inr 1"
proof -
  obtain st fs' d' where e: "load_or_enroll sample_client (enroll sample_manager) (sample_start None) sample_config
      sample_info sample_files one_use_db = (Inr st, fs', d')" and i: "as_agent_id st = 1"
    using sample_load_or_enroll by blast
  have first: "state_load (cv_parse_uuid sample_client) (sv_read (sample_start None)) (ar_data_dir (ac_agent sample_config))
      sample_files = Inr None"
    using sample_first by (simp add: sample_client_def sample_start_def sample_config_def)
  have ca: "signs_with sample_manager sample_rcgen sample_root"
    by (simp add: signs_with_def sample_manager_def)
  have pin: "am_ca_cert_path (ac_manager sample_config) \<notin>
      path_join (ar_data_dir (ac_agent sample_config)) ` {CERT_FILENAME, KEY_FILENAME, ID_FILENAME}"
    by (simp add: sample_config_def sample_paths)
  have "(sample_start None)\<lparr>sv_read := \<lambda>_. None\<rparr> = sample_start None" by (simp add: sample_start_def)
  moreover have ids: "cv_parse_uuid sample_client (en_show_uuid sample_manager u) = Some u"
    "cv_parse_uuid sample_client (ws_trim (cv_show_uuid sample_client u)) = Some u" for u
    by (simp_all add: sample_client_def sample_manager_def sample_ids)
  moreover note first_start_gives_identity [OF e first ca sample_signs sample_reads ids refl pin,
      where ?rpc2.0 = "\<lambda>req s. (Inl (), s)" and ?s2.0 = "()" and ?info2.0 = sample_info
        and connect = "\<lambda>_. Inr () :: rstr + unit"]
  ultimately have "load_or_enroll sample_client (\<lambda>req s. (Inl (), s)) (sample_start None) sample_config sample_info fs' ()
      = (Inr st, fs', ())"
    "stream_accept (cv_parse_uuid sample_client) sample_x509 None (Some [sample_der (as_cert_pem st)]) d' = Inr (as_agent_id st)"
    by simp_all
  then show ?thesis using e i by (auto simp: sample_client_def)
qed









text \<open>The smallest interval is accepted, though the heartbeat's timer panics on zero.\<close>

lemma zero_heartbeat_is_accepted:
  "\<exists>c. agent_config_load (\<lambda>_. Inr \<lparr>rac_manager = Some \<lparr>ram_endpoint = Some (lit ''m:1''), ram_enrollment_token = None,
       ram_verify_tls = None, ram_ca_cert_path = Some []\<rparr>,
     rac_agent = Some \<lparr>rar_data_dir = Some (lit ''d''), rar_log_level = None, rar_heartbeat_interval_secs = Some 0,
       rar_watch_paths = None\<rparr>\<rparr>) None [] (\<lambda>_. Some []) = Inr c \<and> sc_heartbeat_secs (stream_config_of c st) = 0"
proof -
  have "(58::nat) \<in> set (lit ''m:1'')" by code_simp
  then show ?thesis
    by (simp add: agent_config_load_def read_config_def fs_read_def de_agent_config_def de_agent_manager_def
        de_agent_runtime_def agent_config_validate_def stream_config_of_def Let_def)
qed

end
