(* ===== verification/App_State.thy ===== *)
theory App_State
  imports Config Policy_Api Agent_Registry
begin

text \<open>
  The shared state of the REST API, \<open>scrooge-manager-api/src/state.rs\<close>, built from the manager's configuration,
  and the endpoint that shows the dashboard's part of it, \<open>handlers/dashboard.rs\<close>. The database is not part of
  the record: handlers take it as an argument. The JWT keys are the bytes they are made from.
\<close>

record auth_material =
  mat_encoding :: "u8 list"
  mat_decoding :: "u8 list"
  mat_access_ttl_secs :: u64
  mat_refresh_ttl_secs :: u64

record install_config =
  ic_public_grpc_endpoint :: "rstr option"
  ic_public_rest_base_url :: "rstr option"
  ic_agent_release_tag :: "rstr option"
  ic_ca_cert_path :: rstr

record app_state =
  st_auth :: auth_material
  st_dashboard :: dashboard_config
  st_install :: install_config
  st_command_tx :: "command_request chan option"
  st_policy_push_tx :: "push_tx option"

definition app_state_new ::
  "auth_config \<Rightarrow> dashboard_config \<Rightarrow> manager_server_config \<Rightarrow> command_request chan option \<Rightarrow> push_tx option \<Rightarrow> app_state" where
  "app_state_new auth_cfg dashboard server_cfg command_tx policy_push_tx =
     (let secret = as_bytes (ah_jwt_secret auth_cfg)
      in \<lparr>st_auth = \<lparr>mat_encoding = secret, mat_decoding = secret,
            mat_access_ttl_secs = ah_access_token_ttl_secs auth_cfg,
            mat_refresh_ttl_secs = ah_refresh_token_ttl_secs auth_cfg\<rparr>,
          st_dashboard = dashboard,
          st_install = \<lparr>ic_public_grpc_endpoint = ms_public_grpc_endpoint server_cfg,
            ic_public_rest_base_url = ms_public_rest_base_url server_cfg,
            ic_agent_release_tag = ms_agent_release_tag server_cfg, ic_ca_cert_path = ms_ca_cert_path server_cfg\<rparr>,
          st_command_tx = command_tx, st_policy_push_tx = policy_push_tx\<rparr>)"

section \<open>The dashboard's configuration\<close>

record auto_refresh_dto =
  ad_enabled :: bool
  ad_interval_secs :: u32
  ad_mode :: rstr

record session_dto =
  sx_idle_timeout_secs :: u32
  sx_absolute_timeout_secs :: u32
  sx_warn_before_secs :: u32
  sx_extend_on_activity :: bool

record dashboard_dto =
  dx_auto_refresh :: auto_refresh_dto
  dx_session :: session_dto

definition auto_refresh_from :: "auto_refresh_config \<Rightarrow> auto_refresh_dto" where
  "auto_refresh_from c = \<lparr>ad_enabled = af_enabled c, ad_interval_secs = af_interval_secs c, ad_mode = af_mode c\<rparr>"

definition session_from :: "session_config \<Rightarrow> session_dto" where
  "session_from c = \<lparr>sx_idle_timeout_secs = se_idle_timeout_secs c,
     sx_absolute_timeout_secs = se_absolute_timeout_secs c, sx_warn_before_secs = se_warn_before_secs c,
     sx_extend_on_activity = se_extend_on_activity c\<rparr>"

definition dashboard_from :: "dashboard_config \<Rightarrow> dashboard_dto" where
  "dashboard_from c = \<lparr>dx_auto_refresh = auto_refresh_from (dh_auto_refresh c), dx_session = session_from (dh_session c)\<rparr>"

definition dashboard_config_handler :: "app_state \<Rightarrow> dashboard_dto" where
  "dashboard_config_handler st = dashboard_from (st_dashboard st)"

section \<open>Configuration and login together\<close>

text \<open>A handler of authentication runs with the lifetimes of the state.\<close>

definition auth_env_of :: "app_state \<Rightarrow> auth_env \<Rightarrow> auth_env" where
  "auth_env_of st env = env\<lparr>au_access_ttl := mat_access_ttl_secs (st_auth st),
     au_refresh_ttl := mat_refresh_ttl_secs (st_auth st)\<rparr>"

lemma login_unencodable_ttl:
  assumes "i64_of_u64 (au_access_ttl env) = None"
  shows "\<nexists>resp d'. login env u p d = (Some (Inr resp), d')"
  using assms by (auto simp: login_def issue_tokens_def split: sum.splits prod.splits)

text \<open>Nothing checks the lifetimes of tokens: a configuration that loads can make every login fail.\<close>

definition long_ttl_document :: raw_manager_config where
  "long_ttl_document = \<lparr>
     rmc_server = Some \<lparr>rms_grpc_listen_addr = None, rms_rest_listen_addr = None, rms_tls_cert_path = Some (lit ''x''),
       rms_tls_key_path = Some (lit ''x''), rms_ca_cert_path = Some (lit ''x''), rms_ca_key_path = Some (lit ''x''),
       rms_public_grpc_endpoint = None, rms_public_rest_base_url = None, rms_agent_release_tag = None,
       rms_rest_tls_cert_path = None, rms_rest_tls_key_path = None\<rparr>,
     rmc_database = Some \<lparr>rdc_url = Some (lit ''postgres://x''), rdc_pool_max = None\<rparr>,
     rmc_syslog_forwarder = None,
     rmc_auth = Some \<lparr>rah_jwt_secret = Some (lit ''this-is-a-very-long-secret-at-least-32''),
       rah_access_token_ttl_secs = Some (2 ^ 63), rah_refresh_token_ttl_secs = None\<rparr>,
     rmc_dashboard = None\<rparr>"

theorem valid_config_blocks_login:
  "\<exists>c. manager_config_load (\<lambda>_. Inr long_ttl_document) None (lit ''f'') (\<lambda>_. Some []) = Inr c \<and>
     (\<forall>env u p d. \<not> (\<exists>resp d'. login (auth_env_of (app_state_new (mc_auth c) (mc_dashboard c) (mc_server c) None None) env) u p d
        = (Some (Inr resp), d')))"
proof -
  have "\<exists>c. manager_config_load (\<lambda>_. Inr long_ttl_document) None (lit ''f'') (\<lambda>_. Some []) = Inr c \<and>
      ah_access_token_ttl_secs (mc_auth c) = 2 ^ 63"
    by (simp add: manager_config_load_def read_config_def fs_read_def long_ttl_document_def de_manager_config_def
        de_manager_server_def de_database_def de_auth_def manager_config_validate_def blen_ascii)
  then obtain c where c: "manager_config_load (\<lambda>_. Inr long_ttl_document) None (lit ''f'') (\<lambda>_. Some []) = Inr c"
    "ah_access_token_ttl_secs (mc_auth c) = 2 ^ 63" by blast
  have "i64_of_u64 (2 ^ 63 :: u64) = None" by (simp add: i64_of_u64_def)
  with c have "\<nexists>resp d'. login (auth_env_of (app_state_new (mc_auth c) (mc_dashboard c) (mc_server c) None None) env) u p d
      = (Some (Inr resp), d')" for env u p d
    by (intro login_unencodable_ttl) (simp add: auth_env_of_def app_state_new_def Let_def)
  with c(1) show ?thesis by blast
qed

end
