(* ===== verification/Templates.thy ===== *)
theory Templates
  imports Prelude
begin

text \<open>
  \<open>str::replace\<close> and what a chain of it does to a template whose placeholders are written
  \<open>{{NAME}}\<close>, as in \<open>scrooge-manager-api/src/handlers/install.rs\<close>. A template is a list of pieces, and the
  lemmas show that replacing a placeholder in its text fills the hole of that name and nothing else, as
  long as no text or value looks like a placeholder.
\<close>

text \<open>The leftmost occurrences that do not overlap, for a pattern that is not empty.\<close>

fun replace_all :: "rstr \<Rightarrow> rstr \<Rightarrow> rstr \<Rightarrow> rstr" where
  "replace_all p v [] = []"
| "replace_all p v (c # s) =
     (if p \<noteq> [] \<and> take (length p) (c # s) = p then v @ replace_all p v (drop (length p - 1) s)
      else c # replace_all p v s)"

datatype piece = Txt rstr | Hole rstr

text \<open>The characters \<open>{\<close> and \<open>}\<close> are 123 and 125.\<close>

definition placeholder :: "rstr \<Rightarrow> rstr" where
  "placeholder k = [123, 123] @ k @ [125, 125]"

fun piece_text :: "piece \<Rightarrow> rstr" where
  "piece_text (Txt s) = s"
| "piece_text (Hole k) = placeholder k"

definition template_text :: "piece list \<Rightarrow> rstr" where
  "template_text ps = concat (map piece_text ps)"

definition fill :: "rstr \<Rightarrow> rstr \<Rightarrow> piece list \<Rightarrow> piece list" where
  "fill k v ps = map (\<lambda>p. if p = Hole k then Txt v else p) ps"

text \<open>Text without two braces in a row, and none at its end that could join with what follows.\<close>

fun plain :: "rstr \<Rightarrow> bool" where
  "plain [] = True"
| "plain [c] = (c \<noteq> 123)"
| "plain (c # d # s) = ((c \<noteq> 123 \<or> d \<noteq> 123) \<and> plain (d # s))"

definition name_ok :: "rstr \<Rightarrow> bool" where
  "name_ok k \<longleftrightarrow> k \<noteq> [] \<and> 123 \<notin> set k \<and> 125 \<notin> set k"

fun piece_ok :: "piece \<Rightarrow> bool" where
  "piece_ok (Txt s) = plain s"
| "piece_ok (Hole k) = name_ok k"

lemma template_text_simps [simp]:
  "template_text [] = []" "template_text (p # ps) = piece_text p @ template_text ps"
  "template_text (ps @ qs) = template_text ps @ template_text qs"
  by (simp_all add: template_text_def)

lemma fill_simps [simp]:
  "fill k v [] = []" "fill k v (p # ps) = (if p = Hole k then Txt v else p) # fill k v ps"
  "fill k v (ps @ qs) = fill k v ps @ fill k v qs"
  by (simp_all add: fill_def)

lemma plain_no_brace: "123 \<notin> set s \<Longrightarrow> plain s"
  by (induction s rule: plain.induct) auto

lemma replace_skip:
  assumes "plain s"
  shows "replace_all (placeholder k) v (s @ t) = s @ replace_all (placeholder k) v t"
  using assms by (induction s rule: plain.induct) (auto simp: placeholder_def)

lemma replace_hit: "replace_all (placeholder k) v (placeholder k @ t) = v @ replace_all (placeholder k) v t"
  by (simp add: placeholder_def)

text \<open>A name ends at the first closing brace, so no placeholder is the beginning of another.\<close>

lemma placeholder_prefix:
  assumes "name_ok k" "name_ok j" "take (length (placeholder k)) (placeholder j @ t) = placeholder k"
  shows "k = j"
proof -
  have "placeholder k @ drop (length (placeholder k)) (placeholder j @ t) = placeholder j @ t"
    by (metis append_take_drop_id assms(3))
  then have e: "k @ 125 # 125 # drop (length (placeholder k)) (placeholder j @ t) = j @ 125 # 125 # t"
    by (simp add: placeholder_def)
  have "takeWhile (\<lambda>c. c \<noteq> 125) (k @ 125 # r) = k" "takeWhile (\<lambda>c. c \<noteq> 125) (j @ 125 # r) = j" for r
    using assms(1,2) by (auto simp: name_ok_def takeWhile_append takeWhile_eq_all_conv)
  then show ?thesis using arg_cong [OF e, of "takeWhile (\<lambda>c. c \<noteq> 125)"] by simp
qed

lemma plain_tail: "name_ok j \<Longrightarrow> plain (123 # j @ [125, 125])"
proof -
  assume j: "name_ok j"
  then obtain c s where "j = c # s" "c \<noteq> 123" by (cases j) (auto simp: name_ok_def)
  moreover have "plain (j @ [125, 125])" using j by (intro plain_no_brace) (auto simp: name_ok_def)
  ultimately show ?thesis by simp
qed

lemma replace_other:
  assumes "name_ok k" "name_ok j" "j \<noteq> k"
  shows "replace_all (placeholder k) v (placeholder j @ t) = placeholder j @ replace_all (placeholder k) v t"
proof -
  have "take (length (placeholder k)) (placeholder j @ t) \<noteq> placeholder k"
    using placeholder_prefix [OF assms(1,2)] assms(3) by blast
  then have "replace_all (placeholder k) v (placeholder j @ t) =
      123 # replace_all (placeholder k) v ((123 # j @ [125, 125]) @ t)"
    by (simp add: placeholder_def)
  then show ?thesis using replace_skip [OF plain_tail [OF assms(2)], of k v t] by (simp add: placeholder_def)
qed

lemma replace_piece:
  assumes "name_ok k" "piece_ok p"
  shows "replace_all (placeholder k) v (piece_text p @ t) =
    piece_text (if p = Hole k then Txt v else p) @ replace_all (placeholder k) v t"
  using assms by (cases p) (auto simp: replace_skip replace_hit replace_other)

lemma replace_template:
  assumes "name_ok k" "list_all piece_ok ps"
  shows "replace_all (placeholder k) v (template_text ps) = template_text (fill k v ps)"
  using assms(2)
proof (induction ps)
  case (Cons p ps)
  then show ?case using replace_piece [OF assms(1), of p v "template_text ps"]
    by (simp del: piece_text.simps if_split)
qed simp

lemma fill_ok: "plain v \<Longrightarrow> list_all piece_ok ps \<Longrightarrow> list_all piece_ok (fill k v ps)"
  by (induction ps) auto

text \<open>A chain of replacements, one after the other on the whole text.\<close>

definition replace_chain :: "(rstr \<times> rstr) list \<Rightarrow> rstr \<Rightarrow> rstr" where
  "replace_chain kvs s = fold (\<lambda>(k, v). replace_all (placeholder k) v) kvs s"

definition fill_chain :: "(rstr \<times> rstr) list \<Rightarrow> piece list \<Rightarrow> piece list" where
  "fill_chain kvs ps = fold (\<lambda>(k, v). fill k v) kvs ps"

lemma replace_chain_template:
  assumes "list_all (\<lambda>(k, v). name_ok k) kvs" "list_all (\<lambda>(k, v). plain v) (butlast kvs)" "list_all piece_ok ps"
  shows "replace_chain kvs (template_text ps) = template_text (fill_chain kvs ps)"
  using assms
proof (induction kvs arbitrary: ps)
  case (Cons x kvs)
  obtain k v where x: "x = (k, v)" by fastforce
  then have first: "replace_all (placeholder k) v (template_text ps) = template_text (fill k v ps)"
    using replace_template Cons.prems by auto
  show ?case
  proof (cases kvs)
    case (Cons y ys)
    then have "replace_chain kvs (template_text (fill k v ps)) = template_text (fill_chain kvs (fill k v ps))"
      using x Cons.prems by (intro Cons.IH fill_ok) auto
    with first x show ?thesis by (simp add: replace_chain_def fill_chain_def)
  qed (use first x in \<open>simp add: replace_chain_def fill_chain_def\<close>)
qed (simp add: replace_chain_def fill_chain_def)

text \<open>Filling every hole at once, with the first value of its name.\<close>

fun piece_value :: "(rstr \<times> rstr) list \<Rightarrow> piece \<Rightarrow> rstr" where
  "piece_value kvs (Txt s) = s"
| "piece_value kvs (Hole k) = (case map_of kvs k of Some v \<Rightarrow> v | None \<Rightarrow> placeholder k)"

lemma fill_chain_Txt: "template_text (fill_chain kvs (Txt s # ps)) = s @ template_text (fill_chain kvs ps)"
  by (induction kvs arbitrary: ps) (auto simp: fill_chain_def)

lemma fill_chain_Hole:
  "template_text (fill_chain kvs (Hole k # ps)) = piece_value kvs (Hole k) @ template_text (fill_chain kvs ps)"
proof (induction kvs arbitrary: ps)
  case (Cons x kvs)
  obtain j v where x: "x = (j, v)" by fastforce
  show ?case
  proof (cases "k = j")
    case True
    with x show ?thesis using fill_chain_Txt [of kvs v] by (simp add: fill_chain_def)
  qed (use x Cons.IH in \<open>simp add: fill_chain_def\<close>)
qed (simp add: fill_chain_def)

lemma fill_chain_Nil: "template_text (fill_chain kvs []) = []"
  by (induction kvs) (auto simp: fill_chain_def)

lemma fill_chain_value: "template_text (fill_chain kvs ps) = concat (map (piece_value kvs) ps)"
proof (induction ps)
  case (Cons p ps)
  then show ?case by (cases p) (simp_all add: fill_chain_Txt fill_chain_Hole)
qed (simp add: fill_chain_Nil)

end
