(* ===== verification/Install.thy ===== *)
theory Install
  imports App_State Enrollment Templates
begin

text \<open>
  The install API, \<open>scrooge-manager-api/src/handlers/install.rs\<close>: enrollment tokens for one use, the one-liner
  of the dashboard, and the scripts rendered from the templates beside it. The templates are an argument
  where they do not matter; the assignments of the Linux one are \<open>linux_values\<close>. SHA-256, UUIDs and the
  clock are parameters; the file with the CA certificate is read from a file system.
\<close>

definition RELEASES_BASE_URL :: rstr where
  "RELEASES_BASE_URL = lit ''https://github.com/SQTX/Scrooge-DLP/releases/download''"

definition PACKAGE_VERSION :: rstr where
  "PACKAGE_VERSION = lit ''0.1.0'' @ lit ''-1''"

definition INSTALL_TOKEN_TTL_HOURS :: int where
  "INSTALL_TOKEN_TTL_HOURS = 24"

section \<open>Target systems\<close>

datatype target_os = Linux | MacOs | Windows

definition to_ascii_lowercase :: "rstr \<Rightarrow> rstr" where
  "to_ascii_lowercase s = map (\<lambda>c. if is_ascii_uppercase c then c + 32 else c) s"

definition os_parse :: "rstr \<Rightarrow> target_os option" where
  "os_parse raw =
     (let s = to_ascii_lowercase raw
      in if s = lit ''linux'' then Some Linux
         else if s = lit ''macos'' \<or> s = lit ''darwin'' then Some MacOs
         else if s = lit ''windows'' then Some Windows
         else None)"

fun os_label :: "target_os \<Rightarrow> rstr" where
  "os_label Linux = lit ''linux''"
| "os_label MacOs = lit ''macos''"
| "os_label Windows = lit ''windows''"

fun os_content_type :: "target_os \<Rightarrow> rstr" where
  "os_content_type Linux = lit ''text/x-shellscript; charset=utf-8''"
| "os_content_type MacOs = lit ''text/x-shellscript; charset=utf-8''"
| "os_content_type Windows = lit ''application/x-powershell; charset=utf-8''"

fun os_script_path :: "target_os \<Rightarrow> rstr" where
  "os_script_path Linux = lit ''/api/v1/install.sh''"
| "os_script_path MacOs = lit ''/api/v1/install-macos.sh''"
| "os_script_path Windows = lit ''/api/v1/install.ps1''"

definition one_liner :: "target_os \<Rightarrow> rstr \<Rightarrow> rstr \<Rightarrow> rstr \<Rightarrow> rstr option \<Rightarrow> rstr" where
  "one_liner os manager_endpoint token install_ref rest_base =
     (let ref_part = (if install_ref = [] \<or> install_ref = lit ''main'' then [] else lit '' INSTALL_REF='' @ install_ref);
          rest_part = (case rest_base of Some b \<Rightarrow> if b \<noteq> [] then lit '' REST_BASE='' @ b else [] | None \<Rightarrow> []);
          branch = (if install_ref = [] then lit ''main'' else install_ref)
      in case os of
           Windows \<Rightarrow> lit ''# Windows install-from-source NIE wspierany jeszcze.'' @ [10] @
             lit ''# MANAGER='' @ manager_endpoint @ lit '' TOKEN='' @ token @ [10] @
             lit ''# Roadmap: deploy/install-agent.ps1 w v0.3.x''
         | _ \<Rightarrow> lit ''curl -fsSL https://github.com/SQTX/Scrooge-DLP/raw/'' @ branch @
             lit ''/deploy/install-agent.sh | MANAGER='' @ manager_endpoint @ lit '' TOKEN='' @ token @
             ref_part @ rest_part @ lit '' sudo -E bash'')"

section \<open>Issuing a token\<close>

record install_request =
  iq_target_os :: rstr
  iq_description :: "rstr option"

record install_response =
  ir_token :: rstr
  ir_expires_at :: int
  ir_install_command :: "rstr option"

text \<open>\<open>iv_after_hours h\<close> is \<open>Utc::now() + Duration::hours(h)\<close>.\<close>

record install_env =
  iv_sha :: "u8 list \<Rightarrow> u8 list"
  iv_show_uuid :: "uuid \<Rightarrow> rstr"
  iv_parse_uuid :: "rstr \<Rightarrow> uuid option"
  iv_new_uuid :: uuid
  iv_after_hours :: "int \<Rightarrow> int"
  iv_insert :: outcome

definition install_sha256_hex :: "(u8 list \<Rightarrow> u8 list) \<Rightarrow> rstr \<Rightarrow> rstr" where
  "install_sha256_hex sha s = sha256_hex sha (as_bytes s)"

text \<open>\<open>INSERT INTO enrollment_tokens\<close>, with the key of its table.\<close>

definition insert_token :: "outcome \<Rightarrow> enrollment_row \<Rightarrow> db \<Rightarrow> (sqlx_error + unit) \<times> db" where
  "insert_token out t d =
     (case out of Some e \<Rightarrow> (Inl (SqlDriver e), d) | None \<Rightarrow>
      if et_token_hash t \<in> et_token_hash ` set (db_enrollment d)
      then (Inl (SqlConstraint (lit ''enrollment_tokens_pkey'')), d)
      else (Inr (), d\<lparr>db_enrollment := db_enrollment d @ [t]\<rparr>))"

definition install_create ::
  "install_env \<Rightarrow> install_config \<Rightarrow> claims \<Rightarrow> install_request \<Rightarrow> db \<Rightarrow> (api_error + install_response) \<times> db" where
  "install_create env cfg c req d =
     (let checked =
        res_bind (require_admin c) (\<lambda>_.
        res_bind (ok_or (BadRequest (lit ''target_os must be one of: linux, macos, windows (got: '' @
            iq_target_os req @ lit '')'')) (os_parse (iq_target_os req))) (\<lambda>os.
        res_bind (ok_or (api_error.Internal (lit ''sub claim is not a UUID'')) (iv_parse_uuid env (cl_sub c))) (\<lambda>created_by.
        Inr (os, created_by))))
      in case checked of
           Inl e \<Rightarrow> (Inl e, d)
         | Inr (os, created_by) \<Rightarrow>
             (let description = unwrap_or (lit ''install API ('' @ os_label os @ lit '') by '' @ cl_username c)
                    (iq_description req);
                  raw = iv_show_uuid env (iv_new_uuid env);
                  hash = install_sha256_hex (iv_sha env) raw;
                  expires_at = iv_after_hours env INSTALL_TOKEN_TTL_HOURS
              in case insert_token (iv_insert env) \<lparr>et_token_hash = hash, et_description = Some description,
                     et_expires_at = Some expires_at, et_max_uses = Some 1, et_uses_count = 0,
                     et_created_by = Some created_by\<rparr> d of
                   (Inl e, d) \<Rightarrow> (Inl (Database e), d)
                 | (Inr _, d) \<Rightarrow>
                     (let install_ref = unwrap_or [] (ic_agent_release_tag cfg);
                          rest_base = ic_public_rest_base_url cfg
                      in (Inr \<lparr>ir_token = raw, ir_expires_at = expires_at,
                            ir_install_command = map_option
                              (\<lambda>mgr. one_liner os mgr raw install_ref rest_base) (ic_public_grpc_endpoint cfg)\<rparr>, d))))"

section \<open>Rendering the scripts\<close>

record script_context =
  cx_manager_endpoint :: rstr
  cx_install_base_url :: rstr
  cx_release_tag :: rstr
  cx_ca_cert_path :: rstr

fun join_with :: "rstr \<Rightarrow> rstr list \<Rightarrow> rstr" where
  "join_with sep [] = []"
| "join_with sep [s] = s"
| "join_with sep (s # t # ss) = s @ sep @ join_with sep (t # ss)"

definition from_install_config :: "install_config \<Rightarrow> api_error + script_context" where
  "from_install_config cfg =
     (let missing = map fst (filter (\<lambda>(name, value). value = None)
            [(lit ''server.public_grpc_endpoint'', ic_public_grpc_endpoint cfg),
             (lit ''server.public_rest_base_url'', ic_public_rest_base_url cfg),
             (lit ''server.agent_release_tag'', ic_agent_release_tag cfg)])
      in if missing \<noteq> []
         then Inl (ServiceUnavailable (lit ''install API requires '' @ join_with (lit '', '') missing @
           lit '' to be set in manager.yaml''))
         else Inr \<lparr>cx_manager_endpoint = the (ic_public_grpc_endpoint cfg),
           cx_install_base_url = the (ic_public_rest_base_url cfg),
           cx_release_tag = the (ic_agent_release_tag cfg), cx_ca_cert_path = ic_ca_cert_path cfg\<rparr>)"

text \<open>The chain of \<open>replace\<close> in the order of the code.\<close>

definition script_values :: "script_context \<Rightarrow> rstr \<Rightarrow> rstr \<Rightarrow> rstr \<Rightarrow> (rstr \<times> rstr) list" where
  "script_values ctx token ca_pem install_ref =
     [(lit ''MANAGER_ENDPOINT'', cx_manager_endpoint ctx), (lit ''INSTALL_BASE_URL'', cx_install_base_url ctx),
      (lit ''ENROLLMENT_TOKEN'', token), (lit ''RELEASE_TAG'', cx_release_tag ctx),
      (lit ''PACKAGE_VERSION'', PACKAGE_VERSION), (lit ''RELEASES_BASE'', RELEASES_BASE_URL),
      (lit ''INSTALL_REF'', install_ref), (lit ''CA_PEM'', ca_pem)]"

definition render_install_script :: "rstr \<Rightarrow> script_context \<Rightarrow> rstr \<Rightarrow> rstr \<Rightarrow> rstr \<Rightarrow> rstr" where
  "render_install_script tmpl ctx token ca_pem install_ref =
     replace_chain (script_values ctx token ca_pem install_ref) tmpl"

definition validate_token :: "(u8 list \<Rightarrow> u8 list) \<Rightarrow> int \<Rightarrow> outcome \<Rightarrow> rstr \<Rightarrow> db \<Rightarrow> api_error + unit" where
  "validate_token sha now out token d =
     res_bind (db_err (sql_query out (find_token (install_sha256_hex sha token)) d)) (\<lambda>row.
     res_bind (ok_or InvalidToken row) (\<lambda>t.
     if (case et_expires_at t of Some e \<Rightarrow> e \<le> now | None \<Rightarrow> False) then Inl InvalidToken else Inr ()))"

definition ca_pem_handler :: "rstr option \<Rightarrow> rstr files \<Rightarrow> install_config \<Rightarrow> api_error + rstr \<times> rstr" where
  "ca_pem_handler rd fs cfg =
     res_bind (map_err (\<lambda>e. api_error.Internal (lit ''cannot read CA cert at '' @ ic_ca_cert_path cfg @ lit '': '' @ e))
         (fs_read rd (ic_ca_cert_path cfg) fs)) (\<lambda>pem.
     Inr (lit ''application/x-pem-file'', pem))"

definition render_for ::
  "(target_os \<Rightarrow> rstr) \<Rightarrow> (u8 list \<Rightarrow> u8 list) \<Rightarrow> int \<Rightarrow> outcome \<Rightarrow> rstr option \<Rightarrow> rstr files \<Rightarrow> install_config \<Rightarrow>
   target_os \<Rightarrow> rstr \<Rightarrow> rstr option \<Rightarrow> db \<Rightarrow> api_error + rstr \<times> rstr" where
  "render_for tmpl sha now out rd fs cfg os token install_ref d =
     res_bind (from_install_config cfg) (\<lambda>ctx.
     res_bind (validate_token sha now out token d) (\<lambda>_.
     res_bind (map_err (\<lambda>e. api_error.Internal (lit ''cannot read CA cert at '' @ cx_ca_cert_path ctx @ lit '': '' @ e))
         (fs_read rd (cx_ca_cert_path ctx) fs)) (\<lambda>ca_pem.
     Inr (os_content_type os,
       render_install_script (tmpl os) ctx token (trim_end ca_pem) (unwrap_or [] install_ref)))))"

text \<open>The three public endpoints.\<close>

definition script ::
  "(target_os \<Rightarrow> rstr) \<Rightarrow> (u8 list \<Rightarrow> u8 list) \<Rightarrow> int \<Rightarrow> outcome \<Rightarrow> rstr option \<Rightarrow> rstr files \<Rightarrow> install_config \<Rightarrow>
   rstr \<Rightarrow> rstr option \<Rightarrow> db \<Rightarrow> api_error + rstr \<times> rstr" where
  "script tmpl sha now out rd fs cfg token install_ref d =
     render_for tmpl sha now out rd fs cfg Linux token install_ref d"

definition script_macos ::
  "(target_os \<Rightarrow> rstr) \<Rightarrow> (u8 list \<Rightarrow> u8 list) \<Rightarrow> int \<Rightarrow> outcome \<Rightarrow> rstr option \<Rightarrow> rstr files \<Rightarrow> install_config \<Rightarrow>
   rstr \<Rightarrow> rstr option \<Rightarrow> db \<Rightarrow> api_error + rstr \<times> rstr" where
  "script_macos tmpl sha now out rd fs cfg token install_ref d =
     render_for tmpl sha now out rd fs cfg MacOs token install_ref d"

definition script_windows ::
  "(target_os \<Rightarrow> rstr) \<Rightarrow> (u8 list \<Rightarrow> u8 list) \<Rightarrow> int \<Rightarrow> outcome \<Rightarrow> rstr option \<Rightarrow> rstr files \<Rightarrow> install_config \<Rightarrow>
   rstr \<Rightarrow> rstr option \<Rightarrow> db \<Rightarrow> api_error + rstr \<times> rstr" where
  "script_windows tmpl sha now out rd fs cfg token install_ref d =
     render_for tmpl sha now out rd fs cfg Windows token install_ref d"

section \<open>What a script contains\<close>

lemma script_names_ok: "list_all (\<lambda>(k, v). name_ok k) (script_values ctx token ca install_ref)"
  by (simp add: script_values_def name_ok_def lit_def)

lemma fixed_values_plain: "plain PACKAGE_VERSION" "plain RELEASES_BASE_URL"
  by (simp_all add: PACKAGE_VERSION_def RELEASES_BASE_URL_def lit_def)

lemma render_fills:
  assumes "list_all piece_ok ps" "plain (cx_manager_endpoint ctx)" "plain (cx_install_base_url ctx)" "plain token"
    "plain (cx_release_tag ctx)" "plain install_ref"
  shows "render_install_script (template_text ps) ctx token ca install_ref =
    concat (map (piece_value (script_values ctx token ca install_ref)) ps)"
proof -
  have "list_all (\<lambda>(k, v). plain v) (butlast (script_values ctx token ca install_ref))"
    using assms fixed_values_plain by (simp add: script_values_def)
  then show ?thesis
    using replace_chain_template [OF script_names_ok _ assms(1)]
    by (simp add: render_install_script_def fill_chain_value)
qed

lemma render_for_Inr:
  "render_for tmpl sha now out rd fs cfg os token install_ref d = Inr (ct, body) \<longleftrightarrow>
    (\<exists>ctx pem. from_install_config cfg = Inr ctx \<and> validate_token sha now out token d = Inr () \<and> rd = None \<and>
      fs (cx_ca_cert_path ctx) = Some pem \<and> ct = os_content_type os \<and>
      body = render_install_script (tmpl os) ctx token (trim_end pem) (unwrap_or [] install_ref))"
  by (auto simp: render_for_def res_bind_Inr_iff map_err_def fs_read_def ok_or_def split: sum.splits option.splits)

text \<open>C27: a script that is served is its template with every hole filled by the value of its name, and with
  nothing else changed, when no value but the certificate has two braces in a row.\<close>

theorem script_is_filled_template:
  assumes "render_for tmpl sha now out rd fs cfg os token install_ref d = Inr (ct, body)"
    and "tmpl os = template_text ps" "list_all piece_ok ps"
    and "\<And>v. v \<in> {unwrap_or [] (ic_public_grpc_endpoint cfg), unwrap_or [] (ic_public_rest_base_url cfg),
      unwrap_or [] (ic_agent_release_tag cfg), token, unwrap_or [] install_ref} \<Longrightarrow> plain v"
  shows "\<exists>ctx pem. from_install_config cfg = Inr ctx \<and> fs (ic_ca_cert_path cfg) = Some pem \<and>
    validate_token sha now out token d = Inr () \<and>
    body = concat (map (piece_value (script_values ctx token (trim_end pem) (unwrap_or [] install_ref))) ps)"
proof -
  obtain ctx pem where r: "from_install_config cfg = Inr ctx" "validate_token sha now out token d = Inr ()"
    "fs (cx_ca_cert_path ctx) = Some pem"
    "body = render_install_script (template_text ps) ctx token (trim_end pem) (unwrap_or [] install_ref)"
    using assms(1,2) by (auto simp: render_for_Inr)
  have c: "cx_ca_cert_path ctx = ic_ca_cert_path cfg" "cx_manager_endpoint ctx = unwrap_or [] (ic_public_grpc_endpoint cfg)"
    "cx_install_base_url ctx = unwrap_or [] (ic_public_rest_base_url cfg)"
    "cx_release_tag ctx = unwrap_or [] (ic_agent_release_tag cfg)"
    using r(1) by (auto simp: from_install_config_def Let_def split: if_splits option.splits)
  have "body = concat (map (piece_value (script_values ctx token (trim_end pem) (unwrap_or [] install_ref))) ps)"
    unfolding r(4) using assms(4) by (intro render_fills assms(3)) (simp_all add: c)
  with r c show ?thesis by auto
qed

text \<open>The assignments of \<open>install_linux.sh.tpl\<close>. The character 39 is the quote of the shell.\<close>

definition assigned :: "string \<Rightarrow> piece list" where
  "assigned name = [Txt (lit name @ lit ''='' @ [39]), Hole (lit name), Txt [39, 10]]"

definition linux_values :: "piece list" where
  "linux_values =
     assigned ''MANAGER_ENDPOINT'' @ assigned ''INSTALL_BASE_URL'' @ assigned ''ENROLLMENT_TOKEN'' @
     assigned ''RELEASE_TAG'' @ assigned ''PACKAGE_VERSION'' @ assigned ''RELEASES_BASE'' @
     [Txt (lit ''# Phase 3: build-from-source mode (ustawiane przez ?ref=<branch> query param).'' @ [10]),
      Txt (lit ''# Pusty = standardowy flow z prebuilt .deb/.rpm. Set = clone branch + cargo build.'' @ [10])] @
     assigned ''INSTALL_REF''"

definition sample_install :: install_config where
  "sample_install = \<lparr>ic_public_grpc_endpoint = Some (lit ''m:5443''), ic_public_rest_base_url = Some (lit ''https://m''),
     ic_agent_release_tag = Some (lit ''v1''), ic_ca_cert_path = lit ''ca''\<rparr>"

definition sample_ref :: rstr where
  "sample_ref = [39] @ lit ''; reboot; '' @ [39]"

lemma linux_values_ok: "list_all piece_ok linux_values"
  by (simp add: linux_values_def assigned_def name_ok_def lit_def)

lemma sample_token_valid: "validate_token id 50 None (lit ''t'') one_use_db = Inr ()"
  by (simp add: validate_token_def install_sha256_hex_def sha256_hex_def one_use_token)

lemma sample_render:
  "\<exists>ct body. render_for (\<lambda>_. template_text linux_values) id 50 None None (\<lambda>_. Some (lit ''ca''))
     sample_install Linux (lit ''t'') (Some sample_ref) one_use_db = Inr (ct, body)"
  by (simp add: render_for_def from_install_config_def sample_install_def sample_token_valid fs_read_def)

lemma sample_plain:
  assumes "v \<in> {unwrap_or [] (ic_public_grpc_endpoint sample_install), unwrap_or [] (ic_public_rest_base_url sample_install),
      unwrap_or [] (ic_agent_release_tag sample_install), lit ''t'', unwrap_or [] (Some sample_ref)}"
  shows "plain v"
  using assms by (auto simp: sample_install_def sample_ref_def lit_def)

theorem script_is_filled_template_witness:
  "\<exists>ct body. render_for (\<lambda>_. template_text linux_values) id 50 None None (\<lambda>_. Some (lit ''ca''))
     sample_install Linux (lit ''t'') (Some sample_ref) one_use_db = Inr (ct, body) \<and>
   (\<exists>ctx. body = concat (map (piece_value (script_values ctx (lit ''t'') (trim_end (lit ''ca'')) sample_ref)) linux_values))"
proof -
  obtain ct body where r: "render_for (\<lambda>_. template_text linux_values) id 50 None None (\<lambda>_. Some (lit ''ca''))
     sample_install Linux (lit ''t'') (Some sample_ref) one_use_db = Inr (ct, body)"
    using sample_render by blast
  from script_is_filled_template [OF r refl linux_values_ok sample_plain] r show ?thesis by auto
qed

text \<open>The values are substituted one after the other, so a hole inside a value is filled as well: of a \<open>ref\<close> that
  reads \<open>{{CA_PEM}}\<close> the script has the certificate.\<close>

lemma ref_is_filled_again:
  "render_install_script (placeholder (lit ''INSTALL_REF'')) ctx token ca (placeholder (lit ''CA_PEM'')) = ca"
  by (simp add: render_install_script_def replace_chain_def script_values_def placeholder_def lit_def)

text \<open>The \<open>ref\<close> of the query goes between the quotes of the script as it is, so it can close them: whatever it
  holds, the Linux script, which is run as root, has it there unescaped.\<close>

theorem install_ref_is_not_quoted:
  assumes "list_all piece_ok pre" "list_all piece_ok post" "plain install_ref"
    and "\<And>v. v \<in> {cx_manager_endpoint ctx, cx_install_base_url ctx, token, cx_release_tag ctx} \<Longrightarrow> plain v"
  shows "\<exists>a b. render_install_script (template_text (pre @ linux_values @ post)) ctx token ca install_ref =
    a @ lit ''INSTALL_REF='' @ [39] @ install_ref @ [39, 10] @ b"
proof -
  let ?pv = "piece_value (script_values ctx token ca install_ref)"
  define front where "front = assigned ''MANAGER_ENDPOINT'' @ assigned ''INSTALL_BASE_URL'' @ assigned ''ENROLLMENT_TOKEN'' @
     assigned ''RELEASE_TAG'' @ assigned ''PACKAGE_VERSION'' @ assigned ''RELEASES_BASE'' @
     [Txt (lit ''# Phase 3: build-from-source mode (ustawiane przez ?ref=<branch> query param).'' @ [10]),
      Txt (lit ''# Pusty = standardowy flow z prebuilt .deb/.rpm. Set = clone branch + cargo build.'' @ [10])]"
  have "?pv (Hole (lit ''INSTALL_REF'')) = install_ref" by (simp add: script_values_def)
  then have "concat (map ?pv (assigned ''INSTALL_REF'')) = lit ''INSTALL_REF='' @ [39] @ install_ref @ [39, 10]"
    by (simp add: assigned_def lit_def)
  moreover have "concat (map ?pv linux_values) = concat (map ?pv front) @ concat (map ?pv (assigned ''INSTALL_REF''))"
    by (simp only: linux_values_def front_def map_append concat_append append_assoc)
  ultimately have "concat (map ?pv (pre @ linux_values @ post)) =
      concat (map ?pv (pre @ front)) @ lit ''INSTALL_REF='' @ [39] @ install_ref @ [39, 10] @ concat (map ?pv post)"
    by (simp only: map_append concat_append append_assoc)
  moreover have "render_install_script (template_text (pre @ linux_values @ post)) ctx token ca install_ref =
      concat (map ?pv (pre @ linux_values @ post))"
    using assms linux_values_ok by (intro render_fills) auto
  ultimately show ?thesis by metis
qed

section \<open>What a token is good for\<close>

lemma install_create_ok:
  assumes "install_create env cfg c req d = (Inr resp, d')"
  obtains os who where "cl_role c = lit ''admin''" "os_parse (iq_target_os req) = Some os"
    "ir_token resp = iv_show_uuid env (iv_new_uuid env)" "ir_expires_at resp = iv_after_hours env 24"
    "install_sha256_hex (iv_sha env) (ir_token resp) \<notin> et_token_hash ` set (db_enrollment d)"
    "d' = d\<lparr>db_enrollment := db_enrollment d @ [\<lparr>et_token_hash = install_sha256_hex (iv_sha env) (ir_token resp),
       et_description = Some (unwrap_or (lit ''install API ('' @ os_label os @ lit '') by '' @ cl_username c)
         (iq_description req)), et_expires_at = Some (ir_expires_at resp), et_max_uses = Some 1, et_uses_count = 0,
       et_created_by = Some who\<rparr>]\<rparr>"
proof -
  obtain os who where k: "cl_role c = lit ''admin''" "os_parse (iq_target_os req) = Some os" "iv_parse_uuid env (cl_sub c) = Some who"
    using assms by (cases "os_parse (iq_target_os req)"; cases "iv_parse_uuid env (cl_sub c)")
      (auto simp: install_create_def require_admin_def Let_def split: if_splits)
  show thesis
  proof (rule that [of os who])
    show "ir_token resp = iv_show_uuid env (iv_new_uuid env)" "ir_expires_at resp = iv_after_hours env 24"
      "install_sha256_hex (iv_sha env) (ir_token resp) \<notin> et_token_hash ` set (db_enrollment d)"
      "d' = d\<lparr>db_enrollment := db_enrollment d @ [\<lparr>et_token_hash = install_sha256_hex (iv_sha env) (ir_token resp),
       et_description = Some (unwrap_or (lit ''install API ('' @ os_label os @ lit '') by '' @ cl_username c)
         (iq_description req)), et_expires_at = Some (ir_expires_at resp), et_max_uses = Some 1, et_uses_count = 0,
       et_created_by = Some who\<rparr>]\<rparr>"
      using assms k by (auto simp: install_create_def require_admin_def insert_token_def INSTALL_TOKEN_TTL_HOURS_def Let_def
          split: option.splits if_splits)
  qed (use k in auto)
qed

lemma find_token_append:
  "find_token h (d\<lparr>db_enrollment := rs @ [t]\<rparr>) =
     (case find (\<lambda>r. et_token_hash r = h) rs of Some r \<Rightarrow> Some r | None \<Rightarrow> if et_token_hash t = h then Some t else None)"
  by (induction rs) (auto simp: find_token_def)

lemma install_create_token:
  assumes "install_create env cfg c req d = (Inr resp, d')"
  shows "\<exists>t. find_token (install_sha256_hex (iv_sha env) (ir_token resp)) d' = Some t \<and> et_max_uses t = Some 1 \<and>
    et_uses_count t = 0 \<and> et_expires_at t = Some (ir_expires_at resp)"
  using assms
proof (rule install_create_ok)
  fix os who
  let ?h = "install_sha256_hex (iv_sha env) (ir_token resp)"
  assume new: "?h \<notin> et_token_hash ` set (db_enrollment d)"
  assume d': "d' = d\<lparr>db_enrollment := db_enrollment d @ [\<lparr>et_token_hash = ?h,
       et_description = Some (unwrap_or (lit ''install API ('' @ os_label os @ lit '') by '' @ cl_username c)
         (iq_description req)), et_expires_at = Some (ir_expires_at resp), et_max_uses = Some 1, et_uses_count = 0,
       et_created_by = Some who\<rparr>]\<rparr>"
  have "find (\<lambda>r. et_token_hash r = ?h) (db_enrollment d) = None"
    using new by (force simp: find_None_iff)
  then show ?thesis unfolding d' find_token_append by simp
qed

text \<open>An enrollment that would succeed with any valid token: its request is well-formed, the CA signs it, the
  database is up and the new row meets the constraints.\<close>

definition enrollable :: "enroll_env \<Rightarrow> enroll_request \<Rightarrow> db \<Rightarrow> bool" where
  "enrollable env req d \<longleftrightarrow> en_lookup env = None \<and>
     (case eq_info req of None \<Rightarrow> False | Some info \<Rightarrow> \<not> isl (fst (enroll_finish env req info d)))"

lemma enroll_enrollable:
  assumes "enrollable env req d" "find_token (token_hash env req) d = Some t" "token_check (en_now env) t = Inr ()"
  shows "\<not> isl (fst (enroll env req d))"
  using assms by (auto simp: enrollable_def enroll_def enroll_check_def split: option.splits)

text \<open>C15: among enrollments one after the other, a token an administrator issues enrolls exactly one agent, whatever else
  enrolls before, between and after, if the first enrollment that shows it is in order and comes before the token
  expires, and if the manager counts the uses of this token. The token itself is not stored, only its hash.\<close>

theorem install_token_enrolls_once:
  assumes "install_create env cfg c req d = (Inr resp, d1)" "h = install_sha256_hex (iv_sha env) (ir_token resp)"
    and "enroll_seq (pre @ (e, r) # post) d1 = (out, d2)" "enroll_seq pre d1 = (out0, d0)"
    and "\<forall>(e', r') \<in> set pre. token_hash e' r' \<noteq> h"
    and "\<forall>(e', r') \<in> set ((e, r) # post). token_hash e' r' = h \<longrightarrow> en_increment e' = None"
    and "en_sha e = iv_sha env" "eq_enrollment_token r = ir_token resp" "en_now e \<le> ir_expires_at resp" "enrollable e r d0"
  shows "enrolled_with h out = 1 \<and>
    cl_role c = lit ''admin'' \<and> (en_now e < ir_expires_at resp \<longrightarrow>
      validate_token (iv_sha env) (en_now e) None (ir_token resp) d1 = Inr ())"
proof -
  obtain t where t: "find_token h d1 = Some t" "et_max_uses t = Some 1" "et_uses_count t = 0"
    "et_expires_at t = Some (ir_expires_at resp)"
    using install_create_token [OF assms(1)] unfolding assms(2) by blast
  have h: "token_hash e r = h" by (simp add: assms(2) token_hash_def install_sha256_hex_def assms(7,8))
  have t0: "find_token h d0 = Some t" "enrolled_with h out0 = 0" using enroll_seq_others [OF assms(4,5) t(1)] by simp_all
  obtain out1 where s: "enroll_seq ((e, r) # post) d0 = (out1, d2)" "out = out0 @ out1"
    using assms(3,4) by (auto simp: enroll_seq_append simp del: enroll_seq.simps split: prod.splits)
  have "token_check (en_now e) t = Inr ()" using t assms(9) by (simp add: token_check_def)
  then have "\<not> isl (fst (enroll e r d0))" using enroll_enrollable [OF assms(10)] t0(1) h by simp
  then have "1 \<le> enrolled_with h out1"
    using s(1) h by (auto simp: Let_def split: prod.splits)
  moreover have "int (enrolled_with h out1) \<le> 1 - 0 + int (uncounted h ((e, r) # post) out1)"
    using enrolled_with_bound [OF s(1) t0(1) t(2)] t(3) by (simp add: is_i32_def)
  moreover have "uncounted h ((e, r) # post) out1 = 0" by (rule all_counted [OF s(1) assms(6)])
  moreover have "cl_role c = lit ''admin''" using assms(1) by (rule install_create_ok)
  ultimately show ?thesis using t t0(2) s(2) assms(2) by (simp add: validate_token_def)
qed

definition sample_install_env :: install_env where
  "sample_install_env = \<lparr>iv_sha = id, iv_show_uuid = \<lambda>_. lit ''t'', iv_parse_uuid = \<lambda>_. Some 5, iv_new_uuid = 9,
     iv_after_hours = \<lambda>h. 200, iv_insert = None\<rparr>"

theorem install_token_enrolls_once_witness:
  "\<exists>resp d1. install_create sample_install_env sample_install sample_claims
       \<lparr>iq_target_os = lit ''Linux'', iq_description = None\<rparr> empty_db = (Inr resp, d1) \<and>
     enrolled_with (hex_bytes (as_bytes (lit ''t'')))
       (fst (enroll_seq [(sample_env 1, sample_request), (sample_env 2, sample_request)] d1)) = 1"
proof -
  have "os_parse (lit ''Linux'') = Some Linux" by code_simp
  then obtain resp d1 where r: "install_create sample_install_env sample_install sample_claims
       \<lparr>iq_target_os = lit ''Linux'', iq_description = None\<rparr> empty_db = (Inr resp, d1)"
    and x: "ir_token resp = lit ''t''" "ir_expires_at resp = 200" "db_agents d1 = []"
    by (simp add: install_create_def require_admin_def sample_claims_def sample_install_env_def empty_db_def
        insert_token_def Let_def)
  obtain out d2 where s: "enroll_seq [(sample_env 1, sample_request), (sample_env 2, sample_request)] d1 = (out, d2)"
    by fastforce
  have "enrollable (sample_env 1) sample_request d1"
    using x(3) by (simp add: enrollable_def sample_enroll Let_def)
  with install_token_enrolls_once [OF r refl, where pre = "[]" and e = "sample_env 1" and r = sample_request
      and post = "[(sample_env 2, sample_request)]"] s x
  have "enrolled_with (install_sha256_hex (iv_sha sample_install_env) (ir_token resp)) out = 1"
    by (simp add: sample_env_def sample_install_env_def sample_request_def)
  then show ?thesis using r s x by (auto simp: sample_install_env_def install_sha256_hex_def sha256_hex_def)
qed

end
