(* ===== verification/Cli.thy ===== *)
theory Cli
  imports Ca Install
begin

text \<open>
  The command line tool \<open>scroogectl\<close>, \<open>scrooge-cli/src/main.rs\<close>: making the certificate authority, the first
  administrator and enrollment tokens. The connection to the database and the migrations are parameters,
  as are bcrypt, SHA-256, UUIDs and the clock; file permissions are a map beside the files.
\<close>

section \<open>init-ca\<close>

datatype cli_error =
    CMkdir rstr | CCa ca_error | CWrite rstr | CChmod rstr | CConfig config_error | CConnect rstr | CMigrate rstr
  | CPassword | CHash rstr | CSql sqlx_error

text \<open>The outcomes of the steps: the directory, the four files, the two changes of permissions.\<close>

record init_outcome =
  io_mkdir :: "rstr option"
  io_ca_pem :: "(rstr \<times> rstr option) option"
  io_ca_key :: "(rstr \<times> rstr option) option"
  io_server_pem :: "(rstr \<times> rstr option) option"
  io_server_key :: "(rstr \<times> rstr option) option"
  io_chmod_ca :: "rstr option"
  io_chmod_server :: "rstr option"

type_synonym modes = "rstr \<Rightarrow> nat option"

definition set_mode :: "rstr option \<Rightarrow> rstr \<Rightarrow> nat \<Rightarrow> modes \<Rightarrow> (cli_error + unit) \<times> modes" where
  "set_mode out p mode ms = (case out of Some e \<Rightarrow> (Inl (CChmod e), ms) | None \<Rightarrow> (Inr (), ms(p := Some mode)))"

definition ca_pem_path :: "rstr \<Rightarrow> rstr" where "ca_pem_path out = path_join out (lit ''ca.pem'')"
definition ca_key_path :: "rstr \<Rightarrow> rstr" where "ca_key_path out = path_join out (lit ''ca.key'')"
definition server_pem_path :: "rstr \<Rightarrow> rstr" where "server_pem_path out = path_join out (lit ''server.pem'')"
definition server_key_path :: "rstr \<Rightarrow> rstr" where "server_key_path out = path_join out (lit ''server.key'')"

text \<open>\<open>Path::exists\<close>; 384 is octal 600.\<close>

definition any_exists :: "rstr \<Rightarrow> rstr files \<Rightarrow> bool" where
  "any_exists out fs \<longleftrightarrow> fs (ca_pem_path out) \<noteq> None \<or> fs (ca_key_path out) \<noteq> None \<or>
     fs (server_pem_path out) \<noteq> None \<or> fs (server_key_path out) \<noteq> None"

definition init_ca ::
  "('k, 'c) rcgen \<Rightarrow> rstr + 'k \<Rightarrow> rstr + 'k \<Rightarrow> init_outcome \<Rightarrow> rstr \<Rightarrow> rstr \<Rightarrow> rstr \<Rightarrow> rstr list \<Rightarrow> bool \<Rightarrow>
   rstr files \<Rightarrow> modes \<Rightarrow> (cli_error + unit) \<times> rstr files \<times> modes" where
  "init_ca rg ca_new server_new io out ca_cn server_cn san force fs ms =
     (case io_mkdir io of Some e \<Rightarrow> (Inl (CMkdir e), fs, ms) | None \<Rightarrow>
      if any_exists out fs \<and> \<not> force then (Inr (), fs, ms)
      else
     (case ca_generate rg ca_new ca_cn of
        Inl e \<Rightarrow> (Inl (CCa e), fs, ms)
      | Inr ca \<Rightarrow>
     (case ca_save_to_files (io_ca_pem io) (io_ca_key io) ca (ca_pem_path out) (ca_key_path out) fs of
        (Inl e, fs) \<Rightarrow> (Inl (CCa e), fs, ms)
      | (Inr _, fs) \<Rightarrow>
     (case generate_server_csr rg server_new server_cn san of
        Inl e \<Rightarrow> (Inl (CCa e), fs, ms)
      | Inr (csr_pem, server_key_pem) \<Rightarrow>
     (case sign_csr rg ca csr_pem of
        Inl e \<Rightarrow> (Inl (CCa e), fs, ms)
      | Inr server_cert_pem \<Rightarrow>
     (case fs_write (io_server_pem io) (server_pem_path out) server_cert_pem fs of
        (Inl e, fs) \<Rightarrow> (Inl (CWrite e), fs, ms)
      | (Inr _, fs) \<Rightarrow>
     (case fs_write (io_server_key io) (server_key_path out) server_key_pem fs of
        (Inl e, fs) \<Rightarrow> (Inl (CWrite e), fs, ms)
      | (Inr _, fs) \<Rightarrow>
     (case set_mode (io_chmod_ca io) (ca_key_path out) 384 ms of
        (Inl e, ms) \<Rightarrow> (Inl e, fs, ms)
      | (Inr _, ms) \<Rightarrow>
     (case set_mode (io_chmod_server io) (server_key_path out) 384 ms of
        (Inl e, ms) \<Rightarrow> (Inl e, fs, ms)
      | (Inr _, ms) \<Rightarrow> (Inr (), fs, ms))))))))))"

section \<open>bootstrap-admin\<close>

text \<open>\<open>INSERT ... ON CONFLICT (username) DO NOTHING\<close>; the answer is the number of rows. The id is the
  column's default.\<close>

definition insert_user :: "outcome \<Rightarrow> uuid \<Rightarrow> rstr \<Rightarrow> rstr \<Rightarrow> rstr \<Rightarrow> db \<Rightarrow> (sqlx_error + nat) \<times> db" where
  "insert_user out new_id username hash role d =
     (case out of Some e \<Rightarrow> (Inl (SqlDriver e), d) | None \<Rightarrow>
      if username \<in> us_username ` set (db_users d) then (Inr 0, d)
      else if new_id \<in> us_id ` set (db_users d) then (Inl (SqlConstraint (lit ''users_pkey'')), d)
      else (Inr 1, d\<lparr>db_users := db_users d @ [\<lparr>us_id = new_id, us_username = username, us_password_hash = hash,
             us_role = role, us_last_login = None, us_enabled = True\<rparr>]\<rparr>))"

definition BCRYPT_COST :: u32 where
  "BCRYPT_COST = 12"

definition hash_password :: "(rstr \<Rightarrow> u32 \<Rightarrow> rstr + rstr) \<Rightarrow> rstr \<Rightarrow> rstr + rstr" where
  "hash_password bcrypt_hash password = bcrypt_hash password BCRYPT_COST"

definition bootstrap_admin ::
  "(rstr \<Rightarrow> u32 \<Rightarrow> rstr + rstr) \<Rightarrow> outcome \<Rightarrow> uuid \<Rightarrow> rstr \<Rightarrow> rstr \<Rightarrow> db \<Rightarrow> (cli_error + nat) \<times> db" where
  "bootstrap_admin bcrypt_hash out new_id username password d =
     (if blen password < 8 then (Inl CPassword, d)
      else case hash_password bcrypt_hash password of
        Inl e \<Rightarrow> (Inl (CHash e), d)
      | Inr hash \<Rightarrow>
          (case insert_user out new_id username hash (lit ''admin'') d of
             (Inl e, d) \<Rightarrow> (Inl (CSql e), d)
           | (Inr rows_affected, d) \<Rightarrow> (Inr rows_affected, d)))"

section \<open>gen-token\<close>

text \<open>\<open>gt_after_days d\<close> is \<open>Utc::now() + Duration::days(d)\<close>, \<open>None\<close> where chrono panics; an \<open>i32\<close> is the
  word read as signed. The answer is the token printed, \<open>None\<close> being that panic.\<close>

record gen_env =
  gt_sha :: "u8 list \<Rightarrow> u8 list"
  gt_show_uuid :: "uuid \<Rightarrow> rstr"
  gt_new_uuid :: uuid
  gt_after_days :: "int \<Rightarrow> int option"
  gt_insert :: outcome

definition gen_token :: "gen_env \<Rightarrow> rstr option \<Rightarrow> u32 option \<Rightarrow> int \<Rightarrow> db \<Rightarrow> (cli_error + rstr) option \<times> db" where
  "gen_token env description max_uses valid_days d =
     (let raw = gt_show_uuid env (gt_new_uuid env);
          hash = sha256_hex (gt_sha env) (as_bytes raw)
      in case gt_after_days env valid_days of
           None \<Rightarrow> (None, d)
         | Some expires_at \<Rightarrow>
             (case insert_token (gt_insert env) \<lparr>et_token_hash = hash, et_description = description,
                  et_expires_at = Some expires_at, et_max_uses = map_option sint max_uses, et_uses_count = 0, et_created_by = None\<rparr> d of
                (Inl e, d) \<Rightarrow> (Some (Inl (CSql e)), d)
              | (Inr _, d) \<Rightarrow> (Some (Inr raw), d)))"

section \<open>The tool\<close>

datatype cli_command =
    InitCa rstr rstr rstr "rstr list" bool
  | Migrate
  | BootstrapAdmin rstr rstr
  | GenToken "rstr option" "u32 option" int

definition open_pool ::
  "(rstr \<Rightarrow> rstr + raw_manager_config) \<Rightarrow> (rstr \<Rightarrow> rstr + unit) \<Rightarrow> rstr option \<Rightarrow> rstr \<Rightarrow> rstr files \<Rightarrow> cli_error + unit" where
  "open_pool parse connect rd path fs =
     res_bind (map_err CConfig (manager_config_load parse rd path fs)) (\<lambda>config.
     map_err CConnect (connect (dc_url (mc_database config))))"

record ('k, 'c) cli_env =
  ci_rg :: "('k, 'c) rcgen"
  ci_ca_key :: "rstr + 'k"
  ci_server_key :: "rstr + 'k"
  ci_init :: init_outcome
  ci_pool :: "cli_error + unit"
  ci_migrate :: "db \<Rightarrow> (rstr + unit) \<times> db"
  ci_bcrypt :: "rstr \<Rightarrow> u32 \<Rightarrow> rstr + rstr"
  ci_insert_user :: outcome
  ci_user_id :: uuid
  ci_gen :: gen_env

text \<open>\<open>ci_pool\<close> is the result of \<open>open_pool\<close> on the configuration path of the arguments.\<close>

definition cli_main ::
  "('k, 'c) cli_env \<Rightarrow> cli_command \<Rightarrow> rstr files \<Rightarrow> modes \<Rightarrow> db \<Rightarrow> (cli_error + unit) option \<times> rstr files \<times> modes \<times> db" where
  "cli_main env cmd fs ms d =
     (case cmd of
        InitCa out ca_cn server_cn san force \<Rightarrow>
          (case init_ca (ci_rg env) (ci_ca_key env) (ci_server_key env) (ci_init env) out ca_cn server_cn san force fs ms of
             (r, fs, ms) \<Rightarrow> (Some r, fs, ms, d))
      | Migrate \<Rightarrow>
          (case ci_pool env of Inl e \<Rightarrow> (Some (Inl e), fs, ms, d)
           | Inr _ \<Rightarrow> (case ci_migrate env d of (r, d) \<Rightarrow> (Some (map_err CMigrate r), fs, ms, d)))
      | BootstrapAdmin username password \<Rightarrow>
          (case ci_pool env of Inl e \<Rightarrow> (Some (Inl e), fs, ms, d)
           | Inr _ \<Rightarrow> (case bootstrap_admin (ci_bcrypt env) (ci_insert_user env) (ci_user_id env) username password d of
               (r, d) \<Rightarrow> (Some (res_bind r (\<lambda>_. Inr ())), fs, ms, d)))
      | GenToken description max_uses valid_days \<Rightarrow>
          (case ci_pool env of Inl e \<Rightarrow> (Some (Inl e), fs, ms, d)
           | Inr _ \<Rightarrow> (case gen_token (ci_gen env) description max_uses valid_days d of
               (r, d) \<Rightarrow> (map_option (\<lambda>r. res_bind r (\<lambda>_. Inr ())) r, fs, ms, d))))"

section \<open>What the tool leaves behind\<close>

lemma init_paths:
  "distinct [ca_pem_path out, ca_key_path out, server_pem_path out, server_key_path out]"
  by (simp add: ca_pem_path_def ca_key_path_def server_pem_path_def server_key_path_def path_join_inj lit_def)

definition init_files :: "rstr \<Rightarrow> rstr set" where
  "init_files out = {ca_pem_path out, ca_key_path out, server_pem_path out, server_key_path out}"

lemma fs_write_other: "fs_write w p c fs = (r, fs') \<Longrightarrow> q \<noteq> p \<Longrightarrow> fs' q = fs q"
  by (auto simp: fs_write_def split: option.splits)

lemma ca_save_other:
  "ca_save_to_files wc wk ca cp kp fs = (r, fs') \<Longrightarrow> q \<noteq> cp \<Longrightarrow> q \<noteq> kp \<Longrightarrow> fs' q = fs q"
  by (auto simp: ca_save_to_files_def dest!: fs_write_other [of _ _ _ _ _ _ q] split: prod.splits sum.splits)

lemma init_ca_skips:
  "io_mkdir io = None \<Longrightarrow> any_exists out fs \<Longrightarrow> init_ca rg k1 k2 io out cn scn san False fs ms = (Inr (), fs, ms)"
  by (simp add: init_ca_def)

lemma init_ca_other:
  assumes "init_ca rg k1 k2 io out cn scn san force fs ms = (r, fs', ms')" "q \<notin> init_files out"
  shows "fs' q = fs q"
  using assms
  by (auto simp: init_ca_def init_files_def dest!: fs_write_other [of _ _ _ _ _ _ q] ca_save_other [of _ _ _ _ _ _ _ _ q]
      split: option.splits if_splits sum.splits prod.splits)

lemma init_ca_done:
  assumes "init_ca rg k1 k2 io out cn scn san force fs ms = (Inr (), fs', ms')" "\<not> any_exists out fs \<or> force"
  shows "\<exists>ca csr_pem cert key. ca_generate rg k1 cn = Inr ca \<and> generate_server_csr rg k2 scn san = Inr (csr_pem, key) \<and>
    sign_csr rg ca csr_pem = Inr cert \<and>
    fs' = fs(ca_pem_path out \<mapsto> rc_cert_pem ca, ca_key_path out \<mapsto> rc_key_pem ca, server_pem_path out \<mapsto> cert,
      server_key_path out \<mapsto> key) \<and>
    ms' = ms(ca_key_path out \<mapsto> 384, server_key_path out \<mapsto> 384)"
proof -
  from assms obtain ca where ca: "ca_generate rg k1 cn = Inr ca"
    by (auto simp: init_ca_def split: option.splits sum.splits)
  obtain q fs1 where s: "ca_save_to_files (io_ca_pem io) (io_ca_key io) ca (ca_pem_path out) (ca_key_path out) fs = (q, fs1)"
    by fastforce
  have q: "q = Inr ()" using assms ca s by (cases q) (auto simp: init_ca_def split: option.splits)
  from assms ca s q obtain csr_pem key where c: "generate_server_csr rg k2 scn san = Inr (csr_pem, key)"
    by (auto simp: init_ca_def split: option.splits sum.splits)
  from assms ca s q c obtain cert where g: "sign_csr rg ca csr_pem = Inr cert"
    by (auto simp: init_ca_def split: option.splits sum.splits)
  have s1: "fs1 = fs(ca_pem_path out \<mapsto> rc_cert_pem ca, ca_key_path out \<mapsto> rc_key_pem ca)"
    using s q by (auto simp: ca_save_to_files_def fs_write_def split: option.splits)
  have "fs' = fs1(server_pem_path out \<mapsto> cert, server_key_path out \<mapsto> key) \<and>
      ms' = ms(ca_key_path out \<mapsto> 384, server_key_path out \<mapsto> 384)"
    using assms ca s q c g by (auto simp: init_ca_def fs_write_def set_mode_def split: option.splits)
  then show ?thesis using ca c g s1 by auto
qed

text \<open>C23: \<open>init-ca\<close> writes nothing but its four files; it leaves existing ones alone unless forced; and when it
  makes new ones it leaves a CA that loads with its own key, a server certificate this key has signed, and
  both private keys readable by their owner only.\<close>

theorem init_ca_safe:
  assumes "init_ca rg k1 k2 io out cn scn san force fs ms = (r, fs', ms')"
    and rcgen: "\<And>k. rg_key_from_pem rg (rg_key_pem rg k) = Inr k"
      "\<And>p k c. rg_self_signed rg p k = Inr c \<Longrightarrow> \<exists>q d. rg_params_from_ca_pem rg (rg_cert_pem rg c) = Inr q \<and> rg_self_signed rg q k = Inr d"
  shows "(\<forall>p. p \<notin> init_files out \<longrightarrow> fs' p = fs p) \<and>
    (any_exists out fs \<and> \<not> force \<longrightarrow> fs' = fs \<and> ms' = ms) \<and>
    (r = Inr () \<and> (\<not> any_exists out fs \<or> force) \<longrightarrow>
      ms' (ca_key_path out) = Some 384 \<and> ms' (server_key_path out) = Some 384 \<and>
      (\<exists>key ca ca' csr_pem cert. k1 = Inr key \<and> ca_generate rg k1 cn = Inr ca \<and>
        ca_load_from_files rg (\<lambda>_. None) (ca_pem_path out) (ca_key_path out) fs' = Inr ca' \<and> rc_key_pair ca' = key \<and>
        fs' (server_pem_path out) = Some cert \<and> sign_csr rg ca csr_pem = Inr cert \<and> rc_key_pair ca = key \<and>
        (\<exists>server_key. k2 = Inr server_key \<and> fs' (server_key_path out) = Some (rg_key_pem rg server_key))))"
proof (intro conjI allI impI)
  show "fs' p = fs p" if "p \<notin> init_files out" for p using init_ca_other [OF assms(1) that] .
  show "fs' = fs" "ms' = ms" if "any_exists out fs \<and> \<not> force"
    using assms(1) that by (auto simp: init_ca_def split: option.splits)
  assume ok: "r = Inr () \<and> (\<not> any_exists out fs \<or> force)"
  then obtain ca csr_pem cert key where d: "ca_generate rg k1 cn = Inr ca" "generate_server_csr rg k2 scn san = Inr (csr_pem, key)"
    "sign_csr rg ca csr_pem = Inr cert" and f: "fs' = fs(ca_pem_path out \<mapsto> rc_cert_pem ca, ca_key_path out \<mapsto> rc_key_pem ca,
      server_pem_path out \<mapsto> cert, server_key_path out \<mapsto> key)"
    and m: "ms' = ms(ca_key_path out \<mapsto> 384, server_key_path out \<mapsto> 384)"
    using init_ca_done [of rg k1 k2 io out cn scn san force fs ms fs' ms'] assms(1) by blast
  show "ms' (ca_key_path out) = Some 384" "ms' (server_key_path out) = Some 384"
    using init_paths [of out] by (simp_all add: m)
  obtain p k c where k: "k1 = Inr k" "rg_self_signed rg p k = Inr c" "rc_key_pair ca = k"
    "rc_cert_pem ca = rg_cert_pem rg c" "rc_key_pem ca = rg_key_pem rg k"
    using d(1) by (auto simp: ca_generate_def res_bind_Inr_iff rcgen_err_Inr Let_def)
  obtain q e where q: "rg_params_from_ca_pem rg (rg_cert_pem rg c) = Inr q" "rg_self_signed rg q k = Inr e"
    using rcgen(2) [OF k(2)] by blast
  obtain sk where sk: "k2 = Inr sk" "key = rg_key_pem rg sk"
    using d(2) by (auto simp: generate_server_csr_def res_bind_Inr_iff rcgen_err_Inr Let_def)
  have "fs' (ca_pem_path out) = Some (rg_cert_pem rg c)" "fs' (ca_key_path out) = Some (rg_key_pem rg k)"
    "fs' (server_pem_path out) = Some cert" "fs' (server_key_path out) = Some key"
    using init_paths [of out] k by (auto simp: f)
  then show "\<exists>key ca ca' csr_pem cert. k1 = Inr key \<and> ca_generate rg k1 cn = Inr ca \<and>
        ca_load_from_files rg (\<lambda>_. None) (ca_pem_path out) (ca_key_path out) fs' = Inr ca' \<and> rc_key_pair ca' = key \<and>
        fs' (server_pem_path out) = Some cert \<and> sign_csr rg ca csr_pem = Inr cert \<and> rc_key_pair ca = key \<and>
        (\<exists>server_key. k2 = Inr server_key \<and> fs' (server_key_path out) = Some (rg_key_pem rg server_key))"
    using d k q sk rcgen(1) by (auto simp: ca_load_from_files_def fs_read_def)
qed

definition all_written :: init_outcome where
  "all_written = \<lparr>io_mkdir = None, io_ca_pem = None, io_ca_key = None, io_server_pem = None, io_server_key = None,
     io_chmod_ca = None, io_chmod_server = None\<rparr>"

lemma sample_init_ca:
  assumes "\<not> any_exists (lit ''out'') fs"
  shows "\<exists>fs' ms'. init_ca sample_rcgen (Inr (lit ''k1'')) (Inr (lit ''k2'')) all_written (lit ''out'') (lit ''ca'') (lit ''m'') [] False
     fs (\<lambda>_. None) = (Inr (), fs', ms')"
proof -
  have "sign_csr sample_rcgen ca (lit ''csr'') = Inr []" for ca
    by (simp add: sign_csr_def sample_rcgen_def sample_cert_def)
  moreover have "generate_server_csr sample_rcgen (Inr (lit ''k2'')) (lit ''m'') [] = Inr (lit ''csr'', lit ''k2'')"
    by (simp add: generate_server_csr_def sample_rcgen_def Let_def)
  moreover obtain ca where "ca_generate sample_rcgen (Inr (lit ''k1'')) (lit ''ca'') = Inr ca"
    by (simp add: ca_generate_def sample_rcgen_def Let_def)
  ultimately show ?thesis using assms
    by (simp add: init_ca_def all_written_def ca_save_to_files_def fs_write_def set_mode_def)
qed

theorem init_ca_safe_witness:
  "\<exists>fs' ms' ca'. init_ca sample_rcgen (Inr (lit ''k1'')) (Inr (lit ''k2'')) all_written (lit ''out'') (lit ''ca'') (lit ''m'') [] False
     (\<lambda>_. None) (\<lambda>_. None) = (Inr (), fs', ms') \<and>
     ca_load_from_files sample_rcgen (\<lambda>_. None) (ca_pem_path (lit ''out'')) (ca_key_path (lit ''out'')) fs' = Inr ca' \<and>
     rc_key_pair ca' = lit ''k1'' \<and> ms' (ca_key_path (lit ''out'')) = Some 384"
proof -
  obtain fs' ms' where r: "init_ca sample_rcgen (Inr (lit ''k1'')) (Inr (lit ''k2'')) all_written (lit ''out'') (lit ''ca'') (lit ''m'')
      [] False (\<lambda>_. None) (\<lambda>_. None) = (Inr (), fs', ms')"
    using sample_init_ca [of "\<lambda>_. None"] by (auto simp: any_exists_def)
  have "rg_key_from_pem sample_rcgen (rg_key_pem sample_rcgen k) = Inr k" for k by (simp add: sample_rcgen_def)
  moreover have "rg_self_signed sample_rcgen p k = Inr c \<Longrightarrow>
      \<exists>q d. rg_params_from_ca_pem sample_rcgen (rg_cert_pem sample_rcgen c) = Inr q \<and> rg_self_signed sample_rcgen q k = Inr d" for p k c
    by (simp add: sample_rcgen_def)
  moreover have "\<not> any_exists (lit ''out'') (\<lambda>_. None)" by (simp add: any_exists_def)
  ultimately show ?thesis using init_ca_safe [OF r] r by auto
qed

text \<open>A run that fails after it wrote a file is not repeated: the next run finds the file and reports success.\<close>

lemma failed_init_ca_is_not_repeated:
  assumes "io_mkdir io = None" "io_ca_pem io = None" "io_ca_key io = Some (e, None)" "ca_generate rg k1 cn = Inr ca"
    and "\<not> any_exists out fs" "io_mkdir io2 = None"
    and "init_ca rg k1 k2 io out cn scn san False fs ms = (r, fs', ms')"
  shows "isl r \<and> fs' (ca_key_path out) = None \<and> init_ca rg k1 k2 io2 out cn scn san False fs' ms' = (Inr (), fs', ms')"
proof -
  have "isl r \<and> fs' = fs(ca_pem_path out \<mapsto> rc_cert_pem ca, ca_key_path out := None)"
    using assms by (auto simp: init_ca_def ca_save_to_files_def fs_write_def)
  moreover from this have "any_exists out fs'" using init_paths [of out] by (auto simp: any_exists_def)
  ultimately show ?thesis using init_ca_skips [OF assms(6)] by simp
qed

lemma bootstrap_admin_new:
  assumes "bootstrap_admin bh out i u p d = (Inr 1, d1)"
  obtains h where "bh p 12 = Inr h" "u \<notin> us_username ` set (db_users d)"
    "d1 = d\<lparr>db_users := db_users d @ [\<lparr>us_id = i, us_username = u, us_password_hash = h, us_role = lit ''admin'',
       us_last_login = None, us_enabled = True\<rparr>]\<rparr>" "8 \<le> blen p"
  using assms by (auto simp: bootstrap_admin_def insert_user_def hash_password_def BCRYPT_COST_def
      split: if_splits sum.splits option.splits)

text \<open>C22: the account \<open>bootstrap-admin\<close> creates can log in with its password, at once and with the administrator's
  role in its token; the tool run again changes nothing, whatever the password.\<close>

theorem bootstrapped_admin_logs_in:
  assumes "bootstrap_admin bh None i u p d = (Inr 1, d1)"
    and bcrypt: "\<And>h. bh p 12 = Inr h \<Longrightarrow> au_verify env p h = Inr True"
    and up: "au_select env = None" "au_update env = None" "au_insert env = None"
    and ttl: "i64_of_u64 (au_access_ttl env) = Some t1" "i64_of_u64 (au_refresh_ttl env) = Some t2" "au_after env t2 = Some x"
    and jwt: "au_encode env (token_claims env i u (lit ''admin'') t1) = Some jwt"
    and fresh: "hash_token (au_sha env) (au_show_uuid env (au_new_uuid env)) \<notin> rt_token_hash ` set (db_refresh d)"
  shows "(\<exists>resp d2. login env u p d1 = (Some (Inr resp), d2) \<and> lr_access_token resp = jwt) \<and>
    (8 \<le> blen p2 \<and> bh p2 12 = Inr h2 \<longrightarrow> bootstrap_admin bh None i2 u p2 d1 = (Inr 0, d1))"
proof -
  obtain h where h: "bh p 12 = Inr h" "u \<notin> us_username ` set (db_users d)"
    "d1 = d\<lparr>db_users := db_users d @ [\<lparr>us_id = i, us_username = u, us_password_hash = h, us_role = lit ''admin'',
       us_last_login = None, us_enabled = True\<rparr>]\<rparr>"
    using bootstrap_admin_new [OF assms(1)] by metis
  let ?a = "\<lparr>us_id = i, us_username = u, us_password_hash = h, us_role = lit ''admin'', us_last_login = None, us_enabled = True\<rparr>"
  have "find (\<lambda>r. us_username r = u) (db_users d) = None" using h(2) by (force simp: find_None_iff)
  then have "find (\<lambda>r. us_username r = u) (db_users d1) = Some ?a"
    unfolding h(3) by (simp add: find_append)
  then have c: "login_check env u p d1 = Inr ?a"
    using bcrypt [OF h(1)] up by (simp add: login_check_def verify_password_def)
  have "\<exists>resp d2. login env u p d1 = (Some (Inr resp), d2) \<and> lr_access_token resp = jwt"
    using c up ttl jwt fresh
    by (simp add: login_def issue_tokens_def insert_refresh_def set_last_login_def h(3) Let_def set_upd)
  moreover have "bootstrap_admin bh None i2 u p2 d1 = (Inr 0, d1)" if "8 \<le> blen p2" "bh p2 12 = Inr h2"
    using that by (simp add: bootstrap_admin_def hash_password_def BCRYPT_COST_def insert_user_def h(3))
  ultimately show ?thesis by blast
qed

definition sample_cli_auth :: auth_env where
  "sample_cli_auth = \<lparr>au_sha = id, au_encode = \<lambda>c. Some (cl_role c), au_verify = \<lambda>p h. Inr (p = h), au_access_ttl = 3600,
     au_refresh_ttl = 7200, au_now = 100, au_after = \<lambda>s. Some (100 + s), au_show_uuid = \<lambda>_. lit ''u'', au_new_uuid = 3,
     au_select = None, au_update = None, au_insert = None\<rparr>"

theorem bootstrapped_admin_logs_in_witness:
  "\<exists>d1 resp d2. bootstrap_admin (\<lambda>p c. Inr p) None 1 (lit ''admin'') (lit ''password'') empty_db = (Inr 1, d1) \<and>
     login sample_cli_auth (lit ''admin'') (lit ''password'') d1 = (Some (Inr resp), d2) \<and> lr_access_token resp = lit ''admin'' \<and>
     bootstrap_admin (\<lambda>p c. Inr p) None 2 (lit ''admin'') (lit ''another password'') d1 = (Inr 0, d1)"
proof -
  have l: "\<not> blen (lit ''password'') < 8" "8 \<le> blen (lit ''another password'')" by (simp_all add: blen_ascii)
  then obtain d1 where b: "bootstrap_admin (\<lambda>p c. Inr p) None 1 (lit ''admin'') (lit ''password'') empty_db = (Inr 1, d1)"
    by (simp add: bootstrap_admin_def hash_password_def insert_user_def empty_db_def)
  have "(\<exists>resp d2. login sample_cli_auth (lit ''admin'') (lit ''password'') d1 = (Some (Inr resp), d2) \<and> lr_access_token resp = lit ''admin'') \<and>
    (8 \<le> blen (lit ''another password'') \<and> Inr (lit ''another password'') = (Inr (lit ''another password'') :: rstr + rstr) \<longrightarrow>
      bootstrap_admin (\<lambda>p c. Inr p) None 2 (lit ''admin'') (lit ''another password'') d1 = (Inr 0, d1))"
    by (rule bootstrapped_admin_logs_in [OF b]) (simp_all add: sample_cli_auth_def i64_of_u64_def token_claims_def empty_db_def)
  with b l(2) show ?thesis by blast
qed

end
