(* ===== verification/Manager_Start.thy ===== *)
theory Manager_Start
  imports Cli
begin

text \<open>
  The start of the manager, \<open>scrooge-manager-bin/src/main.rs\<close> with \<open>tls_config\<close> of \<open>grpc.rs\<close>: what has to be in
  place, in the order it is checked, and what the two servers are started with. Connecting to PostgreSQL,
  the migrations, the parser of socket addresses and what tonic makes of the TLS parameters are parameters. It is put together with
  \<open>scroogectl init-ca\<close>.
\<close>

record server_tls =
  sl_cert :: "u8 list"
  sl_key :: "u8 list"
  sl_client_ca_root :: "u8 list"
  sl_client_auth_optional :: bool

definition tls_config :: "(rstr \<Rightarrow> rstr option) \<Rightarrow> u8 list files \<Rightarrow> manager_server_config \<Rightarrow> rstr + server_tls" where
  "tls_config rd fs server =
     res_bind (fs_read (rd (ms_tls_cert_path server)) (ms_tls_cert_path server) fs) (\<lambda>cert.
     res_bind (fs_read (rd (ms_tls_key_path server)) (ms_tls_key_path server) fs) (\<lambda>key.
     res_bind (fs_read (rd (ms_ca_cert_path server)) (ms_ca_cert_path server) fs) (\<lambda>ca.
     Inr \<lparr>sl_cert = cert, sl_key = key, sl_client_ca_root = ca, sl_client_auth_optional = True\<rparr>)))"

text \<open>HTTPS when both paths are configured, else plain HTTP.\<close>

definition rest_tls :: "manager_server_config \<Rightarrow> (rstr \<times> rstr) option" where
  "rest_tls server =
     (case (ms_rest_tls_cert_path server, ms_rest_tls_key_path server) of
        (Some cert, Some key) \<Rightarrow> Some (cert, key)
      | _ \<Rightarrow> None)"

datatype manager_error = MConfig config_error | MCa ca_error | MConnect rstr | MMigrate rstr | MAddr rstr | MTls rstr | MApplyTls rstr

record ('k, 'c, 'a) manager =
  mg_grpc_addr :: 'a
  mg_rest_addr :: 'a
  mg_tls :: server_tls
  mg_rest_tls :: "(rstr \<times> rstr) option"
  mg_ca :: "('k, 'c) root_ca"
  mg_state :: app_state
  mg_registry :: agent_registry

record ('k, 'c, 'a) manager_env =
  mv_rg :: "('k, 'c) rcgen"
  mv_parse :: "rstr \<Rightarrow> rstr + raw_manager_config"
  mv_connect :: "u32 \<Rightarrow> rstr \<Rightarrow> rstr + unit"
  mv_migrate :: "db \<Rightarrow> (rstr + unit) \<times> db"
  mv_addr :: "rstr \<Rightarrow> 'a option"
  mv_read :: "rstr \<Rightarrow> rstr option"
  mv_apply_tls :: "server_tls \<Rightarrow> rstr + unit"

text \<open>The queues of the bridges hold 64 requests; the model bounds the one whose sender never waits.\<close>

definition manager_main ::
  "('k, 'c, 'a) manager_env \<Rightarrow> rstr \<Rightarrow> rstr files \<Rightarrow> db \<Rightarrow> (manager_error + ('k, 'c, 'a) manager) \<times> db" where
  "manager_main env path fs d =
     (case manager_config_load (mv_parse env) (mv_read env path) path fs of
        Inl e \<Rightarrow> (Inl (MConfig e), d)
      | Inr config \<Rightarrow>
     (let server = mc_server config
      in case ca_load_from_files (mv_rg env) (mv_read env) (ms_ca_cert_path server) (ms_ca_key_path server) fs of
        Inl e \<Rightarrow> (Inl (MCa e), d)
      | Inr ca \<Rightarrow>
     (case mv_connect env (dc_pool_max (mc_database config)) (dc_url (mc_database config)) of
        Inl e \<Rightarrow> (Inl (MConnect e), d)
      | Inr _ \<Rightarrow>
     (case mv_migrate env d of
        (Inl e, d) \<Rightarrow> (Inl (MMigrate e), d)
      | (Inr _, d) \<Rightarrow>
     (case mv_addr env (ms_grpc_listen_addr server) of
        None \<Rightarrow> (Inl (MAddr (ms_grpc_listen_addr server)), d)
      | Some grpc_addr \<Rightarrow>
     (case mv_addr env (ms_rest_listen_addr server) of
        None \<Rightarrow> (Inl (MAddr (ms_rest_listen_addr server)), d)
      | Some rest_addr \<Rightarrow>
     (case tls_config (mv_read env) (file_bytes fs) server of
        Inl e \<Rightarrow> (Inl (MTls e), d)
      | Inr tls \<Rightarrow>
     (case mv_apply_tls env tls of
        Inl e \<Rightarrow> (Inl (MApplyTls e), d)
      | Inr _ \<Rightarrow>
          (Inr \<lparr>mg_grpc_addr = grpc_addr, mg_rest_addr = rest_addr, mg_tls = tls, mg_rest_tls = rest_tls server,
             mg_ca = ca,
             mg_state = app_state_new (mc_auth config) (mc_dashboard config) server
               (Some \<lparr>ch_msgs = [], ch_closed = False\<rparr>)
               (Some \<lparr>px_queue = [], px_capacity = 64, px_closed = False\<rparr>),
             mg_registry = new_registry\<rparr>, d)))))))))"

section \<open>The two servers\<close>

text \<open>\<open>serve\<close> of \<open>scrooge-manager-api/src/lib.rs\<close>: the certificate and key of HTTPS are read here, when the server task
  runs. Reading a PEM pair and the servers of axum (plain or with the pair) are parameters.\<close>

definition rest_serve ::
  "(rstr \<Rightarrow> rstr \<Rightarrow> rstr + 'cfg) \<Rightarrow> ('a \<Rightarrow> 'cfg option \<Rightarrow> rstr + unit) \<Rightarrow> 'a \<Rightarrow> (rstr \<times> rstr) option \<Rightarrow> rstr + unit" where
  "rest_serve from_pem_file listen addr tls =
     (case tls of
        Some (cert, key) \<Rightarrow>
          res_bind (map_err (\<lambda>e. lit ''loading REST TLS cert/key ('' @ cert @ lit '', '' @ key @ lit ''): '' @ e)
            (from_pem_file cert key)) (\<lambda>cfg. listen addr (Some cfg))
      | None \<Rightarrow> listen addr None)"

datatype task_end = Panicked | Returned "rstr + unit"

definition server_result :: "rstr \<Rightarrow> rstr \<Rightarrow> task_end \<Rightarrow> rstr + unit" where
  "server_result panic failure t =
     (case t of Panicked \<Rightarrow> Inl panic | Returned r \<Rightarrow> map_err (\<lambda>e. failure @ lit '': '' @ e) r)"

text \<open>\<open>tokio::join!\<close> waits for both tasks; only then are their results looked at, that of REST first.\<close>

definition servers_result :: "task_end option \<Rightarrow> task_end option \<Rightarrow> (rstr + unit) option" where
  "servers_result rest grpc =
     (case (rest, grpc) of
        (Some r, Some g) \<Rightarrow>
          Some (res_bind (server_result (lit ''REST task panicked'') (lit ''REST server error'') r) (\<lambda>_.
                server_result (lit ''gRPC task panicked'') (lit ''gRPC server error'') g))
      | _ \<Rightarrow> None)"

text \<open>A manager configured for HTTPS starts without its REST pair being looked at; when the pair cannot be loaded, the
  REST server never listens, and the manager goes on without it and without an error for as long as the gRPC server
  runs.\<close>

theorem rest_failure_is_silent:
  assumes "rest_tls server = Some (cert, key)" "from_pem_file cert key = Inl e"
  shows "\<exists>msg. rest_serve from_pem_file listen addr (rest_tls server) = Inl msg \<and>
    servers_result (Some (Returned (Inl msg))) None = None \<and>
    servers_result (Some (Returned (Inl msg))) (Some (Returned (Inr ()))) = Some (Inl (lit ''REST server error: '' @ msg))"
  using assms
  by (simp add: rest_serve_def servers_result_def server_result_def map_err_def lit_def)

section \<open>From init-ca to a running manager\<close>

text \<open>The configuration names the files of \<open>init-ca\<close>.\<close>

definition names_init_files :: "rstr \<Rightarrow> manager_config \<Rightarrow> bool" where
  "names_init_files out c \<longleftrightarrow> ms_ca_cert_path (mc_server c) = ca_pem_path out \<and> ms_ca_key_path (mc_server c) = ca_key_path out \<and>
     ms_tls_cert_path (mc_server c) = server_pem_path out \<and> ms_tls_key_path (mc_server c) = server_key_path out"

text \<open>What \<open>tls_config\<close> of tonic promises of the material \<open>init-ca\<close> makes: a certificate with the private key it was
  requested for is accepted, with the certificate of the CA to check clients against.\<close>

definition takes_pair ::
  "('k, 'c) rcgen \<Rightarrow> rstr + 'k \<Rightarrow> rstr \<Rightarrow> rstr + 'k \<Rightarrow> rstr \<Rightarrow> rstr list \<Rightarrow> (server_tls \<Rightarrow> rstr + unit) \<Rightarrow> bool" where
  "takes_pair rg ca_key ca_cn server_key cn san apply \<longleftrightarrow>
     (\<forall>ca csr_pem key_pem cert_pem opt. ca_generate rg ca_key ca_cn = Inr ca \<and>
        generate_server_csr rg server_key cn san = Inr (csr_pem, key_pem) \<and>
        sign_csr rg ca csr_pem = Inr cert_pem \<longrightarrow>
        apply \<lparr>sl_cert = as_bytes cert_pem, sl_key = as_bytes key_pem, sl_client_ca_root = as_bytes (rc_cert_pem ca),
          sl_client_auth_optional = opt\<rparr> = Inr ())"

text \<open>C21: after \<open>init-ca\<close> a manager whose configuration names the four files starts, if its configuration loads, its
  database can be reached and migrated, its addresses parse and the files can be read: it signs with the key of that
  CA, trusts clients of that CA, and serves the certificate the CA has signed for its own key together with that key,
  which tonic accepts.\<close>

theorem init_ca_then_manager_starts:
  assumes "init_ca rg k1 k2 io out cn scn san force fs ms = (Inr (), fs', ms')" "\<not> any_exists out fs \<or> force"
    and config: "manager_config_load (mv_parse env) None path fs' = Inr c" "names_init_files out c"
    and env: "mv_rg env = rg" "mv_read env = (\<lambda>_. None)" "mv_migrate env d = (Inr (), d')"
      "mv_connect env (dc_pool_max (mc_database c)) (dc_url (mc_database c)) = Inr ()"
      "mv_addr env (ms_grpc_listen_addr (mc_server c)) = Some a1" "mv_addr env (ms_rest_listen_addr (mc_server c)) = Some a2"
    and rcgen: "\<And>k. rg_key_from_pem rg (rg_key_pem rg k) = Inr k"
      "\<And>p k c. rg_self_signed rg p k = Inr c \<Longrightarrow> \<exists>q d. rg_params_from_ca_pem rg (rg_cert_pem rg c) = Inr q \<and> rg_self_signed rg q k = Inr d"
    and tonic: "takes_pair rg k1 cn k2 scn san (mv_apply_tls env)"
  shows "\<exists>m ca csr_pem cert key. manager_main env path fs' d = (Inr m, d') \<and> ca_generate rg k1 cn = Inr ca \<and>
    rc_key_pair (mg_ca m) = rc_key_pair ca \<and> sl_client_ca_root (mg_tls m) = as_bytes (rc_cert_pem ca) \<and>
    generate_server_csr rg k2 scn san = Inr (csr_pem, key) \<and> sign_csr rg ca csr_pem = Inr cert \<and>
    sl_cert (mg_tls m) = as_bytes cert \<and> sl_key (mg_tls m) = as_bytes key"
proof -
  obtain ca csr_pem cert key where d: "ca_generate rg k1 cn = Inr ca" "sign_csr rg ca csr_pem = Inr cert"
    "generate_server_csr rg k2 scn san = Inr (csr_pem, key)"
    and f: "fs' = fs(ca_pem_path out \<mapsto> rc_cert_pem ca, ca_key_path out \<mapsto> rc_key_pem ca,
      server_pem_path out \<mapsto> cert, server_key_path out \<mapsto> key)"
    using init_ca_done [OF assms(1,2)] by blast
  obtain p k x where k: "rg_self_signed rg p k = Inr x" "rc_key_pair ca = k"
    "rc_cert_pem ca = rg_cert_pem rg x" "rc_key_pem ca = rg_key_pem rg k"
    using d(1) by (auto simp: ca_generate_def res_bind_Inr_iff rcgen_err_Inr Let_def)
  obtain q e where q: "rg_params_from_ca_pem rg (rg_cert_pem rg x) = Inr q" "rg_self_signed rg q k = Inr e"
    using rcgen(2) [OF k(1)] by blast
  have fs': "fs' (ca_pem_path out) = Some (rg_cert_pem rg x)" "fs' (ca_key_path out) = Some (rg_key_pem rg k)"
    "fs' (server_pem_path out) = Some cert" "fs' (server_key_path out) = Some key"
    using init_paths [of out] k by (auto simp: f)
  obtain ca' where ca': "ca_load_from_files rg (\<lambda>_. None) (ca_pem_path out) (ca_key_path out) fs' = Inr ca'"
    "rc_key_pair ca' = k"
    using fs' q rcgen(1) by (simp add: ca_load_from_files_def fs_read_def)
  let ?tls = "\<lparr>sl_cert = as_bytes cert, sl_key = as_bytes key, sl_client_ca_root = as_bytes (rc_cert_pem ca),
    sl_client_auth_optional = True\<rparr>"
  have tls: "tls_config (\<lambda>_. None) (file_bytes fs') (mc_server c) = Inr ?tls"
    using fs' config(2) k(3) by (simp add: tls_config_def fs_read_def file_bytes_def names_init_files_def)
  have "mv_apply_tls env ?tls = Inr ()" using tonic d unfolding takes_pair_def by blast
  then have "\<exists>m. manager_main env path fs' d = (Inr m, d') \<and> mg_ca m = ca' \<and> mg_tls m = ?tls"
    using config env ca' tls by (simp add: manager_main_def names_init_files_def Let_def)
  then show ?thesis using d ca' k by force
qed

definition sample_document :: raw_manager_config where
  "sample_document = long_ttl_document\<lparr>
     rmc_server := Some \<lparr>rms_grpc_listen_addr = None, rms_rest_listen_addr = None,
       rms_tls_cert_path = Some (server_pem_path (lit ''out'')), rms_tls_key_path = Some (server_key_path (lit ''out'')),
       rms_ca_cert_path = Some (ca_pem_path (lit ''out'')), rms_ca_key_path = Some (ca_key_path (lit ''out'')),
       rms_public_grpc_endpoint = None, rms_public_rest_base_url = None, rms_agent_release_tag = None,
       rms_rest_tls_cert_path = None, rms_rest_tls_key_path = None\<rparr>\<rparr>"

definition sample_manager_env :: "(rstr, cert_params, rstr) manager_env" where
  "sample_manager_env = \<lparr>mv_rg = sample_rcgen, mv_parse = \<lambda>_. Inr sample_document, mv_connect = \<lambda>_ _. Inr (),
     mv_migrate = \<lambda>d. (Inr (), d), mv_addr = Some, mv_read = \<lambda>_. None,
     mv_apply_tls = \<lambda>tls. if sl_key tls = as_bytes (lit ''k2'') then Inr () else Inl (lit ''keys do not match'')\<rparr>"

lemma sample_loads:
  assumes "fs (lit ''manager.yaml'') = Some []"
  shows "\<exists>c. manager_config_load (mv_parse sample_manager_env) None (lit ''manager.yaml'') fs = Inr c \<and>
    names_init_files (lit ''out'') c"
  using assms
  by (simp add: sample_manager_env_def manager_config_load_def read_config_def fs_read_def sample_document_def
      long_ttl_document_def de_manager_config_def de_manager_server_def de_database_def de_auth_def
      manager_config_validate_def blen_ascii names_init_files_def)

theorem init_ca_then_manager_starts_witness:
  "\<exists>fs' ms' m. init_ca sample_rcgen (Inr (lit ''k1'')) (Inr (lit ''k2'')) all_written (lit ''out'') (lit ''ca'') (lit ''m'') [] False
       ((\<lambda>_. None)(lit ''manager.yaml'' \<mapsto> [])) (\<lambda>_. None) = (Inr (), fs', ms') \<and>
     manager_main sample_manager_env (lit ''manager.yaml'') fs' empty_db = (Inr m, empty_db) \<and>
     rc_key_pair (mg_ca m) = lit ''k1'' \<and> sl_key (mg_tls m) = as_bytes (lit ''k2'')"
proof -
  let ?fs = "(\<lambda>_. None)(lit ''manager.yaml'' \<mapsto> []) :: rstr files"
  have p: "lit ''manager.yaml'' \<notin> init_files (lit ''out'')"
    by (simp add: init_files_def ca_pem_path_def ca_key_path_def server_pem_path_def server_key_path_def path_join_def lit_def)
  then have n: "\<not> any_exists (lit ''out'') ?fs" by (auto simp: any_exists_def init_files_def)
  obtain fs' ms' where i: "init_ca sample_rcgen (Inr (lit ''k1'')) (Inr (lit ''k2'')) all_written (lit ''out'') (lit ''ca'') (lit ''m'')
      [] False ?fs (\<lambda>_. None) = (Inr (), fs', ms')"
    using sample_init_ca [OF n] by blast
  have "fs' (lit ''manager.yaml'') = Some []" using init_ca_other [OF i p] by simp
  then obtain c where c: "manager_config_load (mv_parse sample_manager_env) None (lit ''manager.yaml'') fs' = Inr c"
    "names_init_files (lit ''out'') c"
    using sample_loads by blast
  have rg: "rg_key_from_pem sample_rcgen (rg_key_pem sample_rcgen k) = Inr k"
    "rg_self_signed sample_rcgen p k = Inr x \<Longrightarrow>
      \<exists>q d. rg_params_from_ca_pem sample_rcgen (rg_cert_pem sample_rcgen x) = Inr q \<and> rg_self_signed sample_rcgen q k = Inr d" for p k x
    by (simp_all add: sample_rcgen_def)
  have g: "generate_server_csr sample_rcgen (Inr (lit ''k2'')) (lit ''m'') [] = Inr (lit ''csr'', lit ''k2'')"
    by (simp add: generate_server_csr_def sample_rcgen_def Let_def)
  then have t: "takes_pair sample_rcgen (Inr (lit ''k1'')) (lit ''ca'') (Inr (lit ''k2'')) (lit ''m'') [] (mv_apply_tls sample_manager_env)"
    by (simp add: takes_pair_def sample_manager_env_def)
  have "\<exists>m ca csr_pem cert key. manager_main sample_manager_env (lit ''manager.yaml'') fs' empty_db = (Inr m, empty_db) \<and>
    ca_generate sample_rcgen (Inr (lit ''k1'')) (lit ''ca'') = Inr ca \<and> rc_key_pair (mg_ca m) = rc_key_pair ca \<and>
    sl_client_ca_root (mg_tls m) = as_bytes (rc_cert_pem ca) \<and>
    generate_server_csr sample_rcgen (Inr (lit ''k2'')) (lit ''m'') [] = Inr (csr_pem, key) \<and>
    sign_csr sample_rcgen ca csr_pem = Inr cert \<and> sl_cert (mg_tls m) = as_bytes cert \<and> sl_key (mg_tls m) = as_bytes key"
    by (rule init_ca_then_manager_starts [OF i _ c _ _ _ _ _ _ rg t]) (use n in \<open>simp_all add: sample_manager_env_def\<close>)
  moreover have "rc_key_pair ca = lit ''k1''" if "ca_generate sample_rcgen (Inr (lit ''k1'')) (lit ''ca'') = Inr ca" for ca
    using that by (auto simp: ca_generate_def sample_rcgen_def Let_def)
  ultimately show ?thesis using i g by force
qed

end
