(* ===== verification/Listings.thy ===== *)
theory Listings
  imports Policy_Api Event_Ingest
begin

text \<open>
  The listings of agents and events and the command endpoint,
  \<open>scrooge-manager-api/src/handlers/agents.rs\<close> and \<open>events.rs\<close>. Base64 is a parameter.
\<close>

section \<open>Agents\<close>

record agent_dto =
  ad_id :: uuid
  ad_hostname :: rstr
  ad_os :: rstr
  ad_os_version :: rstr
  ad_arch :: rstr
  ad_agent_version :: rstr
  ad_status :: rstr
  ad_enrolled_at :: int
  ad_last_seen :: "int option"

definition list_agents :: "outcome \<Rightarrow> claims \<Rightarrow> db \<Rightarrow> api_error + agent_dto list" where
  "list_agents out c d =
     db_err (sql_query out (\<lambda>d. map (\<lambda>a. \<lparr>ad_id = ag_id a, ad_hostname = ag_hostname a, ad_os = ag_os a,
         ad_os_version = ag_os_version a, ad_arch = ag_arch a, ad_agent_version = ag_agent_version a,
         ad_status = ag_status a, ad_enrolled_at = ag_enrolled_at a, ad_last_seen = ag_last_seen a\<rparr>)
       (order_by (\<lambda>a b. ag_enrolled_at a \<ge> ag_enrolled_at b) (db_agents d))) d)"

section \<open>Commands\<close>

record send_command_request =
  sc_command_type :: rstr
  sc_payload_b64 :: "rstr option"

record send_command_response =
  sr_command_id :: rstr
  sr_command_type :: rstr

definition command_type_of :: "rstr \<Rightarrow> api_error + int" where
  "command_type_of s =
     (if s = lit ''refresh_policies'' then Inr 1
      else if s = lit ''collect_diagnostics'' then Inr 2
      else if s = lit ''update_tags'' then Inr 3
      else Inl (BadRequest (lit ''unknown command_type `'' @ s @ lit ''` '' @ [8212] @
        lit '' expected: refresh_policies / collect_diagnostics / update_tags'')))"

text \<open>The channel of the bridge is \<open>None\<close> when the process was built without one.\<close>

definition send_command ::
  "(rstr \<Rightarrow> rstr + u8 list) \<Rightarrow> outcome \<Rightarrow> rstr \<Rightarrow> claims \<Rightarrow> uuid \<Rightarrow> send_command_request \<Rightarrow> db \<Rightarrow>
   command_request chan option \<Rightarrow> (api_error + nat \<times> send_command_response) \<times> command_request chan option" where
  "send_command b64 out uuid c agent req d bridge =
     (let checked =
        res_bind (require_admin c) (\<lambda>_.
        res_bind (command_type_of (sc_command_type req)) (\<lambda>t.
        res_bind (db_err (sql_query out (\<lambda>d. find (\<lambda>a. ag_id a = agent) (db_agents d)) d)) (\<lambda>exists.
        if exists = None then Inl NotFound
        else res_bind (case sc_payload_b64 req of
              None \<Rightarrow> Inr []
            | Some s \<Rightarrow> map_err (\<lambda>e. BadRequest (lit ''payload_b64 invalid: '' @ e)) (b64 s)) (\<lambda>payload.
          Inr (t, payload)))))
      in case checked of
           Inl e \<Rightarrow> (Inl e, bridge)
         | Inr (t, payload) \<Rightarrow>
             (case bridge of
                None \<Rightarrow> (Inl (ServiceUnavailable (lit ''command bridge unavailable'')), None)
              | Some ch \<Rightarrow>
                  (case ch_send \<lparr>rq_agent_id = agent, rq_command_type = t, rq_payload = payload,
                       rq_command_id = uuid\<rparr> ch of
                     None \<Rightarrow> (Inl (ServiceUnavailable (lit ''command bridge closed'')), Some ch)
                   | Some ch \<Rightarrow>
                       (Inr (202, \<lparr>sr_command_id = uuid, sr_command_type = sc_command_type req\<rparr>), Some ch))))"

section \<open>Events\<close>

record event_dto =
  ed_id :: uuid
  ed_timestamp :: int
  ed_agent_id :: uuid
  ed_event_type :: rstr
  ed_severity :: rstr
  ed_direction :: "rstr option"
  ed_matched_policy :: "rstr option"
  ed_matched_rule :: "rstr option"
  ed_action_taken :: "rstr option"
  ed_details :: json

definition to_event_dto :: "event_row \<Rightarrow> event_dto" where
  "to_event_dto r = \<lparr>ed_id = er_id r, ed_timestamp = er_timestamp r, ed_agent_id = er_agent_id r,
     ed_event_type = er_event_type r, ed_severity = er_severity r, ed_direction = er_direction r,
     ed_matched_policy = er_matched_policy r, ed_matched_rule = er_matched_rule r,
     ed_action_taken = er_action_taken r, ed_details = er_details r\<rparr>"

record event_query =
  qy_agent_id :: "uuid option"
  qy_severity :: "rstr option"
  qy_event_type :: "rstr option"
  qy_since :: "int option"
  qy_until :: "int option"
  qy_limit :: "u32 option"
  qy_offset :: "u32 option"

definition on_some :: "'a option \<Rightarrow> ('a \<Rightarrow> bool) \<Rightarrow> bool" where
  "on_some x P \<longleftrightarrow> (case x of None \<Rightarrow> True | Some a \<Rightarrow> P a)"

text \<open>The \<open>WHERE\<close> clause the query builder assembles.\<close>

definition query_matches :: "event_query \<Rightarrow> event_row \<Rightarrow> bool" where
  "query_matches q r \<longleftrightarrow>
     on_some (qy_agent_id q) (\<lambda>a. er_agent_id r = a) \<and> on_some (qy_severity q) (\<lambda>s. er_severity r = s) \<and>
     on_some (qy_event_type q) (\<lambda>t. er_event_type r = t) \<and> on_some (qy_since q) (\<lambda>t. er_timestamp r \<ge> t) \<and>
     on_some (qy_until q) (\<lambda>t. er_timestamp r \<le> t)"

definition known_severity :: "rstr \<Rightarrow> bool" where
  "known_severity s \<longleftrightarrow> s \<in> {lit ''low'', lit ''medium'', lit ''high'', lit ''critical''}"

definition list_events :: "outcome \<Rightarrow> claims \<Rightarrow> event_query \<Rightarrow> db \<Rightarrow> api_error + event_dto list" where
  "list_events out c q d =
     res_bind (require_admin c) (\<lambda>_.
     let limit = unat (min (unwrap_or 100 (qy_limit q)) 1000);
         offset = unat (unwrap_or 0 (qy_offset q))
     in if \<not> on_some (qy_severity q) known_severity
        then Inl (BadRequest (lit ''invalid severity: '' @ unwrap_or [] (qy_severity q)))
        else db_err (sql_query out (\<lambda>d. map to_event_dto (take limit (drop offset
               (order_by (\<lambda>a b. er_timestamp a \<ge> er_timestamp b) (filter (query_matches q) (db_events d)))))) d))"

section \<open>What the listings return\<close>

lemma unat_limit: "unat (min (w :: u32) 1000) = min (unat w) 1000"
  by (simp add: min_def word_le_nat_alt)

lemma newest_first: "sorted_wrt (\<lambda>a b. er_timestamp a \<ge> er_timestamp b)
    (order_by (\<lambda>a b. er_timestamp a \<ge> er_timestamp b) rs)"
  by (rule sorted_order_by) auto

text \<open>A listing of events is at most a thousand of the stored ones, each meeting the query, newest
  first, and all of those when they fit on the page.\<close>

theorem events_listing:
  assumes "list_events out c q d = Inr es"
  shows "\<exists>rs. es = map to_event_dto rs \<and> length rs \<le> min (unat (unwrap_or 100 (qy_limit q))) 1000 \<and>
    set rs \<subseteq> {r \<in> set (db_events d). query_matches q r} \<and>
    sorted_wrt (\<lambda>a b. er_timestamp a \<ge> er_timestamp b) rs \<and>
    (unwrap_or 0 (qy_offset q) = 0 \<and> length (filter (query_matches q) (db_events d)) \<le> min (unat (unwrap_or 100 (qy_limit q))) 1000
      \<longrightarrow> mset rs = mset (filter (query_matches q) (db_events d)))"
proof -
  let ?all = "order_by (\<lambda>a b. er_timestamp a \<ge> er_timestamp b) (filter (query_matches q) (db_events d))"
  let ?n = "min (unat (unwrap_or 100 (qy_limit q))) 1000" let ?k = "unat (unwrap_or 0 (qy_offset q))"
  have es: "es = map to_event_dto (take ?n (drop ?k ?all))"
    using assms by (auto simp: list_events_def res_bind_Inr_iff Let_def unat_limit db_err_def map_err_def sql_query_def
        split: if_splits option.splits)
  have "length ?all = length (filter (query_matches q) (db_events d))"
    by (metis mset_order_by size_mset)
  then have "mset (take ?n (drop ?k ?all)) = mset (filter (query_matches q) (db_events d))"
    if "unwrap_or 0 (qy_offset q) = 0" "length (filter (query_matches q) (db_events d)) \<le> ?n"
    using that by (simp add: mset_order_by)
  moreover have "set (take ?n (drop ?k ?all)) \<subseteq> set ?all"
    by (meson order_trans set_drop_subset set_take_subset)
  moreover have "sorted_wrt (\<lambda>a b. er_timestamp a \<ge> er_timestamp b) (take ?n (drop ?k ?all))"
    using newest_first by (intro sorted_wrt_take sorted_wrt_drop)
  ultimately show ?thesis unfolding es
    by (intro exI [of _ "take ?n (drop ?k ?all)"]) auto
qed

definition everything :: event_query where
  "everything = \<lparr>qy_agent_id = None, qy_severity = None, qy_event_type = None, qy_since = None, qy_until = None,
     qy_limit = Some 5000, qy_offset = None\<rparr>"

theorem events_listing_witness:
  "\<exists>es rs. list_events None sample_claims everything (snd (insert_event_batch (sample_ingest []) 7 sample_batch empty_db)) = Inr es \<and>
     es = map to_event_dto rs \<and> length rs \<le> 1000"
proof -
  obtain es where es: "list_events None sample_claims everything
      (snd (insert_event_batch (sample_ingest []) 7 sample_batch empty_db)) = Inr es"
    by (simp add: list_events_def sample_claims_def require_admin_def everything_def on_some_def Let_def)
  from events_listing [OF es] es show ?thesis by auto
qed

text \<open>C25: the command endpoint and the bridge together: a command an administrator sends to an agent whose
  stream is open and registered reaches exactly that agent's channel, with the type the request names.\<close>

theorem command_reaches_agent:
  assumes "send_command b64 out uuid c agent req d (Some ch) = (Inr (status, resp), Some ch')"
    and "ch_msgs ch = []" "reg_get agent r = Some tx" "\<not> ch_closed (chs tx)"
  shows "\<exists>rq t. ch_msgs ch' = [rq] \<and> command_type_of (sc_command_type req) = Inr t \<and> t \<in> {1, 2, 3} \<and>
    run_command_bridge [(now, r, rq)] chs = ([Forwarded], chs(tx := (chs tx)\<lparr>ch_msgs := ch_msgs (chs tx) @
      [Some (MCommand \<lparr>cmd_command_id = sr_command_id resp, cmd_type = t, cmd_payload = rq_payload rq,
        cmd_issued_at_ns = now, cmd_deadline_ns = 0\<rparr>)]\<rparr>)) \<and> cl_role c = lit ''admin''"
proof -
  obtain t payload where t: "command_type_of (sc_command_type req) = Inr t" "cl_role c = lit ''admin''"
    "ch_send \<lparr>rq_agent_id = agent, rq_command_type = t, rq_payload = payload, rq_command_id = uuid\<rparr> ch = Some ch'"
    "sr_command_id resp = uuid"
    using assms(1) by (auto simp: send_command_def Let_def res_bind_def require_admin_def
        split: sum.splits option.splits if_splits)
  have "t \<in> {1, 2, 3}" using t(1) by (auto simp: command_type_of_def split: if_splits)
  moreover have "ch_msgs ch' = [\<lparr>rq_agent_id = agent, rq_command_type = t, rq_payload = payload, rq_command_id = uuid\<rparr>]"
    using t(3) assms(2) by (auto simp: ch_send_Some)
  ultimately show ?thesis using t assms(3,4)
    by (auto simp: command_bridge_step_def ch_send_def)
qed

theorem command_reaches_agent_witness:
  "\<exists>resp ch'. send_command (\<lambda>_. Inl []) None (lit ''i'') sample_claims 7 \<lparr>sc_command_type = lit ''update_tags'', sc_payload_b64 = None\<rparr>
      one_policy_db (Some \<lparr>ch_msgs = [], ch_closed = False\<rparr>) = (Inr (202, resp), Some ch') \<and>
    (\<exists>rq. ch_msgs ch' = [rq] \<and> fst (run_command_bridge [(9, register_agent 7 0 new_registry, rq)]
      (\<lambda>_. \<lparr>ch_msgs = [], ch_closed = False\<rparr>)) = [Forwarded])"
proof -
  obtain resp ch' where s: "send_command (\<lambda>_. Inl []) None (lit ''i'') sample_claims 7
      \<lparr>sc_command_type = lit ''update_tags'', sc_payload_b64 = None\<rparr>
      one_policy_db (Some \<lparr>ch_msgs = [], ch_closed = False\<rparr>) = (Inr (202, resp), Some ch')"
    by (simp add: send_command_def require_admin_def sample_claims_def command_type_of_def ch_send_def)
  have "reg_get 7 (register_agent 7 0 new_registry) = Some 0" by (simp add: rg.look_reg)
  from command_reaches_agent [OF s _ this, of "\<lambda>_. \<lparr>ch_msgs = [], ch_closed = False\<rparr>" 9] s show ?thesis by auto
qed

end
