(* ===== verification/Rest_Api.thy ===== *)
theory Rest_Api
  imports Install Listings
begin

text \<open>
  The REST API as a whole, \<open>scrooge-manager-api/src/lib.rs\<close>: the table of routes, the extractors in front of each
  handler, and the handlers of the other theories behind them, over the database and the state of the
  server. What axum extracts from a body or a query is a parameter, as is the rejection when it cannot.
  \<open>HEAD\<close>, CORS and the Swagger pages are not part of the model.
\<close>

section \<open>Routes\<close>

datatype http_method = HGet | HPost | HPut | HDelete

datatype seg = Fixed string | Param | Wildcard

datatype route =
    RLogin | RRefresh | RAgents | RCommand | RInstall | RScript target_os | RPolicies | RCreate | RPolicy | RUpdate
  | RDelete | RHistory | RRollback | RValidate | REvents | RDashboardConfig | RDashboard | RAsset | RCaPem | RHealth

definition v1 :: "seg list \<Rightarrow> seg list" where
  "v1 p = [Fixed ''api'', Fixed ''v1''] @ p"

definition router :: "(seg list \<times> (http_method \<times> route) list) list" where
  "router =
     [(v1 [Fixed ''auth'', Fixed ''login''], [(HPost, RLogin)]),
      (v1 [Fixed ''auth'', Fixed ''refresh''], [(HPost, RRefresh)]),
      (v1 [Fixed ''agents''], [(HGet, RAgents)]),
      (v1 [Fixed ''agents'', Param, Fixed ''command''], [(HPost, RCommand)]),
      (v1 [Fixed ''agents'', Fixed ''install''], [(HPost, RInstall)]),
      (v1 [Fixed ''install.sh''], [(HGet, RScript Linux)]),
      (v1 [Fixed ''install-macos.sh''], [(HGet, RScript MacOs)]),
      (v1 [Fixed ''install.ps1''], [(HGet, RScript Windows)]),
      (v1 [Fixed ''policies''], [(HGet, RPolicies), (HPost, RCreate)]),
      (v1 [Fixed ''policies'', Param], [(HGet, RPolicy), (HPut, RUpdate), (HDelete, RDelete)]),
      (v1 [Fixed ''policies'', Param, Fixed ''history''], [(HGet, RHistory)]),
      (v1 [Fixed ''policies'', Param, Fixed ''rollback'', Param], [(HPost, RRollback)]),
      (v1 [Fixed ''policies'', Fixed ''validate''], [(HPost, RValidate)]),
      (v1 [Fixed ''events''], [(HGet, REvents)]),
      (v1 [Fixed ''dashboard'', Fixed ''config''], [(HGet, RDashboardConfig)]),
      ([], [(HGet, RDashboard)]),
      ([Fixed ''dashboard''], [(HGet, RDashboard)]),
      ([Fixed ''static'', Fixed ''policy-editor'', Wildcard], [(HGet, RAsset)]),
      ([Fixed ''ca.pem''], [(HGet, RCaPem)]),
      ([Fixed ''health''], [(HGet, RHealth)])]"

text \<open>A path is the list of its segments. A parameter takes one that is not empty, the wildcard all the rest.\<close>

fun seg_match :: "seg list \<Rightarrow> rstr list \<Rightarrow> rstr list option" where
  "seg_match [] [] = Some []"
| "seg_match (Fixed t # ps) (s # ss) = (if s = lit t then seg_match ps ss else None)"
| "seg_match (Param # ps) (s # ss) = (if s \<noteq> [] then map_option ((#) s) (seg_match ps ss) else None)"
| "seg_match [Wildcard] (s # ss) = (if join_with [47] (s # ss) \<noteq> [] then Some [join_with [47] (s # ss)] else None)"
| "seg_match _ _ = None"

text \<open>The path alone chooses the entry of the table, and a path without parameters comes before one with: then the
  method decides. The answer is a status without a handler, or the handler with the path's parameters.\<close>

definition matching :: "rstr list \<Rightarrow> (rstr list \<times> (http_method \<times> route) list) list" where
  "matching path = List.map_filter (\<lambda>(p, ms). map_option (\<lambda>ps. (ps, ms)) (seg_match p path)) router"

definition resolve :: "http_method \<Rightarrow> rstr list \<Rightarrow> nat + route \<times> rstr list" where
  "resolve m path =
     (let candidates = matching path
      in case (case find (\<lambda>(ps, _). ps = []) candidates of
                 Some c \<Rightarrow> Some c | None \<Rightarrow> (case candidates of [] \<Rightarrow> None | c # _ \<Rightarrow> Some c)) of
           None \<Rightarrow> Inl 404
         | Some (ps, ms) \<Rightarrow> (case map_of ms m of None \<Rightarrow> Inl 405 | Some r \<Rightarrow> Inr (r, ps)))"

section \<open>Requests and answers\<close>

record http_request =
  hq_method :: http_method
  hq_path :: "rstr list"
  hq_authorization :: "rstr option"
  hq_query :: rstr
  hq_body :: rstr

datatype api_body =
    BNothing | BError rstr rstr | BText rstr rstr
  | BLogin login_response | BAgents "agent_dto list" | BCommand send_command_response | BInstall install_response
  | BPolicies "policy_summary list" | BPolicy policy_dto | BHistory "history_entry list" | BValidate validate_response
  | BEvents "event_dto list" | BDashboard dashboard_dto | BHealth rstr rstr

type_synonym answer = "(nat \<times> api_body) option"

text \<open>What the handlers need of the outside, and the extractors: \<open>Inl\<close> is the status of a rejection.\<close>

record api_env =
  ax_decode :: "rstr \<Rightarrow> claims option"
  ax_auth :: auth_env
  ax_policy :: policy_env
  ax_install :: install_env
  ax_template :: "target_os \<Rightarrow> rstr"
  ax_now :: int
  ax_select :: outcome
  ax_read :: "rstr option"
  ax_files :: "rstr files"
  ax_b64 :: "rstr \<Rightarrow> rstr + u8 list"
  ax_command_id :: rstr
  ax_version :: rstr
  ax_html :: rstr
  ax_assets :: "rstr \<Rightarrow> rstr option"
  ax_login :: "rstr \<Rightarrow> nat + rstr \<times> rstr"
  ax_refresh :: "rstr \<Rightarrow> nat + rstr"
  ax_command :: "rstr \<Rightarrow> nat + send_command_request"
  ax_install_request :: "rstr \<Rightarrow> nat + install_request"
  ax_policy_body :: "rstr \<Rightarrow> nat + rstr \<times> rstr option"
  ax_validate :: "rstr \<Rightarrow> nat + rstr"
  ax_events :: "rstr \<Rightarrow> nat + event_query"
  ax_script :: "rstr \<Rightarrow> nat + rstr \<times> rstr option"
  ax_path_uuid :: "rstr \<Rightarrow> nat + uuid"
  ax_path_i32 :: "rstr \<Rightarrow> nat + int"

record server =
  sn_db :: db
  sn_state :: app_state

definition error_answer :: "api_error \<Rightarrow> nat \<times> api_body" where
  "error_answer e = (case into_response e of (status, code, msg) \<Rightarrow> (status, BError code msg))"

definition answer :: "('a \<Rightarrow> nat \<times> api_body) \<Rightarrow> api_error + 'a \<Rightarrow> nat \<times> api_body" where
  "answer ok r = (case r of Inl e \<Rightarrow> error_answer e | Inr a \<Rightarrow> ok a)"

text \<open>The extractors in front of a handler: the claims of the token, and a body, query or path.\<close>

definition with_claims :: "api_env \<Rightarrow> http_request \<Rightarrow> server \<Rightarrow> (claims \<Rightarrow> answer \<times> server) \<Rightarrow> answer \<times> server" where
  "with_claims env req s k =
     (case from_request_parts (ax_decode env) (hq_authorization req) of
        Inl e \<Rightarrow> (Some (error_answer e), s)
      | Inr c \<Rightarrow> k c)"

definition with_input :: "nat + 'a \<Rightarrow> server \<Rightarrow> ('a \<Rightarrow> answer \<times> server) \<Rightarrow> answer \<times> server" where
  "with_input r s k = (case r of Inl status \<Rightarrow> (Some (status, BNothing), s) | Inr a \<Rightarrow> k a)"

definition health :: "rstr \<Rightarrow> api_body" where
  "health version = BHealth (lit ''ok'') version"

definition asset :: "(rstr \<Rightarrow> rstr option) \<Rightarrow> rstr \<Rightarrow> nat \<times> api_body" where
  "asset files path =
     (case files path of
        None \<Rightarrow> (404, BText (lit ''text/plain; charset=utf-8'') (lit ''not found''))
      | Some body \<Rightarrow> (200, BText (lit ''application/javascript; charset=utf-8'') body))"

definition set_db :: "db \<Rightarrow> server \<Rightarrow> server" where
  "set_db d s = s\<lparr>sn_db := d\<rparr>"

definition set_push :: "db \<Rightarrow> push_tx option \<Rightarrow> server \<Rightarrow> server" where
  "set_push d tx s = s\<lparr>sn_db := d, sn_state := (sn_state s)\<lparr>st_policy_push_tx := tx\<rparr>\<rparr>"

definition set_command :: "command_request chan option \<Rightarrow> server \<Rightarrow> server" where
  "set_command tx s = s\<lparr>sn_state := (sn_state s)\<lparr>st_command_tx := tx\<rparr>\<rparr>"

section \<open>Dispatch\<close>

definition serve_login :: "api_env \<Rightarrow> http_request \<Rightarrow> server \<Rightarrow> answer \<times> server" where
  "serve_login env req s =
     with_input (ax_login env (hq_body req)) s (\<lambda>(username, password).
       case login (auth_env_of (sn_state s) (ax_auth env)) username password (sn_db s) of
         (a, d) \<Rightarrow> (map_option (answer (\<lambda>a. (200, BLogin a))) a, set_db d s))"

definition serve_refresh :: "api_env \<Rightarrow> http_request \<Rightarrow> server \<Rightarrow> answer \<times> server" where
  "serve_refresh env req s =
     with_input (ax_refresh env (hq_body req)) s (\<lambda>token.
       case refresh (auth_env_of (sn_state s) (ax_auth env)) token (sn_db s) of
         (a, d) \<Rightarrow> (map_option (answer (\<lambda>a. (200, BLogin a))) a, set_db d s))"

definition handle_agents :: "api_env \<Rightarrow> route \<Rightarrow> rstr list \<Rightarrow> http_request \<Rightarrow> server \<Rightarrow> answer \<times> server" where
  "handle_agents env r ps req s =
     (let d = sn_db s; st = sn_state s
      in with_claims env req s (\<lambda>c.
      case r of
        RAgents \<Rightarrow> (Some (answer (\<lambda>a. (200, BAgents a)) (list_agents (ax_select env) c d)), s)
      | RCommand \<Rightarrow> with_input (ax_path_uuid env (hd ps)) s (\<lambda>agent. with_input (ax_command env (hq_body req)) s (\<lambda>cmd.
          case send_command (ax_b64 env) (ax_select env) (ax_command_id env) c agent cmd d (st_command_tx st) of
            (a, tx) \<Rightarrow> (Some (answer (\<lambda>(n, a). (n, BCommand a)) a), set_command tx s)))
      | RInstall \<Rightarrow> with_input (ax_install_request env (hq_body req)) s (\<lambda>q.
          case install_create (ax_install env) (st_install st) c q d of
            (a, d) \<Rightarrow> (Some (answer (\<lambda>a. (200, BInstall a)) a), set_db d s))
      | _ \<Rightarrow> with_input (ax_events env (hq_query req)) s (\<lambda>q.
          (Some (answer (\<lambda>a. (200, BEvents a)) (list_events (ax_select env) c q d)), s))))"

definition handle_policies :: "api_env \<Rightarrow> route \<Rightarrow> rstr list \<Rightarrow> http_request \<Rightarrow> server \<Rightarrow> answer \<times> server" where
  "handle_policies env r ps req s =
     (let d = sn_db s; tx = st_policy_push_tx (sn_state s); pe = ax_policy env;
          full = answer (\<lambda>a. (200, BPolicy a))
      in with_claims env req s (\<lambda>c.
      case r of
        RPolicies \<Rightarrow> (Some (answer (\<lambda>a. (200, BPolicies a)) (list_policies pe c d)), s)
      | RPolicy \<Rightarrow> (Some (full (get_policy pe c (hd ps) d)), s)
      | RHistory \<Rightarrow> (Some (answer (\<lambda>a. (200, BHistory a)) (history pe c (hd ps) d)), s)
      | RCreate \<Rightarrow> with_input (ax_policy_body env (hq_body req)) s (\<lambda>(yaml, reason).
          case create pe c yaml reason d tx of
            (a, d, tx) \<Rightarrow> (Some (answer (\<lambda>(n, a). (n, BPolicy a)) a), set_push d tx s))
      | RUpdate \<Rightarrow> with_input (ax_policy_body env (hq_body req)) s (\<lambda>(yaml, reason).
          case update pe c (hd ps) yaml reason d tx of (a, d, tx) \<Rightarrow> (Some (full a), set_push d tx s))
      | RDelete \<Rightarrow>
          (case delete_handler pe c (hd ps) d tx of
             (a, d, tx) \<Rightarrow> (Some (answer (\<lambda>n. (n, BNothing)) a), set_push d tx s))
      | RRollback \<Rightarrow> with_input (ax_path_i32 env (ps ! 1)) s (\<lambda>version.
          case rollback pe c (hd ps) version d tx of (a, d, tx) \<Rightarrow> (Some (full a), set_push d tx s))
      | _ \<Rightarrow> with_input (ax_validate env (hq_body req)) s (\<lambda>yaml.
          (Some (answer (\<lambda>a. (200, BValidate a)) (validate pe c yaml)), s))))"

text \<open>The routes without claims.\<close>

definition handle_public :: "api_env \<Rightarrow> route \<Rightarrow> rstr list \<Rightarrow> http_request \<Rightarrow> server \<Rightarrow> answer \<times> server" where
  "handle_public env r ps req s =
     (let st = sn_state s
      in case r of
        RScript os \<Rightarrow> with_input (ax_script env (hq_query req)) s (\<lambda>(token, install_ref).
          (Some (answer (\<lambda>(t, body). (200, BText t body))
             (render_for (ax_template env) (iv_sha (ax_install env)) (ax_now env) (ax_select env) (ax_read env) (ax_files env)
                (st_install st) os token install_ref (sn_db s))), s))
      | RCaPem \<Rightarrow> (Some (answer (\<lambda>(t, body). (200, BText t body)) (ca_pem_handler (ax_read env) (ax_files env) (st_install st))), s)
      | RDashboardConfig \<Rightarrow> (Some (200, BDashboard (dashboard_config_handler st)), s)
      | RAsset \<Rightarrow> (Some (asset (ax_assets env) (hd ps)), s)
      | RDashboard \<Rightarrow> (Some (200, BText (lit ''text/html; charset=utf-8'') (ax_html env)), s)
      | _ \<Rightarrow> (Some (200, health (ax_version env)), s))"

definition handle :: "api_env \<Rightarrow> route \<Rightarrow> rstr list \<Rightarrow> http_request \<Rightarrow> server \<Rightarrow> answer \<times> server" where
  "handle env r ps req s =
     (if r = RLogin then serve_login env req s
      else if r = RRefresh then serve_refresh env req s
      else if r \<in> {RAgents, RCommand, RInstall, REvents} then handle_agents env r ps req s
      else if r \<in> {RPolicies, RCreate, RPolicy, RUpdate, RDelete, RHistory, RRollback, RValidate}
      then handle_policies env r ps req s
      else handle_public env r ps req s)"

definition api_serve :: "api_env \<Rightarrow> http_request \<Rightarrow> server \<Rightarrow> answer \<times> server" where
  "api_serve env req s =
     (case resolve (hq_method req) (hq_path req) of
        Inl status \<Rightarrow> (Some (status, BNothing), s)
      | Inr (r, ps) \<Rightarrow> handle env r ps req s)"

section \<open>Who can change what\<close>

text \<open>Everything but the accounts' logins and refresh tokens.\<close>

definition same_but_sessions :: "server \<Rightarrow> server \<Rightarrow> bool" where
  "same_but_sessions s s' \<longleftrightarrow> sn_state s' = sn_state s \<and>
     (\<exists>users refreshes. sn_db s' = (sn_db s)\<lparr>db_users := users, db_refresh := refreshes\<rparr>)"

lemma same_refl [simp]: "same_but_sessions s s"
  by (simp add: same_but_sessions_def)
    (metis db.surjective db.update_convs(7) db.update_convs(8))

lemma insert_refresh_keeps: "insert_refresh out r d = (a, d') \<Longrightarrow> \<exists>rs. d' = d\<lparr>db_refresh := rs\<rparr>"
  by (cases a) (auto simp: insert_refresh_cases(1) dest!: insert_refresh_cases(2) intro: exI [of _ "db_refresh d"])

lemma issue_tokens_keeps: "issue_tokens env i n role d = (a, d') \<Longrightarrow> \<exists>rs. d' = d\<lparr>db_refresh := rs\<rparr>"
proof (cases "\<exists>resp. a = Some (Inr resp)")
  case True
  moreover assume "issue_tokens env i n role d = (a, d')"
  ultimately show ?thesis by (auto elim: issue_tokens_ok)
next
  case False
  moreover assume "issue_tokens env i n role d = (a, d')"
  ultimately have "d' = d" using issue_tokens_fail by blast
  then have "d' = d\<lparr>db_refresh := db_refresh d\<rparr>" by simp
  then show ?thesis by blast
qed

lemma same_set_db: "sn_db s = d \<Longrightarrow> d' = d\<lparr>db_users := us, db_refresh := rs\<rparr> \<Longrightarrow> same_but_sessions s (set_db d' s)"
  by (auto simp: same_but_sessions_def set_db_def)

lemma login_keeps: "login env u p d = (a, d') \<Longrightarrow> \<exists>us rs. d' = d\<lparr>db_users := us, db_refresh := rs\<rparr>"
proof -
  assume l: "login env u p d = (a, d')"
  have k: "\<exists>us rs. d = d\<lparr>db_users := us, db_refresh := rs\<rparr>"
    by (rule exI [of _ "db_users d"], rule exI [of _ "db_refresh d"]) simp
  show ?thesis
  proof (cases "login_check env u p d")
    case (Inl e) with l k show ?thesis by (simp add: login_def)
  next
    case (Inr v)
    show ?thesis
    proof (cases "au_update env")
      case None
      with l Inr have "issue_tokens env (us_id v) (us_username v) (us_role v) (set_last_login (au_now env) (us_id v) d) = (a, d')"
        by (simp add: login_def)
      from issue_tokens_keeps [OF this] show ?thesis by (auto simp: set_last_login_def)
    next
      case (Some e) with l Inr k show ?thesis by (simp add: login_def)
    qed
  qed
qed

lemma refresh_keeps: "refresh env t d = (a, d') \<Longrightarrow> \<exists>rs. d' = d\<lparr>db_refresh := rs\<rparr>"
proof -
  assume l: "refresh env t d = (a, d')"
  have k: "\<exists>rs. d = d\<lparr>db_refresh := rs\<rparr>" by (rule exI [of _ "db_refresh d"]) simp
  show ?thesis
  proof (cases "refresh_check env t d")
    case (Inl e) with l k show ?thesis by (simp add: refresh_def)
  next
    case (Inr v)
    show ?thesis
    proof (cases "au_update env")
      case None
      with l Inr have "issue_tokens env (us_id v) (us_username v) (us_role v) (revoke (hash_token (au_sha env) t) d) = (a, d')"
        by (simp add: refresh_def refresh_finish_def)
      from issue_tokens_keeps [OF this] show ?thesis by (auto simp: revoke_def)
    next
      case (Some e) with l Inr k show ?thesis by (simp add: refresh_def refresh_finish_def)
    qed
  qed
qed

lemma set_same [simp]:
  "set_db (sn_db s) s = s" "set_push (sn_db s) (st_policy_push_tx (sn_state s)) s = s"
  "set_command (st_command_tx (sn_state s)) s = s"
  by (simp_all add: set_db_def set_push_def set_command_def)

lemma serve_login_same: "serve_login env req s = (a, s') \<Longrightarrow> same_but_sessions s s'"
  unfolding serve_login_def with_input_def
  by (auto split: sum.splits prod.splits dest!: login_keeps intro: same_set_db [OF refl])

lemma serve_refresh_same: "serve_refresh env req s = (a, s') \<Longrightarrow> same_but_sessions s s'"
proof -
  have k: "\<exists>us rs. d' = d\<lparr>db_users := us, db_refresh := rs\<rparr>" if "\<exists>rs. d' = d\<lparr>db_refresh := rs\<rparr>" for d d' :: db
  proof -
    from that obtain rs where "d' = d\<lparr>db_users := db_users d, db_refresh := rs\<rparr>" by auto
    then show ?thesis by blast
  qed
  show "serve_refresh env req s = (a, s') \<Longrightarrow> same_but_sessions s s'"
    unfolding serve_refresh_def with_input_def
    by (auto split: sum.splits prod.splits dest!: refresh_keeps [THEN k] intro: same_set_db [OF refl])
qed

text \<open>Without the administrator's role every handler but the list of agents is refused before it does anything.\<close>

lemma handlers_forbidden:
  assumes "cl_role c \<noteq> lit ''admin''"
  shows "create pe c y r d tx = (Inl Forbidden, d, tx)" "update pe c n y r d tx = (Inl Forbidden, d, tx)"
    "delete_handler pe c n d tx = (Inl Forbidden, d, tx)" "rollback pe c n v d tx = (Inl Forbidden, d, tx)"
    "send_command b64 out uuid c agent q d ch = (Inl Forbidden, ch)" "install_create iv cfg c iq d = (Inl Forbidden, d)"
  using assms by (simp_all add: require_admin_def create_def create_check_def update_def update_check_def
      delete_handler_def rollback_def rollback_check_def send_command_def install_create_def Let_def)

lemma handle_agents_forbidden:
  assumes "cl_role c \<noteq> lit ''admin''" "from_request_parts (ax_decode env) (hq_authorization req) = Inr c"
    and "handle_agents env r ps req s = (a, s')"
  shows "s' = s"
  using assms(3) by (cases r) (auto simp: handle_agents_def with_claims_def assms(2) with_input_def
      handlers_forbidden [OF assms(1)] split: sum.splits)

lemma handle_policies_forbidden:
  assumes "cl_role c \<noteq> lit ''admin''" "from_request_parts (ax_decode env) (hq_authorization req) = Inr c"
    and "handle_policies env r ps req s = (a, s')"
  shows "s' = s"
  using assms(3) by (cases r) (auto simp: handle_policies_def with_claims_def assms(2) with_input_def
      handlers_forbidden [OF assms(1)] split: sum.splits prod.splits)

lemma no_claims_same:
  assumes "from_request_parts (ax_decode env) (hq_authorization req) = Inl e"
  shows "handle_agents env r ps req s = (Some (error_answer e), s)"
    "handle_policies env r ps req s = (Some (error_answer e), s)"
  by (simp_all add: handle_agents_def handle_policies_def with_claims_def assms)

lemma handle_public_same: "handle_public env r ps req s = (a, s') \<Longrightarrow> s' = s"
  by (cases r) (auto simp: handle_public_def with_input_def split: sum.splits prod.splits)

text \<open>C9: a request that changes anything but logins and refresh tokens, be it the database or what is sent to
  agents, carries a token the server decodes whose role is the administrator's; this holds for every method
  and path of the API.\<close>

theorem only_admins_change:
  assumes "api_serve env req s = (a, s')" "\<not> same_but_sessions s s'"
  shows "\<exists>c. from_request_parts (ax_decode env) (hq_authorization req) = Inr c \<and> cl_role c = lit ''admin''"
proof (rule ccontr)
  assume no: "\<not> ?thesis"
  obtain r ps where h: "handle env r ps req s = (a, s')"
    using assms by (auto simp: api_serve_def split: sum.splits)
  have ne: "s' \<noteq> s" using assms(2) by auto
  have "\<not> (handle_agents env r ps req s = (a, s') \<or> handle_policies env r ps req s = (a, s'))"
  proof (cases "from_request_parts (ax_decode env) (hq_authorization req)")
    case (Inl e)
    from no_claims_same [OF Inl] ne show ?thesis by auto
  next
    case (Inr c)
    with no have "cl_role c \<noteq> lit ''admin''" by blast
    then show ?thesis using handle_agents_forbidden [OF _ Inr] handle_policies_forbidden [OF _ Inr] ne by blast
  qed
  then show False
    using h assms(2) ne serve_login_same serve_refresh_same handle_public_same
    by (auto simp: handle_def split: if_splits)
qed

text \<open>A policy is reached under its name by reading, updating and deleting exactly when it is not called
  \<open>validate\<close>, which is a valid name: the path of that policy belongs to the validation endpoint, and the
  answer to these methods is 405.\<close>

theorem policy_reachable_iff:
  assumes "n \<noteq> []" "m \<in> {HGet, HPut, HDelete}"
  shows "slug (lit ''validate'') \<and>
    (resolve m [lit ''api'', lit ''v1'', lit ''policies'', n] =
       (if n = lit ''validate'' then Inl 405
        else Inr (case m of HGet \<Rightarrow> RPolicy | HPut \<Rightarrow> RUpdate | _ \<Rightarrow> RDelete, [n])))"
proof -
  have "slug (lit ''validate'')" by code_simp
  moreover have "matching [lit ''api'', lit ''v1'', lit ''policies'', n] =
      ([n], [(HGet, RPolicy), (HPut, RUpdate), (HDelete, RDelete)]) #
      (if n = lit ''validate'' then [([], [(HPost, RValidate)])] else [])"
    using assms(1) by (simp add: matching_def router_def v1_def List.map_filter_simps)
  ultimately show ?thesis using assms(2) by (auto simp: resolve_def)
qed

theorem policy_reachable_iff_witness:
  "resolve HGet [lit ''api'', lit ''v1'', lit ''policies'', lit ''validate''] = Inl 405 \<and>
   resolve HDelete [lit ''api'', lit ''v1'', lit ''policies'', lit ''p''] = Inr (RDelete, [lit ''p''])"
  using policy_reachable_iff [of "lit ''validate''" HGet] policy_reachable_iff [of "lit ''p''" HDelete] by simp

definition sample_rest :: api_env where
  "sample_rest = \<lparr>ax_decode = \<lambda>t. if t = lit ''x'' then Some sample_claims else None, ax_auth = sample_auth 1,
     ax_policy = sample_api None, ax_install = sample_install_env, ax_template = \<lambda>_. [], ax_now = 50, ax_select = None,
     ax_read = None, ax_files = \<lambda>_. None, ax_b64 = \<lambda>_. Inl [], ax_command_id = [], ax_version = [], ax_html = [],
     ax_assets = \<lambda>_. None, ax_login = \<lambda>_. Inl 400, ax_refresh = \<lambda>_. Inl 400, ax_command = \<lambda>_. Inl 400,
     ax_install_request = \<lambda>_. Inl 400, ax_policy_body = \<lambda>_. Inl 400, ax_validate = \<lambda>_. Inl 400, ax_events = \<lambda>_. Inl 400,
     ax_script = \<lambda>_. Inl 400, ax_path_uuid = \<lambda>_. Inl 400, ax_path_i32 = \<lambda>_. Inl 400\<rparr>"

definition sample_server :: server where
  "sample_server = \<lparr>sn_db = versioned_db 3, sn_state = \<lparr>st_auth = \<lparr>mat_encoding = [], mat_decoding = [],
       mat_access_ttl_secs = 1, mat_refresh_ttl_secs = 1\<rparr>, st_dashboard = dashboard_default, st_install = sample_install,
     st_command_tx = None, st_policy_push_tx = None\<rparr>\<rparr>"

definition delete_request :: http_request where
  "delete_request = \<lparr>hq_method = HDelete, hq_path = [lit ''api'', lit ''v1'', lit ''policies'', lit ''p''],
     hq_authorization = Some (lit ''Bearer x''), hq_query = [], hq_body = []\<rparr>"

lemma sample_bearer: "from_request_parts (ax_decode sample_rest) (Some (lit ''Bearer x'')) = Inr sample_claims"
proof -
  have "strip_prefix (lit ''Bearer '') (lit ''Bearer x'') = Some (lit ''x'')" "trim (lit ''x'') = lit ''x''"
    by code_simp+
  then show ?thesis by (simp add: from_request_parts_def sample_rest_def)
qed

theorem only_admins_change_witness:
  "\<exists>a s' c. api_serve sample_rest delete_request sample_server = (a, s') \<and> db_policies (sn_db s') = [] \<and>
     from_request_parts (ax_decode sample_rest) (hq_authorization delete_request) = Inr c \<and> cl_role c = lit ''admin''"
proof -
  have "matching [lit ''api'', lit ''v1'', lit ''policies'', lit ''p''] =
      [([lit ''p''], [(HGet, RPolicy), (HPut, RUpdate), (HDelete, RDelete)])]"
    by (simp add: matching_def router_def v1_def List.map_filter_simps)
  then have r: "resolve HDelete [lit ''api'', lit ''v1'', lit ''policies'', lit ''p''] = Inr (RDelete, [lit ''p''])"
    by (simp add: resolve_def)
  note t = sample_bearer
  have "\<exists>a d. delete_handler (sample_api None) sample_claims (lit ''p'') (versioned_db 3) None = (a, d, None) \<and> db_policies d = []"
    by (simp add: delete_handler_def require_admin_def sample_claims_def delete_policy_def sample_env_simps versioned_simps
        notify_policy_changed_def) (simp add: versioned_db_def sample_row_def)
  then obtain a d where d: "delete_handler (sample_api None) sample_claims (lit ''p'') (versioned_db 3) None = (a, d, None)"
    "db_policies d = []" by blast
  have "ax_policy sample_rest = sample_api None" by (simp add: sample_rest_def)
  with d r t obtain a' s' where s': "api_serve sample_rest delete_request sample_server = (a', s')" "sn_db s' = d"
    by (simp add: api_serve_def delete_request_def handle_def handle_policies_def with_claims_def sample_server_def set_push_def Let_def)
  have "db_policies (versioned_db 3) \<noteq> []" by (simp add: versioned_db_def)
  then have "\<not> same_but_sessions sample_server s'"
    using s'(2) d(2) by (auto simp: same_but_sessions_def sample_server_def)
  from only_admins_change [OF s'(1) this] s' d show ?thesis by blast
qed

end
