(* ===== verification/Stream_Tasks.thy ===== *)
theory Stream_Tasks
  imports Agent_Inbound
begin

text \<open>
  The two tasks of an accepted stream, \<open>stream\<close> of \<open>scrooge-manager-bin/src/grpc.rs\<close>: the first push is spawned beside
  the loop over the agent's messages, so their statements and sends come in any order. \<open>push_turn\<close> is one statement
  or send of a push, the first of a stream or that of \<open>run_policy_push_bridge\<close>; a schedule of turns is a list.
\<close>

section \<open>A push, turn by turn\<close>

text \<open>A push before its query; with the policies it loaded and those it has still to mark; and at its end.\<close>

datatype push_task = PushLoad | PushMark "policy_ref list" "policy_ref list" | PushDone

definition push_turn ::
  "(rstr \<Rightarrow> rstr \<Rightarrow> bool) \<Rightarrow> push_env \<Rightarrow> uuid \<Rightarrow> push_task \<Rightarrow> db \<Rightarrow> manager_message chan \<Rightarrow>
   push_task \<times> db \<times> manager_message chan" where
  "push_turn coll env agent t d tx =
     (case t of
        PushLoad \<Rightarrow>
          (case load_pending_policies coll (ps_load env) agent d of
             Inl e \<Rightarrow> (PushDone, d, tx)
           | Inr [] \<Rightarrow> (PushDone, d, tx)
           | Inr (p # ps) \<Rightarrow> (PushMark (p # ps) (p # ps), d, tx))
      | PushMark ps (q # qs) \<Rightarrow>
          (PushMark ps qs,
           snd (mark_assigned (ps_assign env (pref_policy_id q)) (ps_now env) agent
             (pref_policy_id q) (unwrap_or 0 (i32_of_u32 (pref_version q))) d),
           tx)
      | PushMark ps [] \<Rightarrow> (PushDone, d, (case ch_send (update_message ps) tx of None \<Rightarrow> tx | Some tx \<Rightarrow> tx))
      | PushDone \<Rightarrow> (PushDone, d, tx))"

fun push_turns ::
  "(rstr \<Rightarrow> rstr \<Rightarrow> bool) \<Rightarrow> uuid \<Rightarrow> push_env list \<Rightarrow> push_task \<Rightarrow> db \<Rightarrow> manager_message chan \<Rightarrow>
   push_task \<times> db \<times> manager_message chan" where
  "push_turns coll agent [] t d tx = (t, d, tx)"
| "push_turns coll agent (env # es) t d tx =
     (case push_turn coll env agent t d tx of (t, d, tx) \<Rightarrow> push_turns coll agent es t d tx)"

text \<open>What a push goes on to send.\<close>

definition to_send :: "push_task \<Rightarrow> policy_ref set" where
  "to_send t = (case t of PushMark ps qs \<Rightarrow> set ps | _ \<Rightarrow> {})"

lemma to_send_simps [simp]: "to_send PushLoad = {}" "to_send (PushMark ps qs) = set ps" "to_send PushDone = {}"
  by (simp_all add: to_send_def)

lemma push_turn_simps [simp]:
  "push_turn coll env a (PushMark ps (q # qs)) d tx = (PushMark ps qs,
     snd (mark_assigned (ps_assign env (pref_policy_id q)) (ps_now env) a (pref_policy_id q)
       (unwrap_or 0 (i32_of_u32 (pref_version q))) d), tx)"
  "push_turn coll env a (PushMark ps []) d tx =
     (PushDone, d, (case ch_send (update_message ps) tx of None \<Rightarrow> tx | Some tx \<Rightarrow> tx))"
  "push_turn coll env a PushDone d tx = (PushDone, d, tx)"
  by (simp_all add: push_turn_def)

text \<open>Turns taken one right after the other are the push as a whole.\<close>

lemma push_turns_done [simp]: "push_turns coll a es PushDone d tx = (PushDone, d, tx)"
  by (induction es) simp_all

lemma push_turns_mark:
  "push_turns coll a (replicate (length qs + Suc k) env) (PushMark ps qs) d tx =
     (PushDone, mark_all env a qs d, (case ch_send (update_message ps) tx of None \<Rightarrow> tx | Some tx \<Rightarrow> tx))"
  by (induction qs arbitrary: d) simp_all

lemma push_turns_pending:
  assumes "length (db_policies d) + 2 \<le> k"
  shows "push_turns coll a (replicate k env) PushLoad d tx =
    (case push_pending coll env a d tx of (d, tx) \<Rightarrow> (PushDone, d, tx))"
proof -
  obtain j where k: "k = Suc j" using assms by (cases k) auto
  show ?thesis
  proof (cases "load_pending_policies coll (ps_load env) a d")
    case (Inl e) then show ?thesis by (simp add: k push_turn_def push_pending_def)
  next
    case (Inr ps)
    then have "ps = map to_ref (order_by (push_order coll) (filter (is_pending d a) (db_policies d)))"
      by (auto simp: load_pending_policies_def sql_query_def split: option.splits)
    then have "mset ps = image_mset to_ref (mset (filter (is_pending d a) (db_policies d)))"
      by (simp add: mset_order_by)
    then have "length ps \<le> length (db_policies d)"
      by (metis length_filter_le mset_map size_mset length_map)
    then obtain i where "j = length ps + Suc i" using assms k by (metis Suc_leD add_2_eq_Suc' add_Suc_right le_Suc_ex le_trans not_less_eq_eq add.commute nat_le_iff_add)
    then show ?thesis using Inr push_turns_mark [of coll a ps i env ps d tx]
      by (cases ps) (simp_all add: k push_turn_def push_pending_def del: mark_all.simps)
  qed
qed

section \<open>The stream\<close>

text \<open>A turn of the push, a message that comes in, and the agent that goes away. A message that comes in after the end of
  the loop is never read.\<close>

datatype stream_turn = Pushing push_env | Incoming inbound_env "status + agent_message" | HangUp

fun stream_turns ::
  "(rstr \<Rightarrow> rstr \<Rightarrow> bool) \<Rightarrow> uuid \<Rightarrow> stream_turn list \<Rightarrow> push_task \<Rightarrow> bool \<Rightarrow> db \<Rightarrow> manager_message chan \<Rightarrow>
   db \<times> manager_message chan" where
  "stream_turns coll agent [] t reading d tx = (d, tx)"
| "stream_turns coll agent (Pushing env # ts) t reading d tx =
     (case push_turn coll env agent t d tx of (t, d, tx) \<Rightarrow> stream_turns coll agent ts t reading d tx)"
| "stream_turns coll agent (Incoming env msg # ts) t reading d tx =
     (if reading
      then (case handle_agent_message env agent msg d tx of
              (reading, d, tx) \<Rightarrow> stream_turns coll agent ts t reading d tx)
      else stream_turns coll agent ts t reading d tx)"
| "stream_turns coll agent (HangUp # ts) t reading d tx =
     stream_turns coll agent ts t reading d (tx\<lparr>ch_closed := True\<rparr>)"

text \<open>The handler: acceptance, then the two tasks.\<close>

definition stream_handler ::
  "(rstr \<Rightarrow> uuid option) \<Rightarrow> (u8 list \<Rightarrow> rstr option list option) \<Rightarrow> outcome \<Rightarrow> (rstr \<Rightarrow> rstr \<Rightarrow> bool) \<Rightarrow>
   u8 list list option \<Rightarrow> stream_turn list \<Rightarrow> db \<Rightarrow> (status + manager_message chan) \<times> db" where
  "stream_handler parse_uuid parse_x509 out coll certs ts d =
     (case stream_accept parse_uuid parse_x509 out certs d of
        Inl e \<Rightarrow> (Inl e, d)
      | Inr agent \<Rightarrow>
          (case stream_turns coll agent ts PushLoad True d \<lparr>ch_msgs = [], ch_closed = False\<rparr> of
             (d, tx) \<Rightarrow> (Inr tx, d)))"

text \<open>Without the push, the loop is \<open>stream_inbound\<close>.\<close>

lemma stream_turns_inbound:
  "stream_turns coll a (map (\<lambda>(env, msg). Incoming env msg) ms) t True d tx = stream_inbound a ms d tx"
proof -
  have off: "stream_turns coll a (map (\<lambda>(env, msg). Incoming env msg) ms) t False d tx = (d, tx)" for ms d tx
    by (induction ms) auto
  show ?thesis
  proof (induction ms arbitrary: d tx)
    case (Cons m ms)
    obtain env msg where m: "m = (env, msg)" by fastforce
    obtain b d1 tx1 where h: "handle_agent_message env a msg d tx = (b, d1, tx1)" by (metis prod_cases3)
    show ?case using Cons [of d1 tx1] off [of ms d1 tx1] by (cases b) (simp_all add: m h)
  qed simp
qed

lemma only_own_assigned: "only_own agent d (snd (mark_assigned out now agent n v d))"
  by (auto simp: only_own_def mark_assigned_def Let_def split: option.split intro!: filter_upd_other)

lemma only_own_turn: "push_turn coll env agent t d tx = (t', d', tx') \<Longrightarrow> only_own agent d d'"
  by (auto simp: push_turn_def only_own_assigned split: push_task.splits list.splits sum.splits)

lemma stream_turns_own: "stream_turns coll agent ts t reading d tx = (d', tx') \<Longrightarrow> only_own agent d d'"
proof (induction ts arbitrary: t reading d tx)
  case (Cons x ts)
  show ?case
  proof (cases x)
    case (Pushing env)
    obtain t1 d1 tx1 where p: "push_turn coll env agent t d tx = (t1, d1, tx1)" by (metis prod_cases3)
    with Cons.prems Pushing have "stream_turns coll agent ts t1 reading d1 tx1 = (d', tx')" by simp
    from Cons.IH [OF this] only_own_turn [OF p] show ?thesis by (rule only_own_trans [rotated])
  next
    case (Incoming env msg)
    obtain b d1 tx1 where h: "handle_agent_message env agent msg d tx = (b, d1, tx1)" by (metis prod_cases3)
    have "only_own agent d d1" using only_own_message [of agent d env msg tx] h by simp
    with Cons.prems Incoming h Cons.IH show ?thesis by (cases reading) (auto intro: only_own_trans)
  next
    case HangUp
    with Cons show ?thesis by simp
  qed
qed simp

text \<open>C13: whatever an agent sends on its stream, and however that mixes with the first push, the stream reaches
  only what is its own: its row, its assignments, and new events under its own id, whatever agent id they name.
  Policies, accounts, tokens and other agents are untouched, no stored event is changed, and a stream that is
  refused changes nothing.\<close>

theorem stream_reaches_only_own:
  assumes "stream_handler parse_uuid parse_x509 out coll certs ts d = (r, d')"
  shows "case r of
      Inl e \<Rightarrow> d' = d
    | Inr tx \<Rightarrow> \<exists>agent. stream_accept parse_uuid parse_x509 out certs d = Inr agent \<and> only_own agent d d'"
  using assms by (auto simp: stream_handler_def split: sum.splits prod.splits dest: stream_turns_own)

theorem stream_reaches_only_own_witness:
  "only_own 7 one_policy_db (snd (stream_handler (\<lambda>_. Some 7) (\<lambda>_. Some [Some []]) None (\<lambda>_ _. True) (Some [[]])
     [Pushing \<lparr>ps_load = None, ps_assign = \<lambda>_. None, ps_now = 5\<rparr>,
      Incoming sample_inbound (Inr (Some (AEvents sample_batch)))] one_policy_db))"
proof -
  let ?ts = "[Pushing \<lparr>ps_load = None, ps_assign = \<lambda>_. None, ps_now = 5\<rparr>,
      Incoming sample_inbound (Inr (Some (AEvents sample_batch)))]"
  obtain r d' where h: "stream_handler (\<lambda>_. Some 7) (\<lambda>_. Some [Some []]) None (\<lambda>_ _. True) (Some [[]]) ?ts one_policy_db
      = (r, d')" by fastforce
  have a: "stream_accept (\<lambda>_. Some 7) (\<lambda>_. Some [Some []]) None (Some [[]]) one_policy_db = Inr 7"
    by (simp add: stream_accept_def extract_agent_id_def)
  then obtain tx where "r = Inr tx" using h by (auto simp: stream_handler_def split: prod.splits)
  with stream_reaches_only_own [OF h] a h show ?thesis by simp
qed

end
