(* ===== verification/Statements.thy ===== *)
theory Statements
  imports Rest_Api Stream_Tasks Cli
begin

text \<open>
  The manager's database under concurrency. PostgreSQL runs the statements of all handlers one at a time, in
  any order the handlers' own progress allows. \<open>stmt\<close> has a rule for each statement of the manager and
  of \<open>scroogectl\<close> that writes, with the constraints of the schema under which it succeeds and what the code
  guarantees about its values; a run of \<open>stmt\<close> is any interleaving of handlers. Each operation is shown to be
  such a run, so whatever every statement keeps is kept however handlers overlap.
\<close>

section \<open>Statements\<close>

inductive stmt :: "db \<Rightarrow> db \<Rightarrow> bool" where
  insert_agent: "insert_agent None a d = (Inr (), d') \<Longrightarrow> ag_status a = lit ''active'' \<Longrightarrow> stmt d d'"
| count_use: "stmt d (increment_uses h d)"
| touch: "stmt d (touch_agent now v a d)"
| assign: "mark_assigned None now a n v d = (Inr (), d') \<Longrightarrow> is_i32 v \<Longrightarrow> stmt d d'"
| ack: "is_i32 v \<Longrightarrow> stmt d (ack_at a n v d)"
| events: "insert_event_batch env a b d = (Inr k, d') \<Longrightarrow> a \<in> ag_id ` set (db_agents d) \<Longrightarrow> stmt d d'"
| insert_policy: "insert_policy None p d = (Inr (), d') \<Longrightarrow> slug (po_name p) \<Longrightarrow> is_i32 (po_version p) \<Longrightarrow>
    is_i32 (po_priority p) \<Longrightarrow> stmt d d'"
| write_policy: "is_i32 v \<Longrightarrow> stmt d (write_policy now n v y pct who d)"
| history: "is_i32 v \<Longrightarrow> stmt d (append_history now n v y who re d)"
| delete_policy: "stmt d (snd (delete_policy None n d))"
| insert_refresh: "insert_refresh None r d = (Inr (), d') \<Longrightarrow> stmt d d'"
| revoke: "stmt d (revoke h d)"
| last_login: "stmt d (set_last_login now u d)"
| insert_token: "insert_token None t d = (Inr (), d') \<Longrightarrow> et_uses_count t = 0 \<Longrightarrow>
    (\<And>m. et_max_uses t = Some m \<Longrightarrow> is_i32 m) \<Longrightarrow> et_expires_at t \<noteq> None \<Longrightarrow> stmt d d'"
| insert_user: "insert_user None i u h (lit ''admin'') d = (Inr k, d') \<Longrightarrow> stmt d d'"

abbreviation stmts :: "db \<Rightarrow> db \<Rightarrow> bool" where
  "stmts \<equiv> stmt\<^sup>*\<^sup>*"

lemma stmts_trans: "stmts d e \<Longrightarrow> stmts e f \<Longrightarrow> stmts d f"
  by (rule rtranclp_trans)

lemma stmts_step: "stmts d e \<Longrightarrow> stmt e f \<Longrightarrow> stmts d f"
  by (rule rtranclp.rtrancl_into_rtrancl)

text \<open>A statement whose outcome is an argument.\<close>

lemma stmts_exec: "(\<And>d. stmt d (f d)) \<Longrightarrow> sql_exec out f d = (r, d') \<Longrightarrow> stmts d d'"
  by (cases out) auto

text \<open>What every statement keeps, every interleaving keeps. A property of the database that is to hold however handlers
  overlap is an interpretation of this interface; its instances are in \<open>Schema\<close>.\<close>

locale statement_invariant =
  fixes I :: "db \<Rightarrow> bool"
  assumes keeps: "stmt d d' \<Longrightarrow> I d \<Longrightarrow> I d'"
begin

lemma stmts_keep: "stmts d d' \<Longrightarrow> I d \<Longrightarrow> I d'"
  by (induction rule: rtranclp_induct) (auto intro: keeps)

end

section \<open>Operations are runs of statements\<close>

lemma finish_stmts:
  assumes f: "enroll_finish env req info d = (r, d')"
  shows "stmts d d'"
proof -
  have ins: "stmts d e" if "insert_agent out a d = (x, e)" "ag_status a = lit ''active''" for out a x e
  proof (cases x)
    case (Inl b) then show ?thesis using insert_agent_err that(1) by blast
  next
    case (Inr u)
    then have "insert_agent None a d = (Inr (), e)" using that(1) by (auto simp: insert_agent_ok)
    with that(2) show ?thesis by (blast intro: stmt.insert_agent)
  qed
  have cnt: "stmts e (snd (sql_exec out (increment_uses h) e))" for out h e
    using stmts_exec [of "increment_uses h" out e] stmt.count_use by (metis surj_pair snd_conv)
  show ?thesis using f
    by (auto simp: enroll_finish_def Let_def split: option.splits sum.splits prod.splits
        dest!: ins intro: stmts_trans [OF _ cnt])
qed

lemma enroll_stmts: "enroll env req d = (r, d') \<Longrightarrow> stmts d d'"
  by (auto simp: enroll_def split: sum.splits dest: finish_stmts)

lemma batch_stmts:
  assumes "a \<in> ag_id ` set (db_agents d)"
  shows "stmts d (snd (insert_event_batch env a b d))"
proof (cases "insert_event_batch env a b d")
  case (Pair x e)
  show ?thesis
  proof (cases x)
    case (Inl y)
    then have "e = d" using Pair by (auto simp: insert_event_batch_def split: option.splits sum.splits)
    then show ?thesis using Pair by simp
  next
    case (Inr k) with Pair assms show ?thesis by (auto intro: stmt.events)
  qed
qed

lemma is_i32_of_u32': "is_i32 (unwrap_or 0 (i32_of_u32 w))"
proof (cases "unat w < 2 ^ 31")
  case True
  then have "unat w < 2147483648" by simp
  then have "int (unat w) < 2147483648" "- 2147483648 \<le> int (unat w)" by linarith+
  with True show ?thesis by (simp add: i32_of_u32_def is_i32_def)
qed (simp add: i32_of_u32_def is_i32_def)

lemma message_stmts:
  assumes "a \<in> ag_id ` set (db_agents d)" "handle_agent_message env a msg d tx = (b, d', tx')"
  shows "stmts d d'"
proof -
  have touch: "stmts d (snd (sql_exec out (touch_agent now v a) d))" for out now v
    using stmts_exec [of "touch_agent now v a" out d] stmt.touch by (metis surj_pair snd_conv)
  have ack: "stmts d (snd (mark_acked out a n (unwrap_or 0 (i32_of_u32 w)) d))" for out n w
    using stmt.ack [OF is_i32_of_u32', of d a n w]
    by (cases out) (auto simp: mark_acked_def ack_at_def)
  from assms(2) show ?thesis
    by (auto simp: handle_agent_message_def Let_def touch ack batch_stmts [OF assms(1)]
        split: sum.splits option.splits agent_payload.splits)
qed

text \<open>No message changes which agents there are.\<close>

lemma message_agents:
  "handle_agent_message env a msg d tx = (b, d', tx') \<Longrightarrow> ag_id ` set (db_agents d') = ag_id ` set (db_agents d)"
proof -
  assume "handle_agent_message env a msg d tx = (b, d', tx')"
  then have "map ag_id (db_agents d') = map ag_id (db_agents d)"
    using only_own_message [of a d env msg tx] by (simp add: only_own_def)
  then show ?thesis by (metis set_map)
qed

lemma inbound_stmts:
  "a \<in> ag_id ` set (db_agents d) \<Longrightarrow> stream_inbound a ms d tx = (d', tx') \<Longrightarrow> stmts d d'"
proof (induction ms arbitrary: d tx)
  case (Cons x ms)
  obtain env msg where x: "x = (env, msg)" by fastforce
  obtain b e tx1 where h: "handle_agent_message env a msg d tx = (b, e, tx1)" by (metis prod_cases3)
  have "stmts d e" using message_stmts Cons.prems(1) h by blast
  moreover have "a \<in> ag_id ` set (db_agents e)" using message_agents [OF h] Cons.prems(1) by simp
  ultimately show ?case using Cons x h by (cases b) (auto intro: stmts_trans)
qed simp

lemma mark_all_stmts: "stmts d (mark_all env a ps d)"
proof (induction ps arbitrary: d)
  case (Cons p ps)
  let ?v = "unwrap_or 0 (i32_of_u32 (pref_version p))"
  obtain r e where m: "mark_assigned (ps_assign env (pref_policy_id p)) (ps_now env) a (pref_policy_id p) ?v d = (r, e)"
    by fastforce
  have "stmts d e"
  proof (cases r)
    case (Inl x) with m show ?thesis by (auto simp: mark_assigned_def Let_def split: option.splits if_splits)
  next
    case (Inr u)
    then have "ps_assign env (pref_policy_id p) = None" using m by (auto simp: mark_assigned_def split: option.splits)
    with m Inr have "mark_assigned None (ps_now env) a (pref_policy_id p) ?v d = (Inr (), e)" by simp
    then show ?thesis using is_i32_of_u32' by (blast intro: stmt.assign)
  qed
  with Cons.IH [of e] m show ?case by (simp add: stmts_trans)
qed simp

lemma push_stmts: "push_pending coll env a d tx = (d', tx') \<Longrightarrow> stmts d d'"
  by (auto simp: push_pending_def mark_all_stmts simp del: mark_all.simps split: sum.splits list.splits)

lemma turn_stmts:
  assumes "push_turn coll env a t d tx = (t', d', tx')"
  shows "stmts d d'"
proof (cases t)
  case (PushMark ps qs)
  show ?thesis
  proof (cases qs)
    case (Cons q qs')
    then have "d' = mark_all env a [q] d" using assms PushMark by simp
    then show ?thesis by (simp only: mark_all_stmts)
  qed (use assms PushMark in simp)
qed (use assms in \<open>auto simp: push_turn_def split: sum.splits list.splits\<close>)

lemma stream_turns_stmts:
  "a \<in> ag_id ` set (db_agents d) \<Longrightarrow> stream_turns coll a ts t b d tx = (d', tx') \<Longrightarrow> stmts d d'"
proof (induction ts arbitrary: t b d tx)
  case (Cons x ts)
  have agents: "a \<in> ag_id ` set (db_agents e)" if "only_own a d e" for e
  proof -
    from that have "map ag_id (db_agents e) = map ag_id (db_agents d)" by (simp add: only_own_def)
    then have "ag_id ` set (db_agents e) = ag_id ` set (db_agents d)" by (metis set_map)
    with Cons.prems(1) show ?thesis by simp
  qed
  show ?case
  proof (cases x)
    case (Pushing env)
    obtain t1 d1 tx1 where p: "push_turn coll env a t d tx = (t1, d1, tx1)" by (metis prod_cases3)
    with Cons.prems Pushing have "stream_turns coll a ts t1 b d1 tx1 = (d', tx')" by simp
    from Cons.IH [OF agents [OF only_own_turn [OF p]] this] turn_stmts [OF p] show ?thesis by (rule stmts_trans [rotated])
  next
    case (Incoming env msg)
    obtain b1 d1 tx1 where h: "handle_agent_message env a msg d tx = (b1, d1, tx1)" by (metis prod_cases3)
    have o: "only_own a d d1" using only_own_message [of a d env msg tx] h by simp
    show ?thesis
    proof (cases b)
      case True
      with Cons.prems(2) Incoming h have "stream_turns coll a ts t b1 d1 tx1 = (d', tx')" by simp
      from message_stmts [OF Cons.prems(1) h] Cons.IH [OF agents [OF o] this] show ?thesis by (rule stmts_trans)
    next
      case False
      with Cons.prems(2) Incoming have "stream_turns coll a ts t b d tx = (d', tx')" by simp
      from Cons.IH [OF Cons.prems(1) this] show ?thesis .
    qed
  next
    case HangUp
    with Cons show ?thesis by simp
  qed
qed simp

lemma broadcast_stmts: "broadcast coll ts d chs = (d', chs') \<Longrightarrow> stmts d d'"
proof (induction ts arbitrary: d chs)
  case (Cons t ts)
  obtain a r env where t: "t = (a, r, env)" by (rule prod_cases3)
  show ?case
  proof (cases "reg_get a r")
    case None with Cons t show ?thesis by simp
  next
    case (Some tx)
    obtain e ch where p: "push_pending coll env a d (chs tx) = (e, ch)" by fastforce
    with Cons.prems t Some have "broadcast coll ts e (chs(tx := ch)) = (d', chs')" by simp
    from Cons.IH [OF this] push_stmts [OF p] show ?thesis by (rule stmts_trans [rotated])
  qed
qed simp

text \<open>The handlers of policies.\<close>

lemma store_stmts:
  assumes "store_version env n v y pct who re d tx = (r, d', tx')" "is_i32 v"
  shows "stmts d d'"
proof -
  have w: "stmts d e" if "sql_exec out (write_policy now n v y pct who) d = (x, e)" for out now x e
    by (rule stmts_exec [OF stmt.write_policy [OF assms(2)] that])
  have h: "stmts e f" if "sql_exec out (append_history now n v y who re) e = (x, f)" for out now x e f
    by (rule stmts_exec [OF stmt.history [OF assms(2)] that])
  from assms(1) show ?thesis
    by (auto simp: store_version_def split: sum.splits prod.splits dest!: w h intro: stmts_trans)
qed

lemma is_i32_sint: "is_i32 (sint (w :: 32 word))"
  using sint_range_size [of w] by (simp add: is_i32_def word_size)

lemma create_stmts:
  assumes "create env c y re d tx = (r, d', tx')"
  shows "stmts d d'"
proof (cases "create_check env c y d")
  case (Inr z)
  obtain p cp t who where z: "z = ((p, cp, t), who)" by (metis prod_cases3 surj_pair)
  let ?n = "md_name (p_metadata p)" let ?v = "unwrap_or 1 (i32_of_u32 (md_version (p_metadata p)))"
  have "slug ?n"
    using Inr z by (auto simp: create_check_def res_bind_Inr_iff dest!: parse_and_compile_ok from_yaml_slug split: if_splits)
  then have w: "stmts d e" if "insert_policy out \<lparr>po_name = ?n,
      po_version = ?v, po_content_yaml = y, po_content_compiled = b,
      po_content_hash = h, po_targets = tg, po_priority = sint (p_priority p), po_enabled = en, po_created_at = ca,
      po_updated_at = ua, po_created_by = cb, po_updated_by = ub\<rparr> d = (x, e)" for out b h tg en ca ua cb ub x e
  proof (cases x)
    case (Inl i) with that show ?thesis by (auto simp: insert_policy_def split: option.splits if_splits)
  next
    case (Inr u)
    let ?p = "\<lparr>po_name = ?n, po_version = ?v, po_content_yaml = y, po_content_compiled = b,
      po_content_hash = h, po_targets = tg, po_priority = sint (p_priority p), po_enabled = en, po_created_at = ca,
      po_updated_at = ua, po_created_by = cb, po_updated_by = ub\<rparr>"
    have "insert_policy None ?p d = (Inr (), e)" using that Inr by (auto simp: insert_policy_def split: option.splits)
    from stmt.insert_policy [OF this] \<open>slug ?n\<close> is_i32_of_u32 is_i32_sint show ?thesis
      by (simp add: r_into_rtranclp)
  qed
  have h: "stmts e f" if "sql_exec out (append_history now ?n ?v y who re) e = (x, f)" for out now re x e f
    by (rule stmts_exec [OF stmt.history [OF is_i32_of_u32] that])
  from assms show ?thesis unfolding create_def Inr z
    by (auto simp: Let_def split: sum.splits prod.splits dest!: w h intro: stmts_trans)
qed (use assms in \<open>simp add: create_def\<close>)

lemma update_stmts: "update env c n y re d tx = (r, d', tx') \<Longrightarrow> stmts d d'"
  by (auto simp: update_def is_i32_wrap split: sum.splits prod.splits dest: store_stmts)

lemma rollback_stmts: "rollback env c n v d tx = (r, d', tx') \<Longrightarrow> stmts d d'"
  by (auto simp: rollback_def is_i32_wrap split: sum.splits prod.splits dest: store_stmts)

lemma delete_stmts: "delete_handler env c n d tx = (r, d', tx') \<Longrightarrow> stmts d d'"
proof -
  have w: "stmts d e" if "delete_policy out n d = (x, e)" for out x e
    using that stmt.delete_policy [of d n] by (cases out) (auto simp: delete_policy_def)
  show "delete_handler env c n d tx = (r, d', tx') \<Longrightarrow> stmts d d'"
    by (auto simp: delete_handler_def split: sum.splits prod.splits bool.splits dest!: w)
qed

text \<open>Accounts and tokens.\<close>

lemma issue_stmts: "issue_tokens env i n role d = (r, d') \<Longrightarrow> stmts d d'"
proof -
  have w: "stmts d e" if "insert_refresh out t d = (x, e)" for out t x e
  proof (cases x)
    case (Inl y) with that show ?thesis by (auto dest: insert_refresh_cases(2))
  next
    case (Inr u)
    with that have "insert_refresh None t d = (Inr (), e)" by (auto simp: insert_refresh_cases(1))
    then show ?thesis by (blast intro: stmt.insert_refresh)
  qed
  show "issue_tokens env i n role d = (r, d') \<Longrightarrow> stmts d d'"
    by (auto simp: issue_tokens_def Let_def split: option.splits sum.splits prod.splits dest!: w)
qed

lemma login_stmts: "login env u p d = (r, d') \<Longrightarrow> stmts d d'"
proof -
  have w: "stmts d e" if "sql_exec out (set_last_login now i) d = (x, e)" for out now i x e
    by (rule stmts_exec [OF stmt.last_login that])
  show "login env u p d = (r, d') \<Longrightarrow> stmts d d'"
    by (auto simp: login_def split: sum.splits prod.splits dest!: w issue_stmts intro: stmts_trans)
qed

lemma refresh_stmts: "refresh env t d = (r, d') \<Longrightarrow> stmts d d'"
proof -
  have w: "stmts d e" if "sql_exec out (revoke h) d = (x, e)" for out h x e
    by (rule stmts_exec [OF stmt.revoke that])
  show "refresh env t d = (r, d') \<Longrightarrow> stmts d d'"
    by (auto simp: refresh_def refresh_finish_def split: sum.splits prod.splits dest!: w issue_stmts intro: stmts_trans)
qed

lemma token_stmts:
  "insert_token out t d = (x, e) \<Longrightarrow> et_uses_count t = 0 \<Longrightarrow> (\<And>m. et_max_uses t = Some m \<Longrightarrow> is_i32 m) \<Longrightarrow>
   et_expires_at t \<noteq> None \<Longrightarrow> stmts d e"
proof (cases x)
  case (Inl y)
  then show "insert_token out t d = (x, e) \<Longrightarrow> stmts d e" by (auto simp: insert_token_def split: option.splits if_splits)
next
  case (Inr u)
  assume i: "insert_token out t d = (x, e)" "et_uses_count t = 0" "\<And>m. et_max_uses t = Some m \<Longrightarrow> is_i32 m"
    "et_expires_at t \<noteq> None"
  then have "insert_token None t d = (Inr (), e)" using Inr by (auto simp: insert_token_def split: option.splits)
  then show ?thesis using i(2-4) by (blast intro: stmt.insert_token)
qed

lemma install_stmts: "install_create env cfg c q d = (r, d') \<Longrightarrow> stmts d d'"
  by (auto simp: install_create_def Let_def is_i32_def split: sum.splits prod.splits dest!: token_stmts)

lemma gen_token_stmts: "gen_token env ds mu vd d = (r, d') \<Longrightarrow> stmts d d'"
  by (auto simp: gen_token_def Let_def is_i32_sint split: option.splits sum.splits prod.splits dest!: token_stmts)

lemma bootstrap_stmts: "bootstrap_admin bh out i u p d = (r, d') \<Longrightarrow> stmts d d'"
proof -
  have w: "stmts d e" if "insert_user out i u h (lit ''admin'') d = (x, e)" for h x e
  proof (cases x)
    case (Inl y) with that show ?thesis by (auto simp: insert_user_def split: option.splits if_splits)
  next
    case (Inr k)
    then have "out = None" using that by (auto simp: insert_user_def split: option.splits)
    with that Inr have "insert_user None i u h (lit ''admin'') d = (Inr k, e)" by simp
    then show ?thesis by (blast intro: stmt.insert_user)
  qed
  show "bootstrap_admin bh out i u p d = (r, d') \<Longrightarrow> stmts d d'"
    by (auto simp: bootstrap_admin_def split: if_splits sum.splits prod.splits dest!: w)
qed

text \<open>The whole REST API.\<close>

lemma set_db_simps [simp]: "sn_db (set_db d s) = d" "sn_db (set_push d tx s) = d" "sn_db (set_command ch s) = sn_db s"
  by (simp_all add: set_db_def set_push_def set_command_def)

lemma handle_agents_stmts: "handle_agents env r ps req s = (a, s') \<Longrightarrow> stmts (sn_db s) (sn_db s')"
  by (cases r) (auto simp: handle_agents_def with_claims_def with_input_def Let_def dest!: install_stmts
      split: sum.splits prod.splits)

lemma handle_policies_stmts: "handle_policies env r ps req s = (a, s') \<Longrightarrow> stmts (sn_db s) (sn_db s')"
  by (cases r) (auto simp: handle_policies_def with_claims_def with_input_def Let_def
      dest!: create_stmts update_stmts delete_stmts rollback_stmts split: sum.splits prod.splits)

lemma serve_stmts: "api_serve env req s = (a, s') \<Longrightarrow> stmts (sn_db s) (sn_db s')"
  by (auto simp: api_serve_def handle_def serve_login_def serve_refresh_def with_input_def
      dest!: handle_agents_stmts handle_policies_stmts handle_public_same login_stmts refresh_stmts
      split: sum.splits prod.splits if_splits)

end
