(* ===== verification/Schema.thy ===== *)
theory Schema
  imports Statements "HOL-Library.Sublist"
begin

text \<open>
  What every interleaving of the manager's statements keeps: the constraints of the schema in \<open>src/migrations\<close> with
  what the code adds to them, and the records that are permanent. The operations of the manager as a whole are runs
  of statements, so both hold however they overlap.
\<close>

section \<open>The schema\<close>

text \<open>The constraints of \<open>src/migrations\<close>, table by table, with what the code adds: slugs for names and an agent for
  every event.\<close>

definition agents_ok :: "db \<Rightarrow> bool" where
  "agents_ok d \<longleftrightarrow> distinct (map ag_id (db_agents d)) \<and> distinct (map ag_cert_fingerprint (db_agents d)) \<and>
     (\<forall>a \<in> set (db_agents d). valid_os (ag_os a) \<and>
        ag_status a \<in> {lit ''active'', lit ''disconnected'', lit ''disabled'', lit ''pending''})"

definition policies_ok :: "db \<Rightarrow> bool" where
  "policies_ok d \<longleftrightarrow> distinct (map po_name (db_policies d)) \<and>
     (\<forall>p \<in> set (db_policies d). slug (po_name p) \<and> is_i32 (po_version p) \<and> is_i32 (po_priority p))"

definition history_ok :: "db \<Rightarrow> bool" where
  "history_ok d \<longleftrightarrow> distinct (map hi_id (db_history d)) \<and>
     (\<forall>h \<in> set (db_history d). hi_id h \<le> db_history_seq d \<and> is_i32 (hi_version h))"

definition assignments_ok :: "db \<Rightarrow> bool" where
  "assignments_ok d \<longleftrightarrow> distinct (map (\<lambda>r. (pas_agent_id r, pas_policy_name r)) (db_assignments d)) \<and>
     (\<forall>r \<in> set (db_assignments d). pas_agent_id r \<in> ag_id ` set (db_agents d) \<and>
        pas_policy_name r \<in> po_name ` set (db_policies d) \<and> is_i32 (pas_assigned_version r) \<and>
        (case pas_acked_version r of None \<Rightarrow> True | Some v \<Rightarrow> is_i32 v))"

definition events_ok :: "db \<Rightarrow> bool" where
  "events_ok d \<longleftrightarrow> distinct (map er_key (db_events d)) \<and>
     (\<forall>r \<in> set (db_events d). event_checks r \<and> er_agent_id r \<in> ag_id ` set (db_agents d))"

definition users_ok :: "db \<Rightarrow> bool" where
  "users_ok d \<longleftrightarrow> distinct (map us_id (db_users d)) \<and> distinct (map us_username (db_users d)) \<and>
     (\<forall>u \<in> set (db_users d). us_role u \<in> {lit ''admin'', lit ''analyst'', lit ''viewer''})"

definition tokens_ok :: "db \<Rightarrow> bool" where
  "tokens_ok d \<longleftrightarrow> distinct (map rt_token_hash (db_refresh d)) \<and>
     (\<forall>t \<in> set (db_refresh d). rt_user_id t \<in> us_id ` set (db_users d)) \<and>
     distinct (map et_token_hash (db_enrollment d)) \<and> (\<forall>t \<in> set (db_enrollment d). 0 \<le> et_uses_count t \<and>
       is_i32 (et_uses_count t) \<and> (case et_max_uses t of None \<Rightarrow> True | Some m \<Rightarrow> is_i32 m))"

definition schema :: "db \<Rightarrow> bool" where
  "schema d \<longleftrightarrow> agents_ok d \<and> policies_ok d \<and> history_ok d \<and> assignments_ok d \<and> events_ok d \<and> users_ok d \<and> tokens_ok d"

lemmas schema_defs = schema_def agents_ok_def policies_ok_def history_ok_def assignments_ok_def events_ok_def
  users_ok_def tokens_ok_def

lemma schema_empty: "schema empty_db"
  by (simp add: schema_defs empty_db_def)

lemma upd_keys:
  "map ag_id (upd P (\<lambda>r. r\<lparr>ag_last_seen := l, ag_agent_version := g r\<rparr>) as) = map ag_id as"
  "map ag_cert_fingerprint (upd P (\<lambda>r. r\<lparr>ag_last_seen := l, ag_agent_version := g r\<rparr>) as) = map ag_cert_fingerprint as"
  "map (\<lambda>r. (pas_agent_id r, pas_policy_name r)) (upd Q (\<lambda>r. r\<lparr>pas_acked_version := v\<rparr>) rs) =
     map (\<lambda>r. (pas_agent_id r, pas_policy_name r)) rs"
  "map (\<lambda>r. (pas_agent_id r, pas_policy_name r)) (upd Q (\<lambda>r. r\<lparr>pas_assigned_version := x, pas_last_pushed_at := y\<rparr>) rs) =
     map (\<lambda>r. (pas_agent_id r, pas_policy_name r)) rs"
  "map us_id (upd R (\<lambda>u. u\<lparr>us_last_login := z\<rparr>) us) = map us_id us"
  "map us_username (upd R (\<lambda>u. u\<lparr>us_last_login := z\<rparr>) us) = map us_username us"
  "map rt_token_hash (upd S (\<lambda>t. t\<lparr>rt_revoked := True\<rparr>) ts) = map rt_token_hash ts"
  "map et_token_hash (upd T count_use es) = map et_token_hash es"
  by (rule map_upd_key; simp)+

lemmas upd_images = upd_keys [THEN arg_cong [where f = set], unfolded set_map]

text \<open>A run of inserts into the events keeps their constraints.\<close>

lemma batch_effect:
  assumes "insert_event_batch env a b d = (Inr k, d')"
  obtains new where "d' = d\<lparr>db_events := db_events d @ new\<rparr>" "\<And>r. r \<in> set new \<Longrightarrow> event_checks r \<and> er_agent_id r = a"
    "distinct (map er_key (db_events d)) \<Longrightarrow> distinct (map er_key (db_events d @ new))"
    "\<And>r. r \<in> set new \<Longrightarrow> \<exists>i ev. r = event_to_row env a i ev"
proof -
  obtain rs where i: "insert_events env a 0 (eb_events b) 0 (db_events d) = Inr (k, rs)" "d' = d\<lparr>db_events := rs\<rparr>"
    using assms by (auto simp: insert_event_batch_def split: option.splits sum.splits)
  let ?new = "new_rows (db_events d) (batch_rows env a 0 (eb_events b))"
  have row: "event_checks r \<and> er_agent_id r = a" if "r \<in> set (batch_rows env a i evs)" for r i evs
    using that by (auto simp: batch_rows_def event_to_row_checks) (simp add: event_to_row_def)
  have conv: "\<exists>i ev. r = event_to_row env a i ev" if "r \<in> set (batch_rows env a i evs)" for r i evs
    using that by (auto simp: batch_rows_def)
  show thesis
    using that [of ?new] i insert_events_ok [OF i(1)] new_rows_subset new_rows_distinct row conv by blast
qed

lemma assign_effect:
  assumes "mark_assigned None now a n v d = (Inr (), d')" "is_i32 v" "assignments_ok d"
  obtains rs where "d' = d\<lparr>db_assignments := rs\<rparr>" "assignments_ok (d\<lparr>db_assignments := rs\<rparr>)"
proof -
  let ?same = "\<lambda>r. pas_agent_id r = a \<and> pas_policy_name r = n"
  have k: "a \<in> ag_id ` set (db_agents d)" "n \<in> po_name ` set (db_policies d)"
    using assms(1) unfolding mark_assigned_def by (simp_all split: if_splits)
  show thesis
  proof (cases "find ?same (db_assignments d)")
    case None
    let ?r = "\<lparr>pas_agent_id = a, pas_policy_name = n, pas_assigned_version = v, pas_acked_version = None,
      pas_last_pushed_at = Some now\<rparr>"
    have "d' = d\<lparr>db_assignments := db_assignments d @ [?r]\<rparr>"
      using assms(1) k None by (simp add: mark_assigned_def)
    moreover have "(a, n) \<notin> (\<lambda>r. (pas_agent_id r, pas_policy_name r)) ` set (db_assignments d)"
      using None by (auto simp: find_None_iff)
    then have "assignments_ok (d\<lparr>db_assignments := db_assignments d @ [?r]\<rparr>)"
      using assms(2,3) k by (simp add: assignments_ok_def)
    ultimately show thesis by (rule that)
  next
    case (Some r)
    let ?rs = "upd ?same (\<lambda>r. r\<lparr>pas_assigned_version := v, pas_last_pushed_at := Some now\<rparr>) (db_assignments d)"
    have "d' = d\<lparr>db_assignments := ?rs\<rparr>" using assms(1) k Some by (simp add: mark_assigned_def)
    moreover have "assignments_ok (d\<lparr>db_assignments := ?rs\<rparr>)"
      using assms(2,3) unfolding assignments_ok_def by (simp add: upd_keys) (auto simp: set_upd)
    ultimately show thesis by (rule that)
  qed
qed

text \<open>Each table's constraints read that table and those its keys refer to.\<close>

lemma schema_frame:
  "agents_ok (d\<lparr>db_policies := x1\<rparr>) = agents_ok d" "agents_ok (d\<lparr>db_history := x2\<rparr>) = agents_ok d"
  "agents_ok (d\<lparr>db_history_seq := x3\<rparr>) = agents_ok d" "agents_ok (d\<lparr>db_assignments := x4\<rparr>) = agents_ok d"
  "agents_ok (d\<lparr>db_events := x5\<rparr>) = agents_ok d" "agents_ok (d\<lparr>db_users := x6\<rparr>) = agents_ok d"
  "agents_ok (d\<lparr>db_refresh := x7\<rparr>) = agents_ok d" "agents_ok (d\<lparr>db_enrollment := x8\<rparr>) = agents_ok d"
  "policies_ok (d\<lparr>db_agents := x0\<rparr>) = policies_ok d" "policies_ok (d\<lparr>db_history := x2\<rparr>) = policies_ok d"
  "policies_ok (d\<lparr>db_history_seq := x3\<rparr>) = policies_ok d" "policies_ok (d\<lparr>db_assignments := x4\<rparr>) = policies_ok d"
  "policies_ok (d\<lparr>db_events := x5\<rparr>) = policies_ok d" "policies_ok (d\<lparr>db_users := x6\<rparr>) = policies_ok d"
  "policies_ok (d\<lparr>db_refresh := x7\<rparr>) = policies_ok d" "policies_ok (d\<lparr>db_enrollment := x8\<rparr>) = policies_ok d"
  "history_ok (d\<lparr>db_agents := x0\<rparr>) = history_ok d" "history_ok (d\<lparr>db_policies := x1\<rparr>) = history_ok d"
  "history_ok (d\<lparr>db_assignments := x4\<rparr>) = history_ok d" "history_ok (d\<lparr>db_events := x5\<rparr>) = history_ok d"
  "history_ok (d\<lparr>db_users := x6\<rparr>) = history_ok d" "history_ok (d\<lparr>db_refresh := x7\<rparr>) = history_ok d"
  "history_ok (d\<lparr>db_enrollment := x8\<rparr>) = history_ok d"
  "assignments_ok (d\<lparr>db_history := x2\<rparr>) = assignments_ok d" "assignments_ok (d\<lparr>db_history_seq := x3\<rparr>) = assignments_ok d"
  "assignments_ok (d\<lparr>db_events := x5\<rparr>) = assignments_ok d" "assignments_ok (d\<lparr>db_users := x6\<rparr>) = assignments_ok d"
  "assignments_ok (d\<lparr>db_refresh := x7\<rparr>) = assignments_ok d" "assignments_ok (d\<lparr>db_enrollment := x8\<rparr>) = assignments_ok d"
  "events_ok (d\<lparr>db_policies := x1\<rparr>) = events_ok d" "events_ok (d\<lparr>db_history := x2\<rparr>) = events_ok d"
  "events_ok (d\<lparr>db_history_seq := x3\<rparr>) = events_ok d" "events_ok (d\<lparr>db_assignments := x4\<rparr>) = events_ok d"
  "events_ok (d\<lparr>db_users := x6\<rparr>) = events_ok d" "events_ok (d\<lparr>db_refresh := x7\<rparr>) = events_ok d"
  "events_ok (d\<lparr>db_enrollment := x8\<rparr>) = events_ok d"
  "users_ok (d\<lparr>db_agents := x0\<rparr>) = users_ok d" "users_ok (d\<lparr>db_policies := x1\<rparr>) = users_ok d"
  "users_ok (d\<lparr>db_history := x2\<rparr>) = users_ok d" "users_ok (d\<lparr>db_history_seq := x3\<rparr>) = users_ok d"
  "users_ok (d\<lparr>db_assignments := x4\<rparr>) = users_ok d" "users_ok (d\<lparr>db_events := x5\<rparr>) = users_ok d"
  "users_ok (d\<lparr>db_refresh := x7\<rparr>) = users_ok d" "users_ok (d\<lparr>db_enrollment := x8\<rparr>) = users_ok d"
  "tokens_ok (d\<lparr>db_agents := x0\<rparr>) = tokens_ok d" "tokens_ok (d\<lparr>db_policies := x1\<rparr>) = tokens_ok d"
  "tokens_ok (d\<lparr>db_history := x2\<rparr>) = tokens_ok d" "tokens_ok (d\<lparr>db_history_seq := x3\<rparr>) = tokens_ok d"
  "tokens_ok (d\<lparr>db_assignments := x4\<rparr>) = tokens_ok d" "tokens_ok (d\<lparr>db_events := x5\<rparr>) = tokens_ok d"
  by (simp_all add: agents_ok_def policies_ok_def history_ok_def assignments_ok_def events_ok_def users_ok_def tokens_ok_def)

text \<open>Each statement keeps the schema.\<close>

lemma insert_agent_schema:
  assumes "schema d" "insert_agent None a d = (Inr (), d')" "ag_status a = lit ''active''"
  shows "schema d'"
proof -
  note ok = assms(1) [unfolded schema_def]
  have d': "d' = d\<lparr>db_agents := db_agents d @ [a]\<rparr>" "valid_os (ag_os a)" "ag_id a \<notin> ag_id ` set (db_agents d)"
    "ag_cert_fingerprint a \<notin> ag_cert_fingerprint ` set (db_agents d)"
    using assms(2) by (auto simp: insert_agent_ok)
  have "agents_ok d'" using ok d' assms(3) by (auto simp: agents_ok_def)
  moreover have "assignments_ok d'" using ok d'(1) by (auto simp: assignments_ok_def)
  moreover have "events_ok d'" using ok d'(1) by (auto simp: events_ok_def)
  ultimately show ?thesis using ok d'(1) by (simp add: schema_def schema_frame)
qed

lemma touch_schema:
  assumes "schema d"
  shows "schema (touch_agent now v a d)"
proof -
  note ok = assms [unfolded schema_def]
  let ?d = "touch_agent now v a d"
  have k: "ag_id ` set (db_agents ?d) = ag_id ` set (db_agents d)" by (simp add: touch_agent_def upd_images)
  have "agents_ok ?d" using ok by (auto simp: touch_agent_def agents_ok_def upd_keys) (auto simp: set_upd)
  moreover have "assignments_ok ?d" using ok k by (simp add: assignments_ok_def touch_agent_def)
  moreover have "events_ok ?d" using ok k by (simp add: events_ok_def touch_agent_def)
  ultimately show ?thesis using ok by (simp add: touch_agent_def schema_def schema_frame)
qed

lemma assign_schema:
  assumes "schema d" "mark_assigned None now a n v d = (Inr (), d')" "is_i32 v"
  shows "schema d'"
proof -
  have "assignments_ok d" using assms(1) by (simp add: schema_def)
  with assms(2,3) show ?thesis
    by (rule assign_effect) (use assms(1) in \<open>simp add: schema_def schema_frame\<close>)
qed

lemma ack_schema:
  assumes "schema d" "is_i32 v"
  shows "schema (ack_at a n v d)"
proof -
  note ok = assms(1) [unfolded schema_def]
  have "assignments_ok (ack_at a n v d)" using ok assms(2) unfolding assignments_ok_def
    by (simp add: ack_at_def mark_acked_def upd_keys) (auto simp: set_upd)
  then show ?thesis using ok by (simp add: ack_at_def mark_acked_def schema_def schema_frame)
qed

lemma batch_schema:
  assumes "schema d" "insert_event_batch env a b d = (Inr k, d')" "a \<in> ag_id ` set (db_agents d)"
  shows "schema d'"
proof -
  note ok = assms(1) [unfolded schema_def]
  from assms(2) show ?thesis
  proof (rule batch_effect)
    fix new assume n: "d' = d\<lparr>db_events := db_events d @ new\<rparr>" "\<And>r. r \<in> set new \<Longrightarrow> event_checks r \<and> er_agent_id r = a"
      "distinct (map er_key (db_events d)) \<Longrightarrow> distinct (map er_key (db_events d @ new))"
    have "events_ok d'" using ok n assms(3) by (auto simp: events_ok_def)
    then show ?thesis using ok n(1) by (simp add: schema_def schema_frame)
  qed
qed

lemma insert_policy_schema:
  assumes "schema d" "insert_policy None p d = (Inr (), d')" "slug (po_name p)" "is_i32 (po_version p)" "is_i32 (po_priority p)"
  shows "schema d'"
proof -
  note ok = assms(1) [unfolded schema_def]
  have d': "d' = d\<lparr>db_policies := db_policies d @ [p]\<rparr>" "po_name p \<notin> po_name ` set (db_policies d)"
    using assms(2) by (auto simp: insert_policy_def split: if_splits)
  have "policies_ok d'" using ok d' assms(3-5) by (auto simp: policies_ok_def)
  moreover have "assignments_ok d'" using ok d'(1) by (auto simp: assignments_ok_def)
  ultimately show ?thesis using ok d'(1) by (simp add: schema_def schema_frame)
qed

lemma write_policy_schema:
  assumes "schema d" "is_i32 v"
  shows "schema (write_policy now n v y pct who d)"
proof -
  note ok = assms(1) [unfolded schema_def]
  obtain p c t where pct: "pct = (p, c, t)" by (rule prod_cases3)
  let ?d = "write_policy now n v y pct who d"
  have k: "map po_name (db_policies ?d) = map po_name (db_policies d)" by (rule policy_names_write)
  then have k': "po_name ` set (db_policies ?d) = po_name ` set (db_policies d)" by (metis set_map)
  have "slug (po_name r) \<and> is_i32 (po_version r) \<and> is_i32 (po_priority r)" if "r \<in> set (db_policies ?d)" for r
    using that ok assms(2) unfolding pct by (auto simp: write_policy_def set_upd policies_ok_def is_i32_sint)
  then have "policies_ok ?d" using ok k by (simp add: policies_ok_def)
  moreover have "assignments_ok ?d" using ok k' by (simp add: assignments_ok_def pct write_policy_def)
  ultimately show ?thesis using ok by (simp add: pct write_policy_def schema_def schema_frame)
qed

lemma history_schema:
  assumes "schema d" "is_i32 v"
  shows "schema (append_history now n v y who re d)"
proof -
  note ok = assms(1) [unfolded schema_def]
  have "history_ok (append_history now n v y who re d)" using ok assms(2)
    by (fastforce simp: append_history_def history_ok_def)
  then show ?thesis using ok by (simp add: append_history_def schema_def schema_frame)
qed

lemma delete_policy_schema:
  assumes "schema d"
  shows "schema (snd (delete_policy None n d))"
proof -
  note ok = assms(1) [unfolded schema_def]
  have "policies_ok (snd (delete_policy None n d))" "assignments_ok (snd (delete_policy None n d))" using ok
    by (auto simp: delete_policy_def policies_ok_def assignments_ok_def distinct_map_filter)
  then show ?thesis using ok by (simp add: delete_policy_def schema_def schema_frame)
qed

lemma refresh_tokens_schema:
  assumes "schema d"
  shows "insert_refresh None r d = (Inr (), d') \<Longrightarrow> schema d'" "schema (revoke h d)"
proof -
  note ok = assms(1) [unfolded schema_def]
  have "tokens_ok d'" if "insert_refresh None r d = (Inr (), d')"
    using ok that by (auto simp: insert_refresh_cases tokens_ok_def)
  then show "insert_refresh None r d = (Inr (), d') \<Longrightarrow> schema d'"
    using ok by (auto simp: insert_refresh_cases schema_def schema_frame)
  have "tokens_ok (revoke h d)" using ok by (auto simp: revoke_def tokens_ok_def upd_keys set_upd)
  then show "schema (revoke h d)" using ok by (simp add: revoke_def schema_def schema_frame)
qed

lemma enrollment_tokens_schema:
  assumes "schema d"
  shows "insert_token None t d = (Inr (), d') \<Longrightarrow> et_uses_count t = 0 \<Longrightarrow> (\<And>m. et_max_uses t = Some m \<Longrightarrow> is_i32 m) \<Longrightarrow>
      schema d'"
    "schema (increment_uses h d)"
proof -
  note ok = assms(1) [unfolded schema_def]
  show "schema d'" if "insert_token None t d = (Inr (), d')" "et_uses_count t = 0" "\<And>m. et_max_uses t = Some m \<Longrightarrow> is_i32 m"
  proof -
    have d': "d' = d\<lparr>db_enrollment := db_enrollment d @ [t]\<rparr>" "et_token_hash t \<notin> et_token_hash ` set (db_enrollment d)"
      using that(1) by (auto simp: insert_token_def split: if_splits)
    have "tokens_ok d'" using ok d' that(2,3) by (auto simp: tokens_ok_def is_i32_def split: option.split)
    then show ?thesis using ok d'(1) by (simp add: schema_def schema_frame)
  qed
  have "0 \<le> et_uses_count (count_use t) \<and> is_i32 (et_uses_count (count_use t))"
    if "0 \<le> et_uses_count t \<and> is_i32 (et_uses_count t)" for t
    using that by (simp add: count_use_def)
  then have "tokens_ok (increment_uses h d)" using ok by (auto simp: increment_uses_def tokens_ok_def upd_keys set_upd)
  then show "schema (increment_uses h d)" using ok by (simp add: increment_uses_def schema_def schema_frame)
qed

lemma users_schema:
  assumes "schema d"
  shows "insert_user None i u h (lit ''admin'') d = (Inr k, d') \<Longrightarrow> schema d'" "schema (set_last_login now w d)"
proof -
  note ok = assms(1) [unfolded schema_def]
  show "schema d'" if i: "insert_user None i u h (lit ''admin'') d = (Inr k, d')"
  proof (cases "d' = d")
    case False
    let ?u = "\<lparr>us_id = i, us_username = u, us_password_hash = h, us_role = lit ''admin'', us_last_login = None,
      us_enabled = True\<rparr>"
    have d': "d' = d\<lparr>db_users := db_users d @ [?u]\<rparr>" "i \<notin> us_id ` set (db_users d)" "u \<notin> us_username ` set (db_users d)"
      using i False unfolding insert_user_def by (simp_all split: if_splits)
    have "users_ok d'" using ok d' by (auto simp: users_ok_def)
    moreover have "tokens_ok d'" using ok d'(1) by (auto simp: tokens_ok_def)
    ultimately show ?thesis using ok d'(1) by (simp add: schema_def schema_frame)
  qed (use assms in simp)
  let ?d = "set_last_login now w d"
  have k: "us_id ` set (db_users ?d) = us_id ` set (db_users d)" by (simp add: set_last_login_def upd_images)
  have "users_ok ?d" using ok by (auto simp: set_last_login_def users_ok_def upd_keys) (auto simp: set_upd)
  moreover have "tokens_ok ?d" using ok k by (simp add: set_last_login_def tokens_ok_def)
  ultimately show "schema ?d" using ok by (simp add: set_last_login_def schema_def schema_frame)
qed

lemmas statement_schema = insert_agent_schema touch_schema assign_schema ack_schema batch_schema insert_policy_schema
  write_policy_schema history_schema delete_policy_schema refresh_tokens_schema enrollment_tokens_schema users_schema

lemma schema_stmt: "stmt d d' \<Longrightarrow> schema d \<Longrightarrow> schema d'"
  by (induction rule: stmt.induct) (blast intro: statement_schema)+

interpretation sch: statement_invariant schema
  by unfold_locales (rule schema_stmt)

section \<open>What only the code vouches for\<close>

text \<open>What no constraint of the tables demands: names of policies that are slugs; events of enrolled agents (the table has
  no reference), with the type and action named as the protocol names them; agents that are active; accounts that
  are administrators; enrollment tokens that expire.\<close>

definition action_names :: "rstr set" where
  "action_names = lit ` {''log_only'', ''log_and_alert'', ''warn_user'', ''block'', ''quarantine'', ''kill_process'',
     ''lock_workstation''}"

definition vouched :: "db \<Rightarrow> bool" where
  "vouched d \<longleftrightarrow> (\<forall>p \<in> set (db_policies d). slug (po_name p)) \<and>
     (\<forall>r \<in> set (db_events d). er_agent_id r \<in> ag_id ` set (db_agents d) \<and>
        er_event_type r \<in> lit ` insert ''EVENT_TYPE_UNSPECIFIED'' (snd ` set event_type_names) \<and>
        (case er_action_taken r of None \<Rightarrow> True | Some s \<Rightarrow> s \<in> action_names)) \<and>
     (\<forall>a \<in> set (db_agents d). ag_status a = lit ''active'') \<and> (\<forall>u \<in> set (db_users d). us_role u = lit ''admin'') \<and>
     (\<forall>t \<in> set (db_enrollment d). et_expires_at t \<noteq> None)"

lemma event_row_names:
  "er_event_type (event_to_row env a i ev) \<in> lit ` insert ''EVENT_TYPE_UNSPECIFIED'' (snd ` set event_type_names)"
  "er_action_taken (event_to_row env a i ev) = Some s \<Longrightarrow> s \<in> action_names"
  by (auto simp: event_to_row_def event_type_to_str_def action_to_str_opt_def action_names_def
      dest!: map_of_SomeD intro: rev_image_eqI split: option.split if_splits)

lemma vouched_batch:
  assumes "vouched d" "insert_event_batch env a b d = (Inr k, d')" "a \<in> ag_id ` set (db_agents d)"
  shows "vouched d'"
  using assms(2)
proof (rule batch_effect)
  fix new
  assume n: "d' = d\<lparr>db_events := db_events d @ new\<rparr>" "\<And>r. r \<in> set new \<Longrightarrow> event_checks r \<and> er_agent_id r = a"
    "\<And>r. r \<in> set new \<Longrightarrow> \<exists>i ev. r = event_to_row env a i ev"
  have "er_agent_id r \<in> ag_id ` set (db_agents d) \<and>
        er_event_type r \<in> lit ` insert ''EVENT_TYPE_UNSPECIFIED'' (snd ` set event_type_names) \<and>
        (case er_action_taken r of None \<Rightarrow> True | Some s \<Rightarrow> s \<in> action_names)" if new: "r \<in> set new" for r
  proof -
    obtain i ev where r: "r = event_to_row env a i ev" using n(3) [OF new] by blast
    show ?thesis using n(2) [OF new] assms(3) event_row_names [of env a i ev] unfolding r by (auto split: option.split)
  qed
  then show "vouched d'" using assms(1) by (auto simp: n(1) vouched_def)
qed

lemma vouched_stmt: "stmt d d' \<Longrightarrow> vouched d \<Longrightarrow> vouched d'"
proof (induction rule: stmt.induct)
  case (events env a b d k d')
  then show ?case using vouched_batch by blast
next
  case (count_use d h)
  then show ?case by (auto simp: vouched_def increment_uses_def set_upd)
next
  case (touch d now v a)
  have k: "ag_id ` set (db_agents (touch_agent now v a d)) = ag_id ` set (db_agents d)" by (simp add: touch_agent_def upd_images)
  moreover have "ag_status r = lit ''active''" if "r \<in> set (db_agents (touch_agent now v a d))" for r
    using that touch by (auto simp: vouched_def touch_agent_def set_upd)
  moreover have "db_events (touch_agent now v a d) = db_events d" "db_policies (touch_agent now v a d) = db_policies d"
    "db_users (touch_agent now v a d) = db_users d" "db_enrollment (touch_agent now v a d) = db_enrollment d"
    by (simp_all add: touch_agent_def)
  ultimately show ?case using touch by (simp add: vouched_def)
next
  case (write_policy v d now n y pct who)
  then show ?case by (cases pct) (auto simp: vouched_def write_policy_def set_upd)
next
  case (last_login d now u)
  then show ?case by (auto simp: vouched_def set_last_login_def set_upd)
qed (auto simp: vouched_def insert_agent_ok mark_assigned_def ack_at_def mark_acked_def insert_policy_def append_history_def
    delete_policy_def insert_refresh_cases insert_token_def insert_user_def revoke_def Let_def split: if_splits)

interpretation vch: statement_invariant vouched
  by unfold_locales (rule vouched_stmt)

section \<open>What is never lost\<close>

text \<open>Rows are kept in their places, changed by \<open>R\<close> at most, and others come after them.\<close>

definition grows :: "('r \<Rightarrow> 'r \<Rightarrow> bool) \<Rightarrow> 'r list \<Rightarrow> 'r list \<Rightarrow> bool" where
  "grows R xs ys \<longleftrightarrow> (\<exists>zs. prefix zs ys \<and> list_all2 R xs zs)"

lemma grows_append:
  assumes "reflp R"
  shows "grows R xs (xs @ ys)"
proof -
  have "list_all2 R xs xs" using assms by (induction xs) (simp_all add: reflpD)
  then show ?thesis unfolding grows_def by (intro exI [of _ xs]) simp
qed

lemma grows_refl [intro]: "reflp R \<Longrightarrow> grows R xs xs"
  using grows_append [of R xs "[]"] by simp

lemma grows_upd:
  assumes "reflp R" "\<And>r. R r (f r)"
  shows "grows R xs (upd P f xs)"
proof -
  have "list_all2 R xs (upd P f xs)" using assms by (induction xs) (simp_all add: reflpD)
  then show ?thesis unfolding grows_def by blast
qed

lemma grows_trans:
  assumes "transp R" "grows R xs ys" "grows R ys zs"
  shows "grows R xs zs"
proof -
  obtain as bs cs ds where s: "ys = as @ bs" "list_all2 R xs as" "zs = cs @ ds" "list_all2 R ys cs"
    using assms(2,3) by (auto simp: grows_def prefix_def)
  then obtain es fs where c: "cs = es @ fs" "list_all2 R as es" by (auto simp: list_all2_append1)
  have "list_all2 R xs es"
    by (rule list_all2_trans [OF _ s(2) c(2)]) (use assms(1) in \<open>blast dest: transpD\<close>)
  then show ?thesis using s(3) c(1) by (auto simp: grows_def intro!: exI [of _ es])
qed

lemma grows_in: "grows R xs ys \<Longrightarrow> x \<in> set xs \<Longrightarrow> \<exists>y \<in> set ys. R x y"
  by (auto simp: grows_def prefix_def in_set_conv_nth list_all2_conv_all_nth nth_append)
    (metis UnI1 nth_mem)

definition same_agent :: "agent_row \<Rightarrow> agent_row \<Rightarrow> bool" where
  "same_agent a b \<longleftrightarrow> a\<lparr>ag_last_seen := None, ag_agent_version := []\<rparr> = b\<lparr>ag_last_seen := None, ag_agent_version := []\<rparr>"

definition same_account :: "user_row \<Rightarrow> user_row \<Rightarrow> bool" where
  "same_account u w \<longleftrightarrow> u\<lparr>us_last_login := None\<rparr> = w\<lparr>us_last_login := None\<rparr>"

definition maybe_revoked :: "refresh_row \<Rightarrow> refresh_row \<Rightarrow> bool" where
  "maybe_revoked t s \<longleftrightarrow> t\<lparr>rt_revoked := True\<rparr> = s\<lparr>rt_revoked := True\<rparr> \<and> (rt_revoked t \<longrightarrow> rt_revoked s)"

definition more_used :: "enrollment_row \<Rightarrow> enrollment_row \<Rightarrow> bool" where
  "more_used t s \<longleftrightarrow> t\<lparr>et_uses_count := 0\<rparr> = s\<lparr>et_uses_count := 0\<rparr> \<and> et_uses_count t \<le> et_uses_count s"

lemma same_agent_id: "same_agent a b \<Longrightarrow> ag_id b = ag_id a"
  unfolding same_agent_def by (drule arg_cong [of _ _ ag_id]) simp

lemma maybe_revoked_hash: "maybe_revoked t s \<Longrightarrow> rt_token_hash s = rt_token_hash t"
  unfolding maybe_revoked_def by (drule conjunct1, drule arg_cong [of _ _ rt_token_hash]) simp

lemma row_changes:
  "reflp same_agent" "transp same_agent" "reflp same_account" "transp same_account" "reflp maybe_revoked"
  "transp maybe_revoked" "reflp more_used" "transp more_used"
  by (auto intro!: reflpI transpI simp: same_agent_def same_account_def maybe_revoked_def more_used_def)

lemma eq_rel: "reflp (=)" "transp (=)"
  by (auto intro: reflpI transpI)

lemmas row_rels = row_changes eq_rel

definition kept :: "db \<Rightarrow> db \<Rightarrow> bool" where
  "kept d d' \<longleftrightarrow> grows (=) (db_history d) (db_history d') \<and> grows (=) (db_events d) (db_events d') \<and>
     grows same_agent (db_agents d) (db_agents d') \<and> grows same_account (db_users d) (db_users d') \<and>
     grows maybe_revoked (db_refresh d) (db_refresh d') \<and> grows more_used (db_enrollment d) (db_enrollment d')"

lemma kept_refl: "kept d d"
  by (simp add: kept_def grows_refl row_rels)

lemma kept_trans: "kept d e \<Longrightarrow> kept e f \<Longrightarrow> kept d f"
  unfolding kept_def by (blast intro: grows_trans row_rels)

lemma kept_stmt: "stmt d d' \<Longrightarrow> kept d d'"
proof (induction rule: stmt.induct)
  case (touch d now v a)
  show ?case by (auto simp: kept_def touch_agent_def same_agent_def intro!: grows_refl row_rels grows_upd)
next
  case (events env a b d k d')
  from events(1) show ?case
    by (rule batch_effect) (simp add: kept_def grows_refl grows_append row_rels)
next
  case (write_policy v d now n y pct who)
  show ?case by (cases pct) (simp add: kept_def write_policy_def grows_refl row_rels)
next
  case (count_use d h)
  show ?case by (auto simp: kept_def increment_uses_def more_used_def count_use_def intro!: grows_refl row_rels grows_upd)
next
  case (revoke d h)
  show ?case by (auto simp: kept_def revoke_def maybe_revoked_def intro!: grows_refl row_rels grows_upd)
next
  case (last_login d now u)
  show ?case by (auto simp: kept_def set_last_login_def same_account_def intro!: grows_refl row_rels grows_upd)
qed (auto simp: kept_def insert_agent_ok mark_assigned_def ack_at_def mark_acked_def insert_policy_def append_history_def
    delete_policy_def insert_refresh_cases insert_token_def insert_user_def Let_def grows_refl grows_append row_rels
    split: if_splits)

interpretation kpt: statement_invariant "kept d0" for d0
  by unfold_locales (blast intro: kept_trans kept_stmt)

lemma kept_stmts: "stmts d d' \<Longrightarrow> kept d d'"
  by (rule kpt.stmts_keep [OF _ kept_refl])

section \<open>The operations of the manager\<close>

text \<open>An operation: a request of the REST API, an enrollment, a stream from its acceptance on, a round of the
  push bridge, and the two commands of \<open>scroogectl\<close> that write.\<close>

datatype operation =
    OHttp api_env http_request
  | OEnroll enroll_env enroll_request
  | OStream "rstr \<Rightarrow> uuid option" "u8 list \<Rightarrow> rstr option list option" outcome "rstr \<Rightarrow> rstr \<Rightarrow> bool"
      "u8 list list option" "stream_turn list"
  | OBroadcast "rstr \<Rightarrow> rstr \<Rightarrow> bool" "(uuid \<times> agent_registry \<times> push_env) list" channels
  | OBootstrap "rstr \<Rightarrow> u32 \<Rightarrow> rstr + rstr" outcome uuid rstr rstr
  | OGenToken gen_env "rstr option" "u32 option" int

fun operate :: "operation \<Rightarrow> server \<Rightarrow> server" where
  "operate (OHttp env req) s = snd (api_serve env req s)"
| "operate (OEnroll env req) s = set_db (snd (enroll env req (sn_db s))) s"
| "operate (OStream pu px out coll certs ts) s = set_db (snd (stream_handler pu px out coll certs ts (sn_db s))) s"
| "operate (OBroadcast coll ts chs) s = set_db (fst (broadcast coll ts (sn_db s) chs)) s"
| "operate (OBootstrap bh out i u p) s = set_db (snd (bootstrap_admin bh out i u p (sn_db s))) s"
| "operate (OGenToken env ds mu vd) s = set_db (snd (gen_token env ds mu vd (sn_db s))) s"

lemma accepted_is_enrolled: "stream_accept pu px out certs d = Inr a \<Longrightarrow> a \<in> ag_id ` set (db_agents d)"
  by (auto simp: stream_accept_def res_bind_Inr_iff sql_query_def split: option.splits if_splits dest!: find_SomeD)

lemma stmts_agents: "stmts d d' \<Longrightarrow> a \<in> ag_id ` set (db_agents d) \<Longrightarrow> a \<in> ag_id ` set (db_agents d')"
proof -
  assume "stmts d d'" "a \<in> ag_id ` set (db_agents d)"
  then obtain x where "x \<in> set (db_agents d)" "ag_id x = a" "grows same_agent (db_agents d) (db_agents d')"
    using kept_stmts by (auto simp: kept_def)
  with grows_in [of same_agent "db_agents d" "db_agents d'" x] show ?thesis
    by (metis same_agent_id image_eqI)
qed

lemma stream_stmts: "stmts d (snd (stream_handler pu px out coll certs ts d))"
  by (auto simp: stream_handler_def split: sum.splits prod.splits
      dest: stream_turns_stmts [OF accepted_is_enrolled, rotated])

lemma operation_stmts: "stmts (sn_db s) (sn_db (operate op s))"
proof (cases op)
  case (OHttp env req)
  then show ?thesis using serve_stmts [of env req s] by (metis operate.simps(1) surj_pair snd_conv)
next
  case (OEnroll env req)
  then show ?thesis using enroll_stmts [of env req "sn_db s"] by (metis operate.simps(2) set_db_simps(1) surj_pair snd_conv)
next
  case (OStream pu px out coll certs ts)
  then show ?thesis by (simp add: stream_stmts)
next
  case (OBroadcast coll ts chs)
  then show ?thesis using broadcast_stmts [of coll ts "sn_db s" chs] by (metis operate.simps(4) set_db_simps(1) surj_pair fst_conv)
next
  case (OBootstrap bh out i u p)
  then show ?thesis using bootstrap_stmts [of bh out i u p "sn_db s"] by (metis operate.simps(5) set_db_simps(1) surj_pair snd_conv)
next
  case (OGenToken env ds mu vd)
  then show ?thesis using gen_token_stmts [of env ds mu vd "sn_db s"] by (metis operate.simps(6) set_db_simps(1) surj_pair snd_conv)
qed

context statement_invariant
begin

lemma operation_keeps: "I (sn_db s) \<Longrightarrow> I (sn_db (operate op s))"
  using stmts_keep operation_stmts .

lemma operations_keep: "I (sn_db s) \<Longrightarrow> I (sn_db (fold operate ops s))"
  by (induction ops arbitrary: s) (auto intro: operation_keeps)

end

text \<open>C10: every operation of the manager, with whatever outcomes, does nothing to the database but a sequence of the
  statements of \<open>stmt\<close>, with values of the types and shapes they demand.\<close>

theorem operations_are_statements: "stmts (sn_db s) (sn_db (operate op s))"
  by (rule operation_stmts)

text \<open>The schema is a type of the database that every interleaving of statements keeps: keys stay distinct, references
  stay good, values stay within their \<open>CHECK\<close>s and the integers in the ranges of their columns, and every event is
  that of an enrolled agent.\<close>

theorem schema_is_kept:
  assumes "schema d" "stmts d d'"
  shows "schema d'"
  using sch.stmts_keep assms by blast

theorem schema_is_kept_witness:
  "schema (sn_db (operate (OEnroll (sample_env 1) sample_request) (sample_server\<lparr>sn_db := one_use_db\<rparr>)))"
proof (rule schema_is_kept)
  show "schema one_use_db" by (simp add: schema_defs one_use_db_def empty_db_def is_i32_def)
  have "stmts one_use_db (snd (enroll (sample_env 1) sample_request one_use_db))"
    using enroll_stmts by (metis surj_pair snd_conv)
  then show "stmts one_use_db (sn_db (operate (OEnroll (sample_env 1) sample_request) (sample_server\<lparr>sn_db := one_use_db\<rparr>)))"
    by simp
qed

text \<open>C12: in every interleaving the records the system answers for are permanent: history entries and events stay
  as they were written, agents keep all but their last contact and version, accounts all but their last login, a
  revoked refresh token stays revoked, and the count of an enrollment token only rises.\<close>

theorem records_are_permanent:
  assumes "stmts d d'"
  shows "kept d d'"
  using kept_stmts assms by blast

theorem records_are_permanent_witness:
  "kept (versioned_db 3) (fst (snd (delete_handler (sample_api None) sample_claims (lit ''p'') (versioned_db 3) None)))"
proof (rule records_are_permanent)
  show "stmts (versioned_db 3) (fst (snd (delete_handler (sample_api None) sample_claims (lit ''p'') (versioned_db 3) None)))"
    using delete_stmts by (metis surj_pair fst_conv snd_conv)
qed

lemma revoked_stays:
  assumes "schema d2" "kept d1 d2" "s \<in> set (db_refresh d1)" "r \<in> set (db_refresh d2)" "rt_token_hash r = rt_token_hash s"
    "rt_revoked s"
  shows "rt_revoked r"
proof -
  obtain s' where s': "s' \<in> set (db_refresh d2)" "maybe_revoked s s'"
    using assms(2,3) grows_in [of maybe_revoked "db_refresh d1" "db_refresh d2" s] by (auto simp: kept_def)
  then have "rt_token_hash s' = rt_token_hash r" using assms(5) maybe_revoked_hash by simp
  moreover have "rt_revoked s'" using s'(2) assms(6) by (simp add: maybe_revoked_def)
  moreover have "inj_on rt_token_hash (set (db_refresh d2))"
    using assms(1) by (simp add: schema_def tokens_ok_def distinct_map)
  ultimately show ?thesis using s'(1) assms(4) by (auto dest: inj_onD)
qed

text \<open>C14: a refresh token is spent by the refresh that succeeds with it: after whatever else happens to the
  database, in whatever order, it is refused, and nothing changes.\<close>

theorem spent_token_is_dead:
  assumes "schema d" "refresh env t d = (Some (Inr resp), d1)" "stmts d1 d2"
    and "au_sha env2 = au_sha env" "au_select env2 = None"
  shows "refresh env2 t d2 = (Some (Inl InvalidToken), d2)"
proof (rule revoked_is_refused [OF _ assms(5)])
  have s2: "schema d2" using sch.stmts_keep refresh_stmts [OF assms(2)] assms(1,3) by blast
  obtain s where s: "s \<in> set (db_refresh d1)" "rt_token_hash s = hash_token (au_sha env) t" "rt_revoked s"
    using refresh_revokes [OF assms(2)] by blast
  fix r assume "r \<in> set (db_refresh d2)" "rt_token_hash r = hash_token (au_sha env2) t"
  with revoked_stays [OF s2 kept_stmts [OF assms(3)] s(1)] s(2,3) assms(4) show "rt_revoked r" by simp
qed

theorem spent_token_is_dead_witness:
  "\<exists>resp d1. refresh (sample_auth 1) (lit ''t'') (user_db True) = (Some (Inr resp), d1) \<and>
    refresh (sample_auth 2) (lit ''t'') (set_last_login 9 5 d1) = (Some (Inl InvalidToken), set_last_login 9 5 d1)"
proof -
  obtain resp d1 where r: "refresh (sample_auth 1) (lit ''t'') (user_db True) = (Some (Inr resp), d1)"
    using sample_refresh by blast
  have "schema (user_db True)" by (simp add: schema_defs user_db_def sample_user_def empty_db_def)
  from spent_token_is_dead [OF this r r_into_rtranclp [of stmt, OF stmt.last_login [of d1 9 5]]] r show ?thesis
    by (simp add: sample_auth_def)
qed

end
