(* ===== verification/System.thy ===== *)
theory System
  imports Schema
begin

text \<open>
  The running manager: REST server, streams of agents, the two bridges and the database, as they run side by side in
  \<open>scrooge-manager-bin/src/main.rs\<close>. A step is a request, the check or the rest of an enrollment, a stream accepted, a
  statement or send of a push, a message, the end of a stream, or one turn of a bridge; any of them may come next.
  \<open>rn_log\<close> records the requests that came in and \<open>rn_owner\<close> whose stream a channel is; no step reads them. A channel
  keeps all that was ever sent to it.
\<close>

section \<open>Steps\<close>

record running =
  rn_server :: server
  rn_streams :: streams
  rn_out :: channels
  rn_ended :: "nat set"
  rn_enrolling :: "(enroll_env \<times> enroll_request \<times> agent_info) list"
  rn_push :: "nat \<Rightarrow> push_task"
  rn_todo :: "uuid list"
  rn_at :: "(uuid \<times> nat \<times> push_task) option"
  rn_owner :: "nat \<Rightarrow> uuid option"
  rn_log :: "(api_env \<times> http_request) list"

definition empty_channel :: "manager_message chan" where
  "empty_channel = \<lparr>ch_msgs = [], ch_closed = False\<rparr>"

definition booted :: "server \<Rightarrow> running" where
  "booted sv = \<lparr>rn_server = sv, rn_streams = no_streams, rn_out = (\<lambda>_. empty_channel), rn_ended = {}, rn_enrolling = [],
     rn_push = (\<lambda>_. PushDone), rn_todo = [], rn_at = None, rn_owner = (\<lambda>_. None), rn_log = []\<rparr>"

definition with_db :: "db \<Rightarrow> running \<Rightarrow> running" where
  "with_db d s = s\<lparr>rn_server := set_db d (rn_server s)\<rparr>"

abbreviation rn_db :: "running \<Rightarrow> db" where "rn_db s \<equiv> sn_db (rn_server s)"

inductive run_step :: "running \<Rightarrow> running \<Rightarrow> bool" where
  http: "api_serve env req (rn_server s) = (a, sv) \<Longrightarrow>
    run_step s (s\<lparr>rn_server := sv, rn_log := rn_log s @ [(env, req)]\<rparr>)"
| enroll_begin: "enroll_check env req (rn_db s) = Inr info \<Longrightarrow>
    run_step s (s\<lparr>rn_enrolling := (env, req, info) # rn_enrolling s\<rparr>)"
| enroll_end: "rn_enrolling s = xs @ (env, req, info) # ys \<Longrightarrow> enroll_finish env req info (rn_db s) = (r, d) \<Longrightarrow>
    run_step s (with_db d (s\<lparr>rn_enrolling := xs @ ys\<rparr>))"
| bootstrap: "bootstrap_admin bh out i u p (rn_db s) = (r, d) \<Longrightarrow> run_step s (with_db d s)"
| gen_token: "gen_token env ds mu vd (rn_db s) = (r, d) \<Longrightarrow> run_step s (with_db d s)"
| accept: "stream_accept pu px out certs (rn_db s) = Inr a \<Longrightarrow> stream_step (rn_streams s) (Accepted a) st \<Longrightarrow>
    run_step s (s\<lparr>rn_streams := st, rn_out := (rn_out s)(sm_next (rn_streams s) := empty_channel),
      rn_push := (rn_push s)(sm_next (rn_streams s) := PushLoad),
      rn_owner := (rn_owner s)(sm_next (rn_streams s) := Some a)\<rparr>)"
| first_push: "rn_owner s n = Some a \<Longrightarrow> push_turn coll env a (rn_push s n) (rn_db s) (rn_out s n) = (t, d, ch) \<Longrightarrow>
    run_step s (with_db d (s\<lparr>rn_push := (rn_push s)(n := t), rn_out := (rn_out s)(n := ch)\<rparr>))"
| inbound: "sm_open (rn_streams s) n = Some a \<Longrightarrow> n \<notin> rn_ended s \<Longrightarrow>
    handle_agent_message env a msg (rn_db s) (rn_out s n) = (b, d, ch) \<Longrightarrow>
    run_step s (with_db d (s\<lparr>rn_out := (rn_out s)(n := ch), rn_ended := (if b then rn_ended s else insert n (rn_ended s))\<rparr>))"
| close: "stream_step (rn_streams s) (Closed n) st \<Longrightarrow> run_step s (s\<lparr>rn_streams := st\<rparr>)"
| hangup: "run_step s (s\<lparr>rn_out := (rn_out s)(n := (rn_out s n)\<lparr>ch_closed := True\<rparr>)\<rparr>)"
| command: "st_command_tx (sn_state (rn_server s)) = Some q \<Longrightarrow> ch_msgs q = req # rest \<Longrightarrow>
    command_bridge_step now (sm_registry (rn_streams s)) req (rn_out s) = (fate, out) \<Longrightarrow>
    run_step s (s\<lparr>rn_server := set_command (Some (q\<lparr>ch_msgs := rest\<rparr>)) (rn_server s), rn_out := out\<rparr>)"
| broadcast_start: "rn_todo s = [] \<Longrightarrow> rn_at s = None \<Longrightarrow> st_policy_push_tx (sn_state (rn_server s)) = Some q \<Longrightarrow> px_queue q = m # rest \<Longrightarrow>
    distinct ids \<Longrightarrow> set ids = all_agent_ids (sm_registry (rn_streams s)) \<Longrightarrow>
    run_step s (s\<lparr>rn_server := set_push (rn_db s) (Some (q\<lparr>px_queue := rest\<rparr>)) (rn_server s), rn_todo := ids\<rparr>)"
| broadcast_skip: "rn_at s = None \<Longrightarrow> rn_todo s = a # todo \<Longrightarrow> reg_get a (sm_registry (rn_streams s)) = None \<Longrightarrow>
    run_step s (s\<lparr>rn_todo := todo\<rparr>)"
| broadcast_next: "rn_at s = None \<Longrightarrow> rn_todo s = a # todo \<Longrightarrow> reg_get a (sm_registry (rn_streams s)) = Some n \<Longrightarrow>
    run_step s (s\<lparr>rn_todo := todo, rn_at := Some (a, n, PushLoad)\<rparr>)"
| broadcast_turn: "rn_at s = Some (a, n, t) \<Longrightarrow> push_turn coll env a t (rn_db s) (rn_out s n) = (t', d, ch) \<Longrightarrow>
    run_step s (with_db d (s\<lparr>rn_out := (rn_out s)(n := ch), rn_at := (if t' = PushDone then None else Some (a, n, t'))\<rparr>))"

abbreviation runs :: "running \<Rightarrow> running \<Rightarrow> bool" where
  "runs \<equiv> run_step\<^sup>*\<^sup>*"

lemma with_db_simps [simp]:
  "rn_db (with_db d s) = d" "rn_streams (with_db d s) = rn_streams s" "rn_out (with_db d s) = rn_out s"
  "rn_owner (with_db d s) = rn_owner s" "rn_log (with_db d s) = rn_log s"
  "rn_enrolling (with_db d s) = rn_enrolling s" "rn_push (with_db d s) = rn_push s" "rn_at (with_db d s) = rn_at s"
  "sn_state (rn_server (with_db d s)) = sn_state (rn_server s)"
  by (simp_all add: with_db_def set_db_def)

text \<open>The turns of a first push, and of the push bridge at one agent, when nothing comes between them: the whole push.\<close>

definition pushed :: "nat \<Rightarrow> push_task \<times> db \<times> manager_message chan \<Rightarrow> running \<Rightarrow> running" where
  "pushed n x s = (case x of (t, d, ch) \<Rightarrow> with_db d (s\<lparr>rn_push := (rn_push s)(n := t), rn_out := (rn_out s)(n := ch)\<rparr>))"

lemma pushed_simps [simp]:
  "rn_owner (pushed n x s) = rn_owner s" "rn_streams (pushed n x s) = rn_streams s" "rn_log (pushed n x s) = rn_log s"
  "sn_state (rn_server (pushed n x s)) = sn_state (rn_server s)" "rn_push (pushed n (t, d, ch) s) n = t" "rn_db (pushed n (t, d, ch) s) = d"
  "rn_out (pushed n (t, d, ch) s) n = ch" "pushed n x (pushed n y s) = pushed n x s"
  by (simp_all add: pushed_def with_db_def set_db_def split: prod.splits)

lemma pushed_same: "pushed n (rn_push s n, rn_db s, rn_out s n) s = s"
  by (simp add: pushed_def with_db_def set_db_def)

lemma push_turns_run:
  assumes "rn_owner s n = Some a"
  shows "runs s (pushed n (push_turns coll a es (rn_push s n) (rn_db s) (rn_out s n)) s)"
  using assms
proof (induction es arbitrary: s)
  case (Cons env es)
  obtain t d ch where p: "push_turn coll env a (rn_push s n) (rn_db s) (rn_out s n) = (t, d, ch)" by (metis prod_cases3)
  have "run_step s (pushed n (t, d, ch) s)" using run_step.first_push [OF Cons.prems p] by (simp add: pushed_def)
  moreover have "runs (pushed n (t, d, ch) s) (pushed n (push_turns coll a es t d ch) s)"
    using Cons.IH [of "pushed n (t, d, ch) s"] Cons.prems by simp
  ultimately show ?case using p by (simp add: converse_rtranclp_into_rtranclp)
qed (simp add: pushed_same)

lemma first_push_run:
  assumes "rn_owner s n = Some a" "rn_push s n = PushLoad" "push_pending coll env a (rn_db s) (rn_out s n) = (d, ch)"
  shows "runs s (pushed n (PushDone, d, ch) s)"
  using push_turns_run [OF assms(1), of coll "replicate (length (db_policies (rn_db s)) + 2) env"] assms(2,3)
  by (simp add: push_turns_pending del: push_turns.simps replicate.simps)

lemma bridge_push_run:
  assumes "rn_at s = None" "rn_todo s = a # todo" "reg_get a (sm_registry (rn_streams s)) = Some n"
    and "push_pending coll env a (rn_db s) (rn_out s n) = (d, ch)"
  shows "runs s (with_db d (s\<lparr>rn_todo := todo, rn_out := (rn_out s)(n := ch)\<rparr>))"
proof -
  have turns: "runs u (with_db d (u\<lparr>rn_out := (rn_out u)(n := ch), rn_at := None\<rparr>))"
    if "rn_at u = Some (a, n, t)" "push_turns coll a es t (rn_db u) (rn_out u n) = (PushDone, d, ch)" "t \<noteq> PushDone" for u t es
    using that
  proof (induction es arbitrary: u t)
    case (Cons e es)
    obtain t1 d1 ch1 where p: "push_turn coll e a t (rn_db u) (rn_out u n) = (t1, d1, ch1)" by (metis prod_cases3)
    let ?u = "with_db d1 (u\<lparr>rn_out := (rn_out u)(n := ch1), rn_at := (if t1 = PushDone then None else Some (a, n, t1))\<rparr>)"
    have step: "run_step u ?u" using run_step.broadcast_turn [OF Cons.prems(1) p] .
    show ?case
    proof (cases "t1 = PushDone")
      case True
      with Cons.prems(2) p have "d1 = d" "ch1 = ch" by simp_all
      with step True have "run_step u (with_db d (u\<lparr>rn_out := (rn_out u)(n := ch), rn_at := None\<rparr>))" by simp
      then show ?thesis by (rule r_into_rtranclp)
    next
      case False
      from Cons.prems(2) p have "push_turns coll a es t1 (rn_db ?u) (rn_out ?u n) = (PushDone, d, ch)" by simp
      have at: "rn_at ?u = Some (a, n, t1)" using False by simp
      from Cons.IH [OF at \<open>push_turns coll a es t1 _ _ = _\<close> False]
      have "runs ?u (with_db d (?u\<lparr>rn_out := (rn_out ?u)(n := ch), rn_at := None\<rparr>))" .
      moreover have "with_db d (?u\<lparr>rn_out := (rn_out ?u)(n := ch), rn_at := None\<rparr>) =
          with_db d (u\<lparr>rn_out := (rn_out u)(n := ch), rn_at := None\<rparr>)" by (simp add: with_db_def set_db_def)
      ultimately have "runs ?u (with_db d (u\<lparr>rn_out := (rn_out u)(n := ch), rn_at := None\<rparr>))" by (simp only:)
      with step show ?thesis by (rule converse_rtranclp_into_rtranclp)
    qed
  qed simp
  let ?u = "s\<lparr>rn_todo := todo, rn_at := Some (a, n, PushLoad)\<rparr>"
  have "push_turns coll a (replicate (length (db_policies (rn_db s)) + 2) env) PushLoad (rn_db ?u) (rn_out ?u n) =
      (PushDone, d, ch)" using assms(4) by (simp add: push_turns_pending del: push_turns.simps replicate.simps)
  from turns [OF _ this] have "runs ?u (with_db d (?u\<lparr>rn_out := (rn_out ?u)(n := ch), rn_at := None\<rparr>))" by simp
  moreover have "run_step s ?u" using run_step.broadcast_next [OF assms(1-3)] .
  moreover have "with_db d (?u\<lparr>rn_out := (rn_out ?u)(n := ch), rn_at := None\<rparr>) =
      with_db d (s\<lparr>rn_todo := todo, rn_out := (rn_out s)(n := ch)\<rparr>)" using assms(1) by (simp add: with_db_def set_db_def)
  ultimately show ?thesis by (metis converse_rtranclp_into_rtranclp)
qed

section \<open>Whose stream is whose\<close>

definition owners_ok :: "running \<Rightarrow> bool" where
  "owners_ok s \<longleftrightarrow> (\<forall>n a. sm_open (rn_streams s) n = Some a \<longrightarrow> rn_owner s n = Some a) \<and>
     (\<forall>n a. reg_get a (sm_registry (rn_streams s)) = Some n \<longrightarrow> rn_owner s n = Some a) \<and>
     (\<forall>n a. rn_owner s n = Some a \<longrightarrow> n < sm_next (rn_streams s) \<and> a \<in> ag_id ` set (db_agents (rn_db s)))"

lemma owners_okD:
  assumes "owners_ok s"
  shows "sm_open (rn_streams s) n = Some a \<Longrightarrow> rn_owner s n = Some a"
    "reg_get a (sm_registry (rn_streams s)) = Some n \<Longrightarrow> rn_owner s n = Some a"
    "rn_owner s n = Some a \<Longrightarrow> n < sm_next (rn_streams s)"
    "rn_owner s n = Some a \<Longrightarrow> a \<in> ag_id ` set (db_agents (rn_db s))"
  using assms unfolding owners_ok_def by metis+

text \<open>What a step does to the database is a run of statements, so agents stay.\<close>

lemma step_stmts:
  assumes "run_step s s'" "owners_ok s"
  shows "stmts (rn_db s) (rn_db s')"
  using assms
proof (induction rule: run_step.induct)
  case (http env req s a sv)
  then show ?case by (auto dest: serve_stmts)
next
  case (inbound s n a env msg b d ch)
  then have "a \<in> ag_id ` set (db_agents (rn_db s))" using owners_okD(1,4) by blast
  from message_stmts [OF this inbound(3)] show ?case by simp
qed (auto dest: finish_stmts bootstrap_stmts gen_token_stmts turn_stmts)

lemma owners_step:
  assumes "run_step s s'" "owners_ok s"
  shows "owners_ok s'"
proof -
  have agents: "a \<in> ag_id ` set (db_agents (rn_db s'))" if "a \<in> ag_id ` set (db_agents (rn_db s))" for a
    using stmts_agents [OF step_stmts [OF assms] that] .
  from assms(1) show ?thesis
  proof (cases rule: run_step.cases)
    case (accept pu px out certs a st)
    then show ?thesis using assms(2) agents accepted_is_enrolled [OF accept(2)]
      by (fastforce simp: owners_ok_def rg.look_reg split: if_splits dest: less_SucI)
  next
    case (close n st)
    then show ?thesis using assms(2) agents
      by (fastforce simp: owners_ok_def rg.look_unreg split: if_splits)
  qed (use assms(2) agents in \<open>auto simp: owners_ok_def\<close>)
qed

lemma runs_owners:
  assumes "runs s s'" "owners_ok s"
  shows "owners_ok s' \<and> stmts (rn_db s) (rn_db s')"
  using assms
  by (induction rule: rtranclp_induct) (auto dest: owners_step step_stmts intro: stmts_trans)

lemma booted_owners: "owners_ok (booted sv)"
  by (simp add: owners_ok_def booted_def no_streams_def rg.look_start)

context statement_invariant
begin

lemma reachable: "runs (booted sv) s \<Longrightarrow> I (sn_db sv) \<Longrightarrow> I (rn_db s)"
  using stmts_keep [OF conjunct2 [OF runs_owners [OF _ booted_owners]]] by (simp add: booted_def)

end

text \<open>So the running manager keeps its schema and its records.\<close>

lemma running_schema: "runs (booted sv) s \<Longrightarrow> schema (sn_db sv) \<Longrightarrow> schema (rn_db s)"
  by (rule sch.reachable)

lemma running_kept: "runs (booted sv) s \<Longrightarrow> kept (sn_db sv) (rn_db s)"
  by (rule kpt.reachable [OF _ kept_refl])

text \<open>C4: over any run of the manager, whatever requests, enrollments, streams, bridges and commands of the tool do and
  however they interleave, the rows are what no constraint of the tables demands and only the code vouches for:
  policies have slugs for names, every event is that of an enrolled agent and has a type and action of the protocol,
  every agent is active, every account an administrator's, and every enrollment token expires.\<close>

theorem rows_are_vouched_for:
  assumes "runs (booted sv) s" "vouched (sn_db sv)"
  shows "vouched (rn_db s)"
  using assms by (rule vch.reachable)

section \<open>What reaches a channel\<close>

lemma push_msgs:
  assumes "push_turn coll env a t d tx = (t', d', tx')" "m \<in> set (ch_msgs tx')"
  shows "m \<in> set (ch_msgs tx) \<or> (\<exists>ps. to_send t = set ps \<and> m = update_message ps)"
  using assms by (auto simp: push_turn_def ch_send_def split: push_task.splits sum.splits list.splits if_splits)

lemma inbound_msgs:
  assumes "handle_agent_message env a msg d tx = (b, d', tx')" "m \<in> set (ch_msgs tx')"
  shows "m \<in> set (ch_msgs tx) \<or> (\<exists>t. m = Some (MHeartbeatAck t))"
  using assms by (auto simp: handle_agent_message_def ch_send_def Let_def
      split: sum.splits option.splits agent_payload.splits if_splits)

lemma bridge_msgs:
  assumes "command_bridge_step now r req chs = (f, chs')" "m \<in> set (ch_msgs (chs' n))"
  shows "m \<in> set (ch_msgs (chs n)) \<or> (reg_get (rq_agent_id req) r = Some n \<and>
    m = Some (MCommand \<lparr>cmd_command_id = rq_command_id req, cmd_type = rq_command_type req,
      cmd_payload = rq_payload req, cmd_issued_at_ns = now, cmd_deadline_ns = 0\<rparr>))"
  using assms by (auto simp: command_bridge_step_def ch_send_def split: option.splits if_splits)

lemma update_message_cases [simp]:
  "update_message ps \<noteq> Some (MCommand cmd)" "Some (MCommand cmd) \<noteq> update_message ps"
  "update_message ps = update_message qs \<longleftrightarrow> ps = qs"
  by (auto simp: update_message_def)

section \<open>Commands are asked for\<close>

definition command_queue :: "running \<Rightarrow> command_request set" where
  "command_queue s = (case st_command_tx (sn_state (rn_server s)) of None \<Rightarrow> {} | Some q \<Rightarrow> set (ch_msgs q))"

text \<open>A request that asks for a command: an administrator's, to the command route of that agent, for that type and
  payload.\<close>

definition asks_for :: "api_env \<times> http_request \<Rightarrow> uuid \<Rightarrow> rstr \<Rightarrow> int \<Rightarrow> u8 list \<Rightarrow> bool" where
  "asks_for x agent i t payload \<longleftrightarrow>
     (case x of (env, req) \<Rightarrow> \<exists>c ps q.
        from_request_parts (ax_decode env) (hq_authorization req) = Inr c \<and> cl_role c = lit ''admin'' \<and>
        resolve (hq_method req) (hq_path req) = Inr (RCommand, ps) \<and> ax_path_uuid env (hd ps) = Inr agent \<and>
        ax_command env (hq_body req) = Inr q \<and> command_type_of (sc_command_type q) = Inr t \<and>
        (case sc_payload_b64 q of None \<Rightarrow> payload = [] | Some b \<Rightarrow> ax_b64 env b = Inr payload) \<and> i = ax_command_id env)"

lemma send_command_queue:
  assumes "send_command b64 out i c agent q d bridge = (r, bridge')"
    and "bridge' = Some ch'" "rq \<in> set (ch_msgs ch')" "\<And>ch. bridge = Some ch \<Longrightarrow> rq \<notin> set (ch_msgs ch)"
  shows "cl_role c = lit ''admin'' \<and> rq_agent_id rq = agent \<and> command_type_of (sc_command_type q) = Inr (rq_command_type rq) \<and>
    (case sc_payload_b64 q of None \<Rightarrow> rq_payload rq = [] | Some b \<Rightarrow> b64 b = Inr (rq_payload rq)) \<and> rq_command_id rq = i"
  using assms
  by (auto simp: send_command_def Let_def res_bind_def require_admin_def map_err_def ch_send_def
      split: sum.splits option.splits if_splits)

lemma serve_queue:
  assumes "api_serve env req sv = (a, sv')" "st_command_tx (sn_state sv') = Some q'" "rq \<in> set (ch_msgs q')"
    and "\<And>q. st_command_tx (sn_state sv) = Some q \<Longrightarrow> rq \<notin> set (ch_msgs q)"
  shows "asks_for (env, req) (rq_agent_id rq) (rq_command_id rq) (rq_command_type rq) (rq_payload rq)"
proof -
  have ne: "st_command_tx (sn_state sv') \<noteq> st_command_tx (sn_state sv)" using assms(2-4) by auto
  obtain r ps where rs: "resolve (hq_method req) (hq_path req) = Inr (r, ps)" "handle env r ps req sv = (a, sv')"
    using assms(1) ne by (auto simp: api_serve_def split: sum.splits)
  have other: "st_command_tx (sn_state sv') = st_command_tx (sn_state sv)" if "r \<noteq> RCommand"
    using rs(2) that
    by (cases r) (auto simp: handle_def serve_login_def serve_refresh_def handle_agents_def handle_policies_def
        handle_public_def with_claims_def with_input_def set_db_def set_push_def Let_def split: sum.splits prod.splits)
  with ne have r: "r = RCommand" by blast
  with rs(2) have "handle_agents env RCommand ps req sv = (a, sv')" by (simp add: handle_def)
  then obtain c agent cmd tx x where h: "from_request_parts (ax_decode env) (hq_authorization req) = Inr c"
    "ax_path_uuid env (hd ps) = Inr agent" "ax_command env (hq_body req) = Inr cmd"
    "send_command (ax_b64 env) (ax_select env) (ax_command_id env) c agent cmd (sn_db sv) (st_command_tx (sn_state sv)) = (x, tx)"
    "sv' = set_command tx sv"
    using ne by (auto simp: handle_agents_def with_claims_def with_input_def Let_def split: sum.splits prod.splits)
  then have "tx = Some q'" using assms(2) by (simp add: set_command_def)
  from send_command_queue [OF h(4) this assms(3) assms(4)] h(1-3) rs(1) r show ?thesis
    by (auto simp: asks_for_def)
qed

definition commands_asked :: "running \<Rightarrow> bool" where
  "commands_asked s \<longleftrightarrow>
     (\<forall>rq \<in> command_queue s. \<exists>x \<in> set (rn_log s).
        asks_for x (rq_agent_id rq) (rq_command_id rq) (rq_command_type rq) (rq_payload rq)) \<and>
     (\<forall>n cmd. Some (MCommand cmd) \<in> set (ch_msgs (rn_out s n)) \<longrightarrow>
        (\<exists>a. rn_owner s n = Some a \<and>
          (\<exists>x \<in> set (rn_log s). asks_for x a (cmd_command_id cmd) (cmd_type cmd) (cmd_payload cmd))))"

lemma commands_askedD:
  assumes "commands_asked s"
  shows "rq \<in> command_queue s \<Longrightarrow> \<exists>x \<in> set (rn_log s).
      asks_for x (rq_agent_id rq) (rq_command_id rq) (rq_command_type rq) (rq_payload rq)"
    "Some (MCommand cmd) \<in> set (ch_msgs (rn_out s n)) \<Longrightarrow> \<exists>a. rn_owner s n = Some a \<and>
      (\<exists>x \<in> set (rn_log s). asks_for x a (cmd_command_id cmd) (cmd_type cmd) (cmd_payload cmd))"
  using assms unfolding commands_asked_def by blast+

text \<open>A step that adds no command to a queue or channel keeps the property.\<close>

lemma commands_asked_frame:
  assumes "commands_asked s" "command_queue s' \<subseteq> command_queue s" "set (rn_log s) \<subseteq> set (rn_log s')"
    and "\<And>n a. rn_owner s n = Some a \<Longrightarrow> rn_owner s' n = Some a"
    and "\<And>n cmd. Some (MCommand cmd) \<in> set (ch_msgs (rn_out s' n)) \<Longrightarrow> Some (MCommand cmd) \<in> set (ch_msgs (rn_out s n))"
  shows "commands_asked s'"
  unfolding commands_asked_def
proof (intro conjI ballI allI impI)
  fix rq assume "rq \<in> command_queue s'"
  then show "\<exists>x \<in> set (rn_log s'). asks_for x (rq_agent_id rq) (rq_command_id rq) (rq_command_type rq) (rq_payload rq)"
    using commands_askedD(1) [OF assms(1)] assms(2,3) by blast
next
  fix n cmd assume "Some (MCommand cmd) \<in> set (ch_msgs (rn_out s' n))"
  then show "\<exists>a. rn_owner s' n = Some a \<and>
      (\<exists>x \<in> set (rn_log s'). asks_for x a (cmd_command_id cmd) (cmd_type cmd) (cmd_payload cmd))"
    using commands_askedD(2) [OF assms(1)] assms(3-5) by blast
qed

lemma commands_step:
  assumes "run_step s s'" "owners_ok s" "commands_asked s"
  shows "commands_asked s'"
  using assms(1)
proof (cases rule: run_step.cases)
  case (http env req a sv)
  have "\<exists>x \<in> set (rn_log s'). asks_for x (rq_agent_id rq) (rq_command_id rq) (rq_command_type rq) (rq_payload rq)"
    if rq: "rq \<in> command_queue s'" for rq
  proof (cases "rq \<in> command_queue s")
    case True
    then show ?thesis using commands_askedD(1) [OF assms(3)] http(1) by auto
  next
    case False
    obtain q' where "st_command_tx (sn_state sv) = Some q'" "rq \<in> set (ch_msgs q')"
      using rq http(1) by (auto simp: command_queue_def split: option.splits)
    then have "asks_for (env, req) (rq_agent_id rq) (rq_command_id rq) (rq_command_type rq) (rq_payload rq)"
      by (rule serve_queue [OF http(2)]) (use False in \<open>simp add: command_queue_def\<close>)
    then show ?thesis using http(1) by simp
  qed
  then show ?thesis using commands_askedD(2) [OF assms(3)] http(1) by (fastforce simp: commands_asked_def)
next
  case (accept pu px out certs a st)
  have "rn_owner s n = None" if "n = sm_next (rn_streams s)" for n
    using owners_okD(3) [OF assms(2)] that by (cases "rn_owner s n") auto
  then show ?thesis
    by (intro commands_asked_frame [OF assms(3)])
      (auto simp: accept(1) command_queue_def empty_channel_def split: if_splits)
next
  case (first_push n a coll env t d ch)
  show ?thesis
    by (intro commands_asked_frame [OF assms(3)])
      (auto simp: first_push(1) command_queue_def split: if_splits dest: push_msgs [OF first_push(3)])
next
  case (inbound n a env msg b d ch)
  show ?thesis
    by (intro commands_asked_frame [OF assms(3)])
      (auto simp: inbound(1) command_queue_def split: if_splits dest: inbound_msgs [OF inbound(4)])
next
  case (command q req rest now fate out)
  have rq: "req \<in> command_queue s" using command(2,3) by (simp add: command_queue_def)
  have "\<exists>a. rn_owner s' n = Some a \<and>
      (\<exists>x \<in> set (rn_log s'). asks_for x a (cmd_command_id cmd) (cmd_type cmd) (cmd_payload cmd))"
    if "Some (MCommand cmd) \<in> set (ch_msgs (rn_out s' n))" for n cmd
    using bridge_msgs [OF command(4), of "Some (MCommand cmd)" n] that commands_askedD [OF assms(3)] rq
      owners_okD(2) [OF assms(2)] command(1) by fastforce
  moreover have "command_queue s' \<subseteq> command_queue s"
    using command(1-3) by (auto simp: command_queue_def set_command_def)
  ultimately show ?thesis using commands_askedD(1) [OF assms(3)] command(1) by (auto simp: commands_asked_def)
next
  case (broadcast_start q m rest ids)
  show ?thesis
    by (intro commands_asked_frame [OF assms(3)]) (auto simp: broadcast_start(1) command_queue_def set_push_def)
next
  case (broadcast_turn a n t coll env t' d ch)
  show ?thesis
    by (intro commands_asked_frame [OF assms(3)])
      (auto simp: broadcast_turn(1) command_queue_def split: if_splits dest: push_msgs [OF broadcast_turn(3)])
qed (auto intro!: commands_asked_frame [OF assms(3)] simp: command_queue_def split: if_splits)

text \<open>C7: however requests, streams and bridges interleave, every command in the channel of an agent's stream was asked
  for, with its id, type and payload, by a request of an administrator to the command route of this very agent, which
  is enrolled.\<close>

theorem commands_were_asked_for:
  assumes "runs (booted sv) s" "\<And>q. st_command_tx (sn_state sv) = Some q \<Longrightarrow> ch_msgs q = []"
    and "Some (MCommand cmd) \<in> set (ch_msgs (rn_out s n))"
  shows "\<exists>a. rn_owner s n = Some a \<and> a \<in> ag_id ` set (db_agents (rn_db s)) \<and>
    (\<exists>x \<in> set (rn_log s). asks_for x a (cmd_command_id cmd) (cmd_type cmd) (cmd_payload cmd))"
proof -
  have "commands_asked (booted sv)"
    using assms(2) by (auto simp: commands_asked_def command_queue_def booted_def empty_channel_def split: option.splits)
  with assms(1) have "owners_ok s \<and> commands_asked s"
    by (induction rule: rtranclp_induct) (auto intro: booted_owners dest: owners_step commands_step)
  then show ?thesis using commands_askedD(2) [OF _ assms(3)] owners_okD(4) by blast
qed

section \<open>Policies were written\<close>

text \<open>A database after a change of the policy \<open>n\<close> to the document \<open>y\<close>: other policies have the content they had, and
  the history has nothing else new.\<close>

definition same_content :: "db \<Rightarrow> policy_row \<Rightarrow> bool" where
  "same_content d p \<longleftrightarrow> (\<exists>q \<in> set (db_policies d). po_name q = po_name p \<and> po_content_compiled q = po_content_compiled p)"

definition change_by :: "policy_env \<Rightarrow> rstr \<Rightarrow> rstr \<Rightarrow> db \<Rightarrow> db \<Rightarrow> bool" where
  "change_by pe n y d d' \<longleftrightarrow>
     (\<forall>p \<in> set (db_policies d'). same_content d p \<or>
        (po_name p = n \<and> (\<exists>pol c t. parse_and_compile pe y = Inr (pol, c, t) \<and> po_content_compiled p = cp_msgpack c))) \<and>
     (\<forall>h \<in> set (db_history d'). h \<in> set (db_history d) \<or> (hi_policy_name h = n \<and> hi_content_yaml h = y))"

definition no_change :: "db \<Rightarrow> db \<Rightarrow> bool" where
  "no_change d d' \<longleftrightarrow> (\<forall>p \<in> set (db_policies d'). same_content d p) \<and> set (db_history d') \<subseteq> set (db_history d)"

lemma same_content_in: "p \<in> set (db_policies d) \<Longrightarrow> same_content d p"
  by (auto simp: same_content_def)

lemma no_change_same: "db_policies d' = db_policies d \<Longrightarrow> db_history d' = db_history d \<Longrightarrow> no_change d d'"
  by (simp add: no_change_def same_content_in)

lemma change_none: "no_change d d' \<Longrightarrow> change_by pe n y d d'"
  by (auto simp: no_change_def change_by_def)

lemma store_change:
  assumes "store_version env n v y (p, c, t) who re d tx = (r, d', tx')" "parse_and_compile pe y = Inr (p, c, t)"
  shows "change_by pe n y d d'"
proof -
  have w: "change_by pe n y d (write_policy now n v y (p, c, t) who d)" for now
    using assms(2) by (auto simp: change_by_def write_policy_def set_upd same_content_in)
  have h: "change_by pe n y d (append_history now n v y who re e)" if "change_by pe n y d e" for now e
    using that by (auto simp: change_by_def append_history_def)
  show ?thesis using assms(1) w h change_none [OF no_change_same [OF refl refl]]
    by (auto simp: store_version_def sql_exec_def split: option.splits)
qed

lemma create_change:
  assumes "create pe c y re d tx = (r, d', tx')"
  shows "no_change d d' \<or> (\<exists>p k. cl_role c = lit ''admin'' \<and> parse_and_compile pe y = Inr (p, k) \<and>
    change_by pe (md_name (p_metadata p)) y d d')"
proof (cases "create_check pe c y d")
  case (Inl e) with assms show ?thesis by (simp add: create_def no_change_same)
next
  case (Inr z)
  obtain p cp t who where z: "z = ((p, cp, t), who)" by (metis prod_cases3 surj_pair)
  have pc: "parse_and_compile pe y = Inr (p, cp, t)" "cl_role c = lit ''admin''"
    using Inr z by (auto simp: create_check_def res_bind_Inr_iff require_admin_def split: if_splits)
  have "change_by pe (md_name (p_metadata p)) y d d'" using assms Inr z pc(1)
    by (auto simp: create_def insert_policy_def append_history_def sql_exec_def Let_def change_by_def same_content_in
        split: option.splits if_splits)
  with pc show ?thesis by blast
qed

lemma update_change:
  assumes "update pe c n y re d tx = (r, d', tx')"
  shows "no_change d d' \<or> (\<exists>p k. cl_role c = lit ''admin'' \<and> parse_and_compile pe y = Inr (p, k) \<and>
    md_name (p_metadata p) = n \<and> change_by pe n y d d')"
proof (cases "update_check pe c n y d")
  case (Inl e) with assms show ?thesis by (simp add: update_def no_change_same)
next
  case (Inr z)
  obtain p cp t who v where z: "z = ((p, cp, t), who, v)" by (metis prod_cases3 surj_pair)
  have pc: "parse_and_compile pe y = Inr (p, cp, t)" "cl_role c = lit ''admin''" "md_name (p_metadata p) = n"
    using Inr z by (auto simp: update_check_def res_bind_Inr_iff require_admin_def split: if_splits)
  from assms Inr z have "store_version pe n (wrap_i32 (v + 1)) y (p, cp, t) who (unwrap_or (lit ''update'') re) d tx
      = (r, d', tx')" by (simp add: update_def)
  from store_change [OF this pc(1)] pc show ?thesis by blast
qed

lemma rollback_change:
  assumes "rollback pe c n v d tx = (r, d', tx')"
  shows "no_change d d' \<or> (\<exists>h \<in> set (db_history d). hi_policy_name h = n \<and> change_by pe n (hi_content_yaml h) d d')"
proof (cases "rollback_check pe c n v d")
  case (Inl e) with assms show ?thesis by (simp add: rollback_def no_change_same)
next
  case (Inr z)
  obtain y p cp t who w where z: "z = (y, (p, cp, t), who, w)" by (metis prod_cases3 surj_pair)
  then obtain h where h: "find (\<lambda>h. hi_policy_name h = n \<and> hi_version h = v) (db_history d) = Some h"
    "y = hi_content_yaml h" "parse_and_compile pe y = Inr (p, cp, t)"
    using Inr by (auto simp: rollback_check_def res_bind_Inr_iff sql_query_def ok_or_def split: option.splits)
  from assms Inr z have "store_version pe n (wrap_i32 (w + 1)) y (p, cp, t) who (lit ''rollback to v'' @ show_int v) d tx
      = (r, d', tx')" by (simp add: rollback_def)
  from store_change [OF this h(3)] find_SomeD [OF h(1)] h(2) show ?thesis by blast
qed

lemma delete_change: "delete_handler pe c n d tx = (r, d', tx') \<Longrightarrow> no_change d d'"
  by (auto simp: delete_handler_def delete_policy_def no_change_def same_content_in
      split: sum.splits option.splits bool.splits prod.splits)

text \<open>A request submits a document for a policy when an administrator creates or updates it so.\<close>

definition submits :: "api_env \<times> http_request \<Rightarrow> rstr \<Rightarrow> rstr \<Rightarrow> bool" where
  "submits x name yaml \<longleftrightarrow>
     (case x of (env, req) \<Rightarrow> \<exists>c r ps reason p k.
        from_request_parts (ax_decode env) (hq_authorization req) = Inr c \<and> cl_role c = lit ''admin'' \<and>
        resolve (hq_method req) (hq_path req) = Inr (r, ps) \<and> r \<in> {RCreate, RUpdate} \<and>
        ax_policy_body env (hq_body req) = Inr (yaml, reason) \<and>
        parse_and_compile (ax_policy env) yaml = Inr (p, k) \<and> md_name (p_metadata p) = name)"

lemma session_change:
  "serve_login env req sv = (a, sv') \<Longrightarrow> no_change (sn_db sv) (sn_db sv')"
  "serve_refresh env req sv = (a, sv') \<Longrightarrow> no_change (sn_db sv) (sn_db sv')"
  by (auto dest!: serve_login_same serve_refresh_same intro!: no_change_same simp: same_but_sessions_def)

lemma agents_change: "handle_agents env r ps req sv = (a, sv') \<Longrightarrow> no_change (sn_db sv) (sn_db sv')"
proof (rule no_change_same)
  assume h: "handle_agents env r ps req sv = (a, sv')"
  have "install_create e cfg c q d = (x, d') \<Longrightarrow> db_policies d' = db_policies d \<and> db_history d' = db_history d" for e cfg c q d x d'
    by (auto simp: install_create_def insert_token_def Let_def split: sum.splits option.splits prod.splits if_splits)
  then show "db_policies (sn_db sv') = db_policies (sn_db sv)" "db_history (sn_db sv') = db_history (sn_db sv)"
    using h by (cases r; auto simp: handle_agents_def with_claims_def with_input_def Let_def split: sum.splits prod.splits)+
qed

definition changed :: "api_env \<Rightarrow> http_request \<Rightarrow> db \<Rightarrow> db \<Rightarrow> bool" where
  "changed env req d d' \<longleftrightarrow> no_change d d' \<or> (\<exists>n y. change_by (ax_policy env) n y d d' \<and>
     (submits (env, req) n y \<or> (\<exists>h \<in> set (db_history d). hi_policy_name h = n \<and> hi_content_yaml h = y)))"

lemma changed_same: "db_policies d' = db_policies d \<Longrightarrow> db_history d' = db_history d \<Longrightarrow> changed env req d d'"
  by (simp add: changed_def no_change_same)

lemma writes_change:
  assumes "from_request_parts (ax_decode env) (hq_authorization req) = Inr c"
    and "resolve (hq_method req) (hq_path req) = Inr (r, ps)" "ax_policy_body env (hq_body req) = Inr (y, re)"
  shows "r = RCreate \<Longrightarrow> create (ax_policy env) c y re d tx = (x, d', tx') \<Longrightarrow> changed env req d d'"
    "r = RUpdate \<Longrightarrow> update (ax_policy env) c n y re d tx = (z, d', tx') \<Longrightarrow> changed env req d d'"
proof -
  have sub: "submits (env, req) (md_name (p_metadata p)) y"
    if "r \<in> {RCreate, RUpdate}" "cl_role c = lit ''admin''" "parse_and_compile (ax_policy env) y = Inr (p, k)" for p k
    using assms that by (auto simp: submits_def)
  show "r = RCreate \<Longrightarrow> create (ax_policy env) c y re d tx = (x, d', tx') \<Longrightarrow> changed env req d d'"
    using create_change [of "ax_policy env" c y re d tx x d' tx'] sub unfolding changed_def by blast
  show "r = RUpdate \<Longrightarrow> update (ax_policy env) c n y re d tx = (z, d', tx') \<Longrightarrow> changed env req d d'"
    using update_change [of "ax_policy env" c n y re d tx z d' tx'] sub unfolding changed_def by blast
qed

lemma rollback_changed: "rollback (ax_policy env) c n v d tx = (x, d', tx') \<Longrightarrow> changed env req d d'"
  using rollback_change [of "ax_policy env" c n v d tx x d' tx'] unfolding changed_def by blast

lemma delete_changed: "delete_handler (ax_policy env) c n d tx = (x, d', tx') \<Longrightarrow> changed env req d d'"
  unfolding changed_def by (intro disjI1) (rule delete_change)

lemma handle_policies_change:
  assumes "handle_policies env r ps req sv = (a, sv')" "resolve (hq_method req) (hq_path req) = Inr (r, ps)"
  shows "changed env req (sn_db sv) (sn_db sv')"
proof (cases "from_request_parts (ax_decode env) (hq_authorization req)")
  case (Inl e) with assms(1) show ?thesis by (simp add: handle_policies_def with_claims_def changed_same)
next
  case (Inr c)
  note w = writes_change [OF Inr assms(2)]
  from assms(1) show ?thesis
    by (cases r) (auto simp: handle_policies_def with_claims_def with_input_def Inr Let_def changed_same
        dest: w rollback_changed delete_changed split: sum.splits prod.splits)
qed

lemma serve_change:
  assumes "api_serve env req sv = (a, sv')"
  shows "changed env req (sn_db sv) (sn_db sv')"
proof (cases "resolve (hq_method req) (hq_path req)")
  case (Inl x) with assms show ?thesis by (auto simp: api_serve_def changed_same)
next
  case (Inr x)
  obtain r ps where x: "x = (r, ps)" by fastforce
  have h: "handle env r ps req sv = (a, sv')" using assms Inr x by (simp add: api_serve_def)
  then have "serve_login env req sv = (a, sv') \<or> serve_refresh env req sv = (a, sv') \<or>
      handle_agents env r ps req sv = (a, sv') \<or> handle_policies env r ps req sv = (a, sv') \<or> sv' = sv"
    using handle_public_same unfolding handle_def by (auto split: if_splits)
  moreover have "handle_policies env r ps req sv = (a, sv') \<Longrightarrow> ?thesis"
    using handle_policies_change Inr x by blast
  moreover have "no_change (sn_db sv) (sn_db sv') \<Longrightarrow> ?thesis" by (simp add: changed_def)
  ultimately show ?thesis by (elim disjE) (auto dest: session_change agents_change intro: changed_same)
qed

text \<open>The other operations leave policies and history alone.\<close>

lemma mark_assigned_policies:
  "db_policies (snd (mark_assigned out now a n v d)) = db_policies d"
  "db_history (snd (mark_assigned out now a n v d)) = db_history d"
  by (auto simp: mark_assigned_def Let_def split: option.split)

lemma turn_policies:
  "push_turn coll env a t d tx = (t', d', tx') \<Longrightarrow> db_policies d' = db_policies d \<and> db_history d' = db_history d"
  using only_own_turn [of coll env a t d tx t' d' tx'] by (simp add: only_own_def)

lemma message_policies:
  "handle_agent_message env a msg d tx = (b, d', tx') \<Longrightarrow> db_policies d' = db_policies d \<and> db_history d' = db_history d"
  using only_own_message [of a d env msg tx] by (simp add: only_own_def)

lemma finish_policies:
  "enroll_finish env req info d = (r, d') \<Longrightarrow> db_policies d' = db_policies d \<and> db_history d' = db_history d"
  by (auto simp: enroll_finish_def insert_agent_def sql_exec_def increment_uses_def Let_def split: option.splits sum.splits if_splits)

lemma tool_policies:
  "bootstrap_admin bh out i u p d = (r, d') \<Longrightarrow> db_policies d' = db_policies d \<and> db_history d' = db_history d"
  "gen_token ge ds mu vd d = (q, d') \<Longrightarrow> db_policies d' = db_policies d \<and> db_history d' = db_history d"
  by (auto simp: bootstrap_admin_def insert_user_def gen_token_def insert_token_def Let_def
      split: if_splits sum.splits option.splits prod.splits)

section \<open>Every policy sent was submitted\<close>

text \<open>What counts as submitted under a name, given the database at the start: the document is in its history, or a
  request submitted it; and a content is that of a policy at the start or the compilation of such a document.\<close>

definition submitted :: "db \<Rightarrow> (api_env \<times> http_request) list \<Rightarrow> rstr \<Rightarrow> rstr \<Rightarrow> bool" where
  "submitted d0 log n y \<longleftrightarrow> (\<exists>h \<in> set (db_history d0). hi_policy_name h = n \<and> hi_content_yaml h = y) \<or>
     (\<exists>x \<in> set log. submits x n y)"

definition compiled_from :: "db \<Rightarrow> (api_env \<times> http_request) list \<Rightarrow> rstr \<Rightarrow> u8 list \<Rightarrow> bool" where
  "compiled_from d0 log n content \<longleftrightarrow>
     (\<exists>p \<in> set (db_policies d0). po_name p = n \<and> po_content_compiled p = content) \<or>
     (\<exists>y. submitted d0 log n y \<and> (\<exists>x \<in> set log. \<exists>p c t.
        parse_and_compile (ax_policy (fst x)) y = Inr (p, c, t) \<and> content = cp_msgpack c))"

text \<open>The policies the pushes under way have loaded.\<close>

definition in_hand :: "running \<Rightarrow> policy_ref set" where
  "in_hand s = (\<Union>n. to_send (rn_push s n)) \<union> (case rn_at s of None \<Rightarrow> {} | Some (a, n, t) \<Rightarrow> to_send t)"

definition policies_submitted :: "db \<Rightarrow> running \<Rightarrow> bool" where
  "policies_submitted d0 s \<longleftrightarrow>
     (\<forall>h \<in> set (db_history (rn_db s)). submitted d0 (rn_log s) (hi_policy_name h) (hi_content_yaml h)) \<and>
     (\<forall>p \<in> set (db_policies (rn_db s)). compiled_from d0 (rn_log s) (po_name p) (po_content_compiled p)) \<and>
     (\<forall>n u. Some (MPolicy u) \<in> set (ch_msgs (rn_out s n)) \<longrightarrow>
        (\<forall>ref \<in> set (pu_policies u). compiled_from d0 (rn_log s) (pref_policy_id ref) (pref_content_compiled ref))) \<and>
     (\<forall>ref \<in> in_hand s. compiled_from d0 (rn_log s) (pref_policy_id ref) (pref_content_compiled ref))"

lemma submitted_mono: "submitted d0 log n y \<Longrightarrow> set log \<subseteq> set log' \<Longrightarrow> submitted d0 log' n y"
  by (auto simp: submitted_def)

lemma compiled_from_mono: "compiled_from d0 log n c \<Longrightarrow> set log \<subseteq> set log' \<Longrightarrow> compiled_from d0 log' n c"
  unfolding compiled_from_def using submitted_mono by blast

lemma policies_submittedD:
  assumes "policies_submitted d0 s"
  shows "h \<in> set (db_history (rn_db s)) \<Longrightarrow> submitted d0 (rn_log s) (hi_policy_name h) (hi_content_yaml h)"
    "p \<in> set (db_policies (rn_db s)) \<Longrightarrow> compiled_from d0 (rn_log s) (po_name p) (po_content_compiled p)"
    "Some (MPolicy u) \<in> set (ch_msgs (rn_out s n)) \<Longrightarrow> ref \<in> set (pu_policies u) \<Longrightarrow>
       compiled_from d0 (rn_log s) (pref_policy_id ref) (pref_content_compiled ref)"
    "ref \<in> in_hand s \<Longrightarrow> compiled_from d0 (rn_log s) (pref_policy_id ref) (pref_content_compiled ref)"
  using assms unfolding policies_submitted_def by blast+

lemma load_pending_content:
  assumes "load_pending_policies coll out a d = Inr ps" "ref \<in> set ps"
  shows "\<exists>p \<in> set (db_policies d). pref_policy_id ref = po_name p \<and> pref_content_compiled ref = po_content_compiled p"
proof -
  obtain p where "p \<in> set (db_policies d)" "ref = to_ref p"
    using assms by (auto simp: load_pending_policies_def sql_query_def split: option.splits)
  then show ?thesis by (intro bexI [of _ p]) (simp_all add: to_ref_def)
qed

lemma turn_sends:
  assumes "push_turn coll env a t d (out n) = (t', d', ch)" "to_send t \<subseteq> H" "m \<in> set (ch_msgs ((out(n := ch)) k))"
  shows "m \<in> set (ch_msgs (out k)) \<or> (\<exists>ps. set ps \<subseteq> H \<and> m = update_message ps)"
proof (cases "k = n")
  case True
  with assms(3) have "m \<in> set (ch_msgs ch)" by simp
  from push_msgs [OF assms(1) this] show ?thesis
  proof
    assume "\<exists>ps. to_send t = set ps \<and> m = update_message ps"
    then obtain ps where "to_send t = set ps" "m = update_message ps" by blast
    with assms(2) show ?thesis by (intro disjI2 exI [of _ ps]) simp
  qed (use True in simp)
qed (use assms(3) in simp)

lemma turn_hand:
  assumes "push_turn coll env a t d tx = (t', d', tx')" "ref \<in> to_send t'"
  shows "ref \<in> to_send t \<or>
    (\<exists>p \<in> set (db_policies d). pref_policy_id ref = po_name p \<and> pref_content_compiled ref = po_content_compiled p)"
proof (cases t)
  case PushLoad
  then obtain ps where "load_pending_policies coll (ps_load env) a d = Inr ps" "ref \<in> set ps"
    using assms by (auto simp: push_turn_def split: sum.splits list.splits)
  from load_pending_content [OF this] show ?thesis by blast
next
  case (PushMark ps qs)
  then show ?thesis using assms by (cases qs) auto
qed (use assms in auto)

text \<open>A step that changes neither policies nor history sends no policies but those a push has loaded.\<close>

lemma policies_submitted_frame:
  assumes "policies_submitted d0 s" "db_policies (rn_db s') = db_policies (rn_db s)" "db_history (rn_db s') = db_history (rn_db s)"
    and "rn_log s' = rn_log s"
    and "\<And>n m. m \<in> set (ch_msgs (rn_out s' n)) \<Longrightarrow> m \<in> set (ch_msgs (rn_out s n)) \<or> (\<forall>u. m \<noteq> Some (MPolicy u)) \<or>
      (\<exists>ps. set ps \<subseteq> in_hand s \<and> m = update_message ps)"
    and "\<And>ref. ref \<in> in_hand s' \<Longrightarrow> ref \<in> in_hand s \<or> (\<exists>p \<in> set (db_policies (rn_db s)).
      pref_policy_id ref = po_name p \<and> pref_content_compiled ref = po_content_compiled p)"
  shows "policies_submitted d0 s'"
proof -
  have "compiled_from d0 (rn_log s) (pref_policy_id ref) (pref_content_compiled ref)"
    if "Some (MPolicy u) \<in> set (ch_msgs (rn_out s' n))" "ref \<in> set (pu_policies u)" for n u ref
    using assms(5) [OF that(1)]
  proof (elim disjE)
    assume "Some (MPolicy u) \<in> set (ch_msgs (rn_out s n))"
    then show ?thesis using policies_submittedD(3) [OF assms(1)] that(2) by blast
  next
    assume "\<exists>ps. set ps \<subseteq> in_hand s \<and> Some (MPolicy u) = update_message ps"
    then have "ref \<in> in_hand s" using that(2) by (auto simp: update_message_def)
    then show ?thesis by (rule policies_submittedD(4) [OF assms(1)])
  qed simp
  moreover have "compiled_from d0 (rn_log s) (pref_policy_id ref) (pref_content_compiled ref)" if "ref \<in> in_hand s'" for ref
    using assms(6) [OF that] policies_submittedD(2,4) [OF assms(1)] by metis
  ultimately show ?thesis using assms(1-4) by (simp add: policies_submitted_def)
qed

lemma http_submitted:
  assumes "policies_submitted d0 s" "api_serve env req (rn_server s) = (a, sv)"
  shows "policies_submitted d0 (s\<lparr>rn_server := sv, rn_log := rn_log s @ [(env, req)]\<rparr>)"
proof -
  let ?log = "rn_log s @ [(env, req)]"
  have old: "submitted d0 ?log (hi_policy_name h) (hi_content_yaml h)" if "h \<in> set (db_history (rn_db s))" for h
    using policies_submittedD(1) [OF assms(1) that] by (rule submitted_mono) auto
  have same: "compiled_from d0 ?log (po_name p) (po_content_compiled p)" if c: "same_content (rn_db s) p" for p
  proof -
    from c obtain q where "q \<in> set (db_policies (rn_db s))" "po_name q = po_name p"
      "po_content_compiled q = po_content_compiled p" by (auto simp: same_content_def)
    then have "compiled_from d0 (rn_log s) (po_name p) (po_content_compiled p)"
      using policies_submittedD(2) [OF assms(1)] by metis
    then show ?thesis by (rule compiled_from_mono) auto
  qed
  have msgs: "compiled_from d0 ?log (pref_policy_id ref) (pref_content_compiled ref)"
    if "Some (MPolicy u) \<in> set (ch_msgs (rn_out s n))" "ref \<in> set (pu_policies u)" for n u ref
    using policies_submittedD(3) [OF assms(1) that] by (rule compiled_from_mono) auto
  have hand: "compiled_from d0 ?log (pref_policy_id ref) (pref_content_compiled ref)" if "ref \<in> in_hand s" for ref
    using policies_submittedD(4) [OF assms(1) that] by (rule compiled_from_mono) auto
  have "changed env req (rn_db s) (sn_db sv)" using serve_change [OF assms(2)] .
  then have "(\<forall>h \<in> set (db_history (sn_db sv)). submitted d0 ?log (hi_policy_name h) (hi_content_yaml h)) \<and>
    (\<forall>p \<in> set (db_policies (sn_db sv)). compiled_from d0 ?log (po_name p) (po_content_compiled p))"
    unfolding changed_def
  proof (elim disjE exE conjE)
    assume "no_change (rn_db s) (sn_db sv)"
    then show ?thesis using old same by (auto simp: no_change_def)
  next
    fix n y
    assume c: "change_by (ax_policy env) n y (rn_db s) (sn_db sv)"
      and y: "submits (env, req) n y"
    have sub: "submitted d0 ?log n y" using y by (auto simp: submitted_def)
    then show ?thesis using c old same by (fastforce simp: change_by_def compiled_from_def)
  next
    fix n y
    assume c: "change_by (ax_policy env) n y (rn_db s) (sn_db sv)"
      and y: "\<exists>h \<in> set (db_history (rn_db s)). hi_policy_name h = n \<and> hi_content_yaml h = y"
    have sub: "submitted d0 ?log n y" using y old by blast
    then show ?thesis using c old same by (fastforce simp: change_by_def compiled_from_def)
  qed
  then show ?thesis using msgs hand by (simp add: policies_submitted_def in_hand_def)
qed

lemma submitted_step:
  assumes "run_step s s'" "policies_submitted d0 s"
  shows "policies_submitted d0 s'"
  using assms(1)
proof (cases rule: run_step.cases)
  case (http env req a sv)
  then show ?thesis using http_submitted [OF assms(2)] by simp
next
  case (enroll_end xs env req info ys r d)
  then show ?thesis by (intro policies_submitted_frame [OF assms(2)]) (auto simp: in_hand_def dest: finish_policies)
next
  case (bootstrap bh out i u p r d)
  then show ?thesis by (intro policies_submitted_frame [OF assms(2)]) (auto simp: in_hand_def dest: tool_policies(1))
next
  case (gen_token env ds mu vd r d)
  then show ?thesis by (intro policies_submitted_frame [OF assms(2)]) (auto simp: in_hand_def dest: tool_policies(2))
next
  case (first_push n a coll env t d ch)
  show ?thesis
  proof (rule policies_submitted_frame [OF assms(2)])
    fix k m assume "m \<in> set (ch_msgs (rn_out s' k))"
    then show "m \<in> set (ch_msgs (rn_out s k)) \<or> (\<forall>u. m \<noteq> Some (MPolicy u)) \<or>
        (\<exists>ps. set ps \<subseteq> in_hand s \<and> m = update_message ps)"
      using turn_sends [where out = "rn_out s", OF first_push(3), of "in_hand s" m k] first_push(1) by (auto simp: in_hand_def)
  next
    fix ref assume "ref \<in> in_hand s'"
    then show "ref \<in> in_hand s \<or> (\<exists>p \<in> set (db_policies (rn_db s)).
        pref_policy_id ref = po_name p \<and> pref_content_compiled ref = po_content_compiled p)"
      using turn_hand [OF first_push(3)] first_push(1) by (auto simp: in_hand_def split: if_splits)
  qed (use turn_policies [OF first_push(3)] first_push(1) in simp_all)
next
  case (inbound n a env msg b d ch)
  then show ?thesis
    by (intro policies_submitted_frame [OF assms(2)])
      (auto simp: in_hand_def dest: message_policies inbound_msgs [OF inbound(4)] split: if_splits)
next
  case (command q req rest now fate out)
  then show ?thesis
    by (intro policies_submitted_frame [OF assms(2)]) (auto simp: in_hand_def dest: bridge_msgs [OF command(4)])
next
  case (broadcast_turn a n t coll env t' d ch)
  show ?thesis
  proof (rule policies_submitted_frame [OF assms(2)])
    fix k m assume "m \<in> set (ch_msgs (rn_out s' k))"
    then show "m \<in> set (ch_msgs (rn_out s k)) \<or> (\<forall>u. m \<noteq> Some (MPolicy u)) \<or>
        (\<exists>ps. set ps \<subseteq> in_hand s \<and> m = update_message ps)"
      using turn_sends [where out = "rn_out s", OF broadcast_turn(3), of "in_hand s" m k] broadcast_turn(1,2) by (auto simp: in_hand_def)
  next
    fix ref assume "ref \<in> in_hand s'"
    then show "ref \<in> in_hand s \<or> (\<exists>p \<in> set (db_policies (rn_db s)).
        pref_policy_id ref = po_name p \<and> pref_content_compiled ref = po_content_compiled p)"
      using turn_hand [OF broadcast_turn(3)] broadcast_turn(1,2) by (auto simp: in_hand_def split: if_splits)
  qed (use turn_policies [OF broadcast_turn(3)] broadcast_turn(1) in simp_all)
qed (auto intro!: policies_submitted_frame [OF assms(2)] simp: empty_channel_def in_hand_def split: if_splits)

text \<open>C8: however requests, streams and bridges interleave, every policy the channel of an agent's stream carries is,
  under its name, either one of the start or the compilation of a document that an administrator's request
  submitted under that name or that the history held at the start: an agent is given no other content.\<close>

theorem policies_were_submitted:
  assumes "runs (booted sv) s" "Some (MPolicy u) \<in> set (ch_msgs (rn_out s n))" "ref \<in> set (pu_policies u)"
  shows "compiled_from (sn_db sv) (rn_log s) (pref_policy_id ref) (pref_content_compiled ref)"
proof -
  have "policies_submitted (sn_db sv) (booted sv)"
    by (auto simp: policies_submitted_def booted_def empty_channel_def submitted_def compiled_from_def in_hand_def)
  with assms(1) have "policies_submitted (sn_db sv) s"
    by (induction rule: rtranclp_induct) (auto intro: submitted_step)
  then show ?thesis using policies_submittedD(3) assms(2,3) by blast
qed

section \<open>A run\<close>

text \<open>Agent 7 opens a stream, is sent the policy it lacks, and is then sent a command.\<close>

definition command_env :: api_env where
  "command_env = sample_rest\<lparr>ax_path_uuid := \<lambda>_. Inr 7,
     ax_command := \<lambda>_. Inr \<lparr>sc_command_type = lit ''update_tags'', sc_payload_b64 = None\<rparr>\<rparr>"

definition command_request_7 :: http_request where
  "command_request_7 = \<lparr>hq_method = HPost, hq_path = [lit ''api'', lit ''v1'', lit ''agents'', lit ''7'', lit ''command''],
     hq_authorization = Some (lit ''Bearer x''), hq_query = [], hq_body = []\<rparr>"

definition idle_server :: server where
  "idle_server = set_command (Some \<lparr>ch_msgs = [], ch_closed = False\<rparr>) (set_db one_policy_db sample_server)"

definition queued_command :: command_request where
  "queued_command = \<lparr>rq_agent_id = 7, rq_command_type = 3, rq_payload = [], rq_command_id = []\<rparr>"

lemma sample_accept:
  "stream_accept (\<lambda>_. Some 7) (\<lambda>_. Some [Some []]) None (Some [[]]) one_policy_db = Inr 7"
  by (simp add: stream_accept_def extract_agent_id_def)

lemma sample_command_request:
  "api_serve command_env command_request_7 idle_server =
     (Some (202, BCommand \<lparr>sr_command_id = [], sr_command_type = lit ''update_tags''\<rparr>),
      set_command (Some \<lparr>ch_msgs = [queued_command], ch_closed = False\<rparr>) idle_server)"
proof -
  have "matching [lit ''api'', lit ''v1'', lit ''agents'', lit ''7'', lit ''command''] = [([lit ''7''], [(HPost, RCommand)])]"
    by (simp add: matching_def router_def v1_def List.map_filter_simps)
  then have "resolve HPost [lit ''api'', lit ''v1'', lit ''agents'', lit ''7'', lit ''command''] = Inr (RCommand, [lit ''7''])"
    by (simp add: resolve_def)
  moreover have "ax_decode command_env = ax_decode sample_rest" by (simp add: command_env_def)
  moreover have "command_type_of (lit ''update_tags'') = Inr 3" by (simp add: command_type_of_def)
  ultimately show ?thesis using sample_bearer
    by (simp add: api_serve_def command_request_7_def handle_def handle_agents_def with_claims_def with_input_def Let_def
        send_command_def idle_server_def set_command_def set_db_def queued_command_def ch_send_def)
      (simp add: command_env_def sample_rest_def require_admin_def sample_claims_def command_type_of_def sample_server_def
        ch_send_def answer_def)
qed

definition sent_policy :: policy_update where
  "sent_policy = \<lparr>pu_policies = [to_ref (sample_row (lit ''p'') 3)], pu_full_replace = False, pu_remove_policy_ids = []\<rparr>"

definition sent_command :: command where
  "sent_command = \<lparr>cmd_command_id = [], cmd_type = 3, cmd_payload = [], cmd_issued_at_ns = 9, cmd_deadline_ns = 0\<rparr>"

lemma sample_push:
  "\<exists>d. push_pending (\<lambda>_ _. True) up_env 7 one_policy_db empty_channel =
     (d, \<lparr>ch_msgs = [Some (MPolicy sent_policy)], ch_closed = False\<rparr>)"
  by (subst push_pending_eq)
    (simp_all add: order_by_simps Let_def empty_channel_def update_message_def sent_policy_def)

lemma sample_run:
  "\<exists>s. runs (booted idle_server) s \<and> Some (MPolicy sent_policy) \<in> set (ch_msgs (rn_out s 0)) \<and>
     Some (MCommand sent_command) \<in> set (ch_msgs (rn_out s 0)) \<and> rn_owner s 0 = Some 7 \<and>
     rn_log s = [(command_env, command_request_7)]"
proof -
  let ?s0 = "booted idle_server"
  have db: "rn_db ?s0 = one_policy_db" by (simp add: booted_def idle_server_def)
  let ?st = "\<lparr>sm_registry = register_agent 7 0 new_registry, sm_open = [0 \<mapsto> 7], sm_next = 1\<rparr>"
  let ?sv1 = "set_command (Some \<lparr>ch_msgs = [queued_command], ch_closed = False\<rparr>) idle_server"
  let ?s1 = "?s0\<lparr>rn_server := ?sv1, rn_log := [(command_env, command_request_7)]\<rparr>"
  have "run_step ?s0 (?s0\<lparr>rn_server := ?sv1, rn_log := rn_log ?s0 @ [(command_env, command_request_7)]\<rparr>)"
    by (rule run_step.http) (simp add: booted_def sample_command_request)
  then have 1: "run_step ?s0 ?s1" by (simp add: booted_def)
  let ?s2 = "?s1\<lparr>rn_streams := ?st, rn_out := (rn_out ?s1)(0 := empty_channel),
    rn_push := (rn_push ?s1)(0 := PushLoad), rn_owner := (rn_owner ?s1)(0 := Some 7)\<rparr>"
  have "run_step ?s1 (?s1\<lparr>rn_streams := ?st, rn_out := (rn_out ?s1)(sm_next (rn_streams ?s1) := empty_channel),
      rn_push := (rn_push ?s1)(sm_next (rn_streams ?s1) := PushLoad),
      rn_owner := (rn_owner ?s1)(sm_next (rn_streams ?s1) := Some 7)\<rparr>)"
    by (rule run_step.accept [OF _, where pu = "\<lambda>_. Some 7" and px = "\<lambda>_. Some [Some []]" and out = None and certs = "Some [[]]"])
      (simp_all add: idle_server_def sample_accept booted_def no_streams_def)
  then have 2: "run_step ?s1 ?s2" by (simp add: booted_def no_streams_def)
  obtain d where d: "push_pending (\<lambda>_ _. True) up_env 7 one_policy_db empty_channel =
      (d, \<lparr>ch_msgs = [Some (MPolicy sent_policy)], ch_closed = False\<rparr>)" using sample_push by blast
  let ?ch = "\<lparr>ch_msgs = [Some (MPolicy sent_policy)], ch_closed = False\<rparr>"
  let ?s3 = "pushed 0 (PushDone, d, ?ch) ?s2"
  have 3: "runs ?s2 ?s3"
    by (rule first_push_run [where coll = "\<lambda>_ _. True" and env = up_env and a = 7]) (simp_all add: d idle_server_def)
  let ?out = "(rn_out ?s3)(0 := ?ch\<lparr>ch_msgs := ch_msgs ?ch @ [Some (MCommand sent_command)]\<rparr>)"
  let ?q = "\<lparr>ch_msgs = [queued_command], ch_closed = False\<rparr>"
  let ?s4 = "?s3\<lparr>rn_server := set_command (Some (?q\<lparr>ch_msgs := []\<rparr>)) (rn_server ?s3), rn_out := ?out\<rparr>"
  have 4: "run_step ?s3 ?s4"
    by (rule run_step.command [where now = 9 and req = queued_command and fate = Forwarded])
      (simp_all add: set_command_def command_bridge_step_def rg.look_reg queued_command_def sent_command_def ch_send_def)
  have "runs ?s0 ?s4" using 1 2 3 4 by (meson converse_rtranclp_into_rtranclp rtranclp.rtrancl_into_rtrancl)
  then show ?thesis by (intro exI [of _ ?s4]) simp
qed

theorem commands_were_asked_for_witness:
  "\<exists>s. runs (booted idle_server) s \<and> Some (MCommand sent_command) \<in> set (ch_msgs (rn_out s 0)) \<and>
     asks_for (command_env, command_request_7) 7 [] 3 []"
proof -
  obtain s where s: "runs (booted idle_server) s" "Some (MCommand sent_command) \<in> set (ch_msgs (rn_out s 0))"
    "rn_owner s 0 = Some 7" "rn_log s = [(command_env, command_request_7)]"
    using sample_run by blast
  have "\<exists>a. rn_owner s 0 = Some a \<and> a \<in> ag_id ` set (db_agents (rn_db s)) \<and>
    (\<exists>x \<in> set (rn_log s). asks_for x a (cmd_command_id sent_command) (cmd_type sent_command) (cmd_payload sent_command))"
    by (rule commands_were_asked_for [OF s(1) _ s(2)]) (auto simp: idle_server_def set_command_def)
  with s show ?thesis by (auto simp: sent_command_def)
qed

theorem policies_were_submitted_witness:
  "\<exists>s. runs (booted idle_server) s \<and> Some (MPolicy sent_policy) \<in> set (ch_msgs (rn_out s 0)) \<and>
     compiled_from one_policy_db [(command_env, command_request_7)] (lit ''p'') [1]"
proof -
  obtain s where s: "runs (booted idle_server) s" "Some (MPolicy sent_policy) \<in> set (ch_msgs (rn_out s 0))"
    "rn_log s = [(command_env, command_request_7)]"
    using sample_run by blast
  have "to_ref (sample_row (lit ''p'') 3) \<in> set (pu_policies sent_policy)" by (simp add: sent_policy_def)
  from policies_were_submitted [OF s(1,2) this] s show ?thesis
    by (auto simp: idle_server_def to_ref_def sample_row_def set_command_def set_db_def)
qed

theorem rows_are_vouched_for_witness:
  "\<exists>s. runs (booted idle_server) s \<and> rn_owner s 0 = Some 7 \<and> vouched (rn_db s)"
proof -
  obtain s where s: "runs (booted idle_server) s" "rn_owner s 0 = Some 7" using sample_run by blast
  have "vouched (sn_db idle_server)"
    by (simp add: idle_server_def set_command_def set_db_def vouched_def one_policy_db_def empty_db_def sample_row_def
        sample_agent_def slug_def slug_char_def ascii_class_defs lit_def)
  from rows_are_vouched_for [OF s(1) this] s show ?thesis by blast
qed

end
