(* ===== verification/Provenance.thy ===== *)
theory Provenance
  imports System
begin

text \<open>
  Where the agents of the running manager come from. A row of the table \<open>agents\<close> is the mark of an agent that may open
  streams (\<open>stream_accept\<close>); here every such row is traced back, over any run, to an enrollment that showed a valid
  token, and the token to an administrator's request to the install route or to \<open>scroogectl gen-token\<close>.
\<close>

section \<open>The steps that let somebody in\<close>

lemma rtranclp_changes:
  assumes "r\<^sup>*\<^sup>* a b" "\<not> P a" "P b"
  shows "\<exists>x y. r\<^sup>*\<^sup>* a x \<and> r x y \<and> r\<^sup>*\<^sup>* y b \<and> \<not> P x \<and> P y"
  using assms
proof (induction rule: rtranclp_induct)
  case (step y z)
  then show ?case by (cases "P y") (auto intro: rtranclp.rtrancl_into_rtrancl)
qed simp

text \<open>Who is let in: the agents, and the tokens that let in more.\<close>

definition agent_ids :: "db \<Rightarrow> uuid set" where
  "agent_ids d = ag_id ` set (db_agents d)"

definition token_hashes :: "db \<Rightarrow> rstr set" where
  "token_hashes d = et_token_hash ` set (db_enrollment d)"

definition same_doors :: "db \<Rightarrow> db \<Rightarrow> bool" where
  "same_doors d d' \<longleftrightarrow> agent_ids d' = agent_ids d \<and> token_hashes d' = token_hashes d"

lemma same_doors_same [intro]: "db_agents d' = db_agents d \<Longrightarrow> db_enrollment d' = db_enrollment d \<Longrightarrow> same_doors d d'"
  by (simp add: same_doors_def agent_ids_def token_hashes_def)

lemma same_doors_own:
  assumes "only_own a d d'"
  shows "same_doors d d'"
proof -
  have "map ag_id (db_agents d') = map ag_id (db_agents d)" "db_enrollment d' = db_enrollment d"
    using assms by (simp_all add: only_own_def)
  then show ?thesis unfolding same_doors_def agent_ids_def token_hashes_def by (metis set_map)
qed

lemma push_doors: "push_turn coll env a t d tx = (t', d', tx') \<Longrightarrow> same_doors d d'"
  using same_doors_own only_own_turn by blast

lemma bootstrap_doors: "bootstrap_admin bh out i u p d = (r, d') \<Longrightarrow> same_doors d d'"
  by (auto simp: bootstrap_admin_def insert_user_def split: if_splits sum.splits prod.splits option.splits)

text \<open>The requests: all but one leave the doors as they are.\<close>

lemma issue_doors: "issue_tokens env i n role d = (r, d') \<Longrightarrow> db_agents d' = db_agents d \<and> db_enrollment d' = db_enrollment d"
  by (auto simp: issue_tokens_def insert_refresh_def Let_def split: option.splits sum.splits prod.splits if_splits)

lemma login_doors: "login env u p d = (r, d') \<Longrightarrow> same_doors d d'"
  by (auto simp: login_def sql_exec_def set_last_login_def split: sum.splits prod.splits option.splits dest!: issue_doors)

lemma refresh_doors: "refresh env t d = (r, d') \<Longrightarrow> same_doors d d'"
  by (auto simp: refresh_def refresh_finish_def sql_exec_def revoke_def split: sum.splits prod.splits option.splits dest!: issue_doors)

lemma store_doors: "store_version env n v y pct w re d tx = (r, d', tx') \<Longrightarrow> same_doors d d'"
  by (cases pct) (auto simp: store_version_def sql_exec_def write_policy_def append_history_def split: option.splits)

lemma create_doors: "create env c y re d tx = (r, d', tx') \<Longrightarrow> same_doors d d'"
  by (auto simp: create_def insert_policy_def sql_exec_def append_history_def Let_def
      split: sum.splits prod.splits option.splits if_splits)

lemma change_doors:
  "update env c n y re d tx = (r, d', tx') \<Longrightarrow> same_doors d d'"
  "rollback env c n v d tx = (r, d', tx') \<Longrightarrow> same_doors d d'"
  by (auto simp: update_def rollback_def split: sum.splits prod.splits dest: store_doors)

lemma delete_doors: "delete_handler env c n d tx = (r, d', tx') \<Longrightarrow> same_doors d d'"
  by (auto simp: delete_handler_def delete_policy_def split: sum.splits prod.splits option.splits bool.splits)

text \<open>A request that issues the token with the hash \<open>h\<close>: an administrator's, to the install route.\<close>

definition issues :: "api_env \<times> http_request \<Rightarrow> rstr \<Rightarrow> bool" where
  "issues x h \<longleftrightarrow>
     (case x of (env, req) \<Rightarrow> \<exists>c ps.
        from_request_parts (ax_decode env) (hq_authorization req) = Inr c \<and> cl_role c = lit ''admin'' \<and>
        resolve (hq_method req) (hq_path req) = Inr (RInstall, ps) \<and>
        h = install_sha256_hex (iv_sha (ax_install env)) (iv_show_uuid (ax_install env) (iv_new_uuid (ax_install env))))"

lemma install_doors:
  assumes "install_create env cfg c q d = (r, d')"
  shows "agent_ids d' = agent_ids d \<and> (\<forall>h \<in> token_hashes d'. h \<in> token_hashes d \<or>
    (cl_role c = lit ''admin'' \<and> h = install_sha256_hex (iv_sha env) (iv_show_uuid env (iv_new_uuid env))))"
  using assms
  by (auto simp: install_create_def insert_token_def Let_def res_bind_Inr_iff require_admin_def agent_ids_def token_hashes_def
      split: sum.splits prod.splits option.splits if_splits)

lemma serve_doors:
  assumes "api_serve env req sv = (a, sv')"
  shows "agent_ids (sn_db sv') = agent_ids (sn_db sv) \<and>
    (\<forall>h \<in> token_hashes (sn_db sv'). h \<in> token_hashes (sn_db sv) \<or> issues (env, req) h)"
proof (cases "resolve (hq_method req) (hq_path req)")
  case (Inl x)
  then have "sn_db sv' = sn_db sv" using assms by (auto simp: api_serve_def split: sum.splits if_splits)
  then show ?thesis by simp
next
  case (Inr x)
  obtain r ps where x: "x = (r, ps)" by fastforce
  then have h: "handle env r ps req sv = (a, sv')" using assms Inr by (simp add: api_serve_def)
  show ?thesis
  proof (cases "r = RInstall")
    case True
    then show ?thesis using h Inr x
      by (auto simp: handle_def handle_agents_def with_claims_def with_input_def Let_def issues_def
          split: sum.splits prod.splits dest!: install_doors)
  next
    case False
    then have "same_doors (sn_db sv) (sn_db sv')" using h
      by (cases r) (auto simp: handle_def serve_login_def serve_refresh_def handle_agents_def handle_policies_def
          with_claims_def with_input_def Let_def split: sum.splits prod.splits
          dest!: login_doors refresh_doors create_doors change_doors delete_doors handle_public_same)
    then show ?thesis by (simp add: same_doors_def)
  qed
qed

text \<open>The rest of an enrollment.\<close>

lemma increment_doors [simp]: "agent_ids (increment_uses h d) = agent_ids d" "token_hashes (increment_uses h d) = token_hashes d"
proof -
  have "map et_token_hash (db_enrollment (increment_uses h d)) = map et_token_hash (db_enrollment d)"
    by (simp add: increment_uses_def map_upd_key)
  from arg_cong [OF this, of set] show "token_hashes (increment_uses h d) = token_hashes d"
    by (simp add: token_hashes_def)
qed (simp add: agent_ids_def increment_uses_def)

lemma added_doors [simp]:
  "agent_ids (d\<lparr>db_agents := db_agents d @ [a]\<rparr>) = insert (ag_id a) (agent_ids d)"
  "token_hashes (d\<lparr>db_agents := as\<rparr>) = token_hashes d"
  by (simp_all add: agent_ids_def token_hashes_def)

lemma finish_doors:
  assumes "enroll_finish env req info d = (r, d')"
  shows "agent_ids d' \<subseteq> insert (en_new_id env) (agent_ids d) \<and> token_hashes d' = token_hashes d"
  using assms
  by (auto simp: enroll_finish_def insert_agent_def sql_exec_def Let_def split: option.splits sum.splits if_splits)

text \<open>An enrollment under way showed a token of the table, not expired and not used up.\<close>

definition shows_token :: "enroll_env \<Rightarrow> enroll_request \<Rightarrow> db \<Rightarrow> bool" where
  "shows_token env req d \<longleftrightarrow> (\<exists>t. find_token (token_hash env req) d = Some t \<and> token_check (en_now env) t = Inr ())"

lemma check_shows_token: "enroll_check env req d = Inr info \<Longrightarrow> shows_token env req d"
  by (auto simp: enroll_check_def shows_token_def res_bind_Inr_iff ok_or_def map_err_def sql_query_def
      split: option.splits sum.splits)

lemma shown_is_there: "shows_token env req d \<Longrightarrow> token_hash env req \<in> token_hashes d"
  by (auto simp: shows_token_def find_token_def token_hashes_def dest!: find_SomeD intro: rev_image_eqI)

definition begins :: "enroll_env \<times> enroll_request \<times> agent_info \<Rightarrow> running \<Rightarrow> running \<Rightarrow> bool" where
  "begins e s s' \<longleftrightarrow> (case e of (env, req, info) \<Rightarrow> enroll_check env req (rn_db s) = Inr info) \<and>
     rn_enrolling s' = e # rn_enrolling s"

definition lets_in :: "enroll_env \<times> enroll_request \<times> agent_info \<Rightarrow> running \<Rightarrow> running \<Rightarrow> bool" where
  "lets_in e s s' \<longleftrightarrow> e \<in> set (rn_enrolling s) \<and> (case e of (env, req, info) \<Rightarrow>
     en_new_id env \<notin> agent_ids (rn_db s) \<and> en_new_id env \<in> agent_ids (rn_db s') \<and>
     (\<exists>r. enroll_finish env req info (rn_db s) = (r, rn_db s')))"

lemma step_begins:
  assumes "run_step s s'" "e \<in> set (rn_enrolling s')" "e \<notin> set (rn_enrolling s)"
  shows "begins e s s'"
  using assms by (cases rule: run_step.cases) (auto simp: begins_def)

text \<open>The tokens.\<close>

lemma gen_token_doors: "gen_token env ds mu vd d = (r, d') \<Longrightarrow> agent_ids d' = agent_ids d"
  by (auto simp: gen_token_def insert_token_def Let_def agent_ids_def split: option.splits if_splits)

text \<open>The step that puts the hash of a token in the table: an administrator's request to the install route, or a
  \<open>scroogectl gen-token\<close> that succeeds with this token.\<close>

definition issued :: "rstr \<Rightarrow> running \<Rightarrow> running \<Rightarrow> bool" where
  "issued h s s' \<longleftrightarrow> h \<notin> token_hashes (rn_db s) \<and> h \<in> token_hashes (rn_db s') \<and>
     ((\<exists>x. rn_log s' = rn_log s @ [x] \<and> issues x h) \<or>
      (\<exists>env ds mu vd raw d. gen_token env ds mu vd (rn_db s) = (Some (Inr raw), d) \<and> s' = with_db d s \<and>
         h = sha256_hex (gt_sha env) (as_bytes raw)))"

lemma gen_token_adds:
  assumes "gen_token env ds mu vd d = (r, d')" "h \<in> token_hashes d'" "h \<notin> token_hashes d"
  shows "\<exists>raw. r = Some (Inr raw) \<and> h = sha256_hex (gt_sha env) (as_bytes raw)"
  using assms by (auto simp: gen_token_def insert_token_def Let_def token_hashes_def split: option.splits if_splits)

lemma step_doors:
  assumes "run_step s s'"
  shows "(\<forall>x \<in> agent_ids (rn_db s'). x \<in> agent_ids (rn_db s) \<or>
      (\<exists>env req info. x = en_new_id env \<and> lets_in (env, req, info) s s')) \<and>
    (\<forall>h \<in> token_hashes (rn_db s'). h \<in> token_hashes (rn_db s) \<or> issued h s s')"
  using assms
proof (cases rule: run_step.cases)
  case (http env req a sv)
  then show ?thesis using serve_doors [OF http(2)] by (auto simp: issued_def)
next
  case (enroll_end xs env req info ys r d)
  have "x \<in> agent_ids (rn_db s) \<or> (x = en_new_id env \<and> lets_in (env, req, info) s s')" if "x \<in> agent_ids (rn_db s')" for x
    using that finish_doors [OF enroll_end(3)] enroll_end by (auto simp: lets_in_def)
  moreover have "token_hashes (rn_db s') = token_hashes (rn_db s)" using finish_doors [OF enroll_end(3)] enroll_end(1) by simp
  ultimately show ?thesis by blast
next
  case (gen_token env ds mu vd r d)
  have "issued h s s'" if new: "h \<in> token_hashes (rn_db s')" "h \<notin> token_hashes (rn_db s)" for h
  proof -
    obtain raw where "r = Some (Inr raw)" "h = sha256_hex (gt_sha env) (as_bytes raw)"
      using gen_token_adds [OF gen_token(2) _ new(2)] new(1) gen_token(1) by auto
    with new gen_token show ?thesis unfolding issued_def by blast
  qed
  then show ?thesis using gen_token_doors [OF gen_token(2)] gen_token(1) by auto
next
  case (bootstrap bh out i u p r d)
  then show ?thesis using bootstrap_doors [OF bootstrap(2)] by (simp add: same_doors_def)
next
  case (first_push n a coll env t d ch)
  then show ?thesis using push_doors [OF first_push(3)] by (simp add: same_doors_def)
next
  case (inbound n a env msg b d ch)
  have "same_doors (rn_db s) d" using same_doors_own only_own_message [of a "rn_db s" env msg "rn_out s n"] inbound(4) by simp
  then show ?thesis using inbound(1) by (simp add: same_doors_def)
next
  case (broadcast_turn a n t coll env t' d ch)
  then show ?thesis using push_doors [OF broadcast_turn(3)] by (simp add: same_doors_def)
qed (auto simp: set_push_def set_command_def)

text \<open>C3: whatever the running manager went through, an agent it knows and did not know at the start was inserted by the
  end of an enrollment that began before with a token of the table, then not yet expired or used up; and the hash of
  that token, unless the table had it at the start, was put there before by an administrator's request to the install
  route or by a \<open>scroogectl gen-token\<close> that succeeded with it. Between the check of the token and the insert of the agent anything may happen.\<close>

theorem agents_were_let_in:
  assumes "runs (booted sv) s" "x \<in> agent_ids (rn_db s)" "x \<notin> agent_ids (sn_db sv)"
  shows "\<exists>env req info b1 b2 s1 s2. x = en_new_id env \<and>
    runs (booted sv) b1 \<and> run_step b1 b2 \<and> begins (env, req, info) b1 b2 \<and> shows_token env req (rn_db b1) \<and>
    runs b2 s1 \<and> run_step s1 s2 \<and> lets_in (env, req, info) s1 s2 \<and> runs s2 s \<and>
    (token_hash env req \<in> token_hashes (sn_db sv) \<or>
     (\<exists>t1 t2. runs (booted sv) t1 \<and> run_step t1 t2 \<and> issued (token_hash env req) t1 t2 \<and> runs t2 b1))"
proof -
  let ?s0 = "booted sv"
  have start: "rn_db ?s0 = sn_db sv" "rn_enrolling ?s0 = []" by (simp_all add: booted_def)
  have "x \<notin> agent_ids (rn_db ?s0)" using assms(3) start by simp
  from rtranclp_changes [OF assms(1), of "\<lambda>s. x \<in> agent_ids (rn_db s)", OF this assms(2)]
  obtain s1 s2 where s: "runs ?s0 s1" "run_step s1 s2" "runs s2 s" "x \<notin> agent_ids (rn_db s1)" "x \<in> agent_ids (rn_db s2)"
    by blast
  with step_doors [OF s(2)] obtain env req info where l: "x = en_new_id env" "lets_in (env, req, info) s1 s2" by blast
  let ?e = "(env, req, info)"
  have "?e \<in> set (rn_enrolling s1)" "?e \<notin> set (rn_enrolling ?s0)" using l(2) start by (simp_all add: lets_in_def)
  from rtranclp_changes [OF s(1), of "\<lambda>s. ?e \<in> set (rn_enrolling s)", OF this(2,1)]
  obtain b1 b2 where b: "runs ?s0 b1" "run_step b1 b2" "runs b2 s1" "begins ?e b1 b2" using step_begins by blast
  then have sh: "shows_token env req (rn_db b1)" using check_shows_token by (auto simp: begins_def)
  let ?h = "token_hash env req"
  have "?h \<in> token_hashes (sn_db sv) \<or> (\<exists>t1 t2. runs ?s0 t1 \<and> run_step t1 t2 \<and> issued ?h t1 t2 \<and> runs t2 b1)"
  proof (rule disjCI)
    assume old: "\<not> (\<exists>t1 t2. runs ?s0 t1 \<and> run_step t1 t2 \<and> issued ?h t1 t2 \<and> runs t2 b1)"
    show "?h \<in> token_hashes (sn_db sv)"
    proof (rule ccontr)
      assume "?h \<notin> token_hashes (sn_db sv)"
      then have "?h \<notin> token_hashes (rn_db ?s0)" using start by simp
      from rtranclp_changes [OF b(1), of "\<lambda>s. ?h \<in> token_hashes (rn_db s)", OF this shown_is_there [OF sh]] old step_doors
      show False by blast
    qed
  qed
  with l s b sh show ?thesis by blast
qed

section \<open>A token from the tool, and an agent\<close>

definition tool :: gen_env where
  "tool = \<lparr>gt_sha = id, gt_show_uuid = \<lambda>_. lit ''t'', gt_new_uuid = 0, gt_after_days = \<lambda>_. Some 200, gt_insert = None\<rparr>"

lemma tool_token: "gen_token tool None (Some 1) 7 empty_db = (Some (Inr (lit ''t'')), one_use_db)"
  by (simp add: gen_token_def tool_def insert_token_def one_use_db_def empty_db_def sha256_hex_def Let_def)

definition sample_info :: agent_info where
  "sample_info = the (eq_info sample_request)"

lemma tool_enroll:
  "enroll_check (sample_env 1) sample_request one_use_db = Inr sample_info"
  "\<exists>resp d. enroll_finish (sample_env 1) sample_request sample_info one_use_db = (Inr resp, d) \<and> 1 \<in> agent_ids d"
  by (auto simp: sample_info_def sample_request_def sample_enroll agent_ids_def)

theorem agents_were_let_in_witness:
  "\<exists>s. runs (booted (set_db empty_db sample_server)) s \<and> 1 \<in> agent_ids (rn_db s) \<and>
    (\<exists>env req b1 b2. runs (booted (set_db empty_db sample_server)) b1 \<and> shows_token env req (rn_db b1) \<and> run_step b1 b2 \<and>
      runs b2 s \<and> (\<exists>t1 t2. run_step t1 t2 \<and> runs t2 b1 \<and> issued (token_hash env req) t1 t2))"
proof -
  let ?sv = "set_db empty_db sample_server" let ?s0 = "booted ?sv" let ?e = "(sample_env 1, sample_request, sample_info)"
  let ?s1 = "with_db one_use_db ?s0"
  have db: "rn_db ?s0 = empty_db" "rn_enrolling ?s0 = []" by (simp_all add: booted_def)
  obtain resp d where e: "enroll_finish (sample_env 1) sample_request sample_info one_use_db = (Inr resp, d)" "1 \<in> agent_ids d"
    using tool_enroll(2) by blast
  let ?s2 = "?s1\<lparr>rn_enrolling := ?e # rn_enrolling ?s1\<rparr>"
  have 1: "run_step ?s0 ?s1"
    by (rule run_step.gen_token [where env = tool and ds = None and mu = "Some 1" and vd = 7]) (simp add: db tool_token)
  have 2: "run_step ?s1 ?s2" by (rule run_step.enroll_begin) (simp add: tool_enroll(1))
  have 3: "run_step ?s2 (with_db d (?s2\<lparr>rn_enrolling := [] @ []\<rparr>))"
    by (rule run_step.enroll_end [where env = "sample_env 1" and req = sample_request and info = sample_info])
      (simp_all add: db e(1))
  have run: "runs ?s0 (with_db d (?s2\<lparr>rn_enrolling := [] @ []\<rparr>))"
    using 1 2 3 by (meson rtranclp.rtrancl_into_rtrancl rtranclp.rtrancl_refl)
  moreover have known: "1 \<in> agent_ids (rn_db (with_db d (?s2\<lparr>rn_enrolling := [] @ []\<rparr>)))" using e(2) by simp
  moreover have fresh: "1 \<notin> agent_ids (sn_db ?sv)" "token_hashes (sn_db ?sv) = {}"
    by (simp_all add: agent_ids_def token_hashes_def empty_db_def)
  obtain env req b1 b2 s1 s2 t1 t2 where "runs ?s0 b1" "run_step b1 b2" "shows_token env req (rn_db b1)"
    "runs b2 s1" "run_step s1 s2" "runs s2 (with_db d (?s2\<lparr>rn_enrolling := [] @ []\<rparr>))"
    "run_step t1 t2" "issued (token_hash env req) t1 t2" "runs t2 b1"
    using agents_were_let_in [OF run known fresh(1)] fresh(2) by blast
  moreover from this have "runs b2 (with_db d (?s2\<lparr>rn_enrolling := [] @ []\<rparr>))"
    by (meson converse_rtranclp_into_rtranclp rtranclp_trans)
  ultimately show ?thesis by blast
qed

end
