(* ===== verification/Live_Policy.thy ===== *)
theory Live_Policy
  imports Pipeline System
begin

text \<open>
  A change of a policy while agents are connected: from the request of an administrator through the queue of the push
  bridge and a stream to the disk of the agent and back, and what two changes at the same time do. The handlers of
  \<open>scrooge-manager-api/src/handlers/policies.rs\<close> meet the bridge of \<open>scrooge-manager-bin/src/grpc.rs\<close> and the loop of
  \<open>scrooge-agent-bin/src/stream.rs\<close> here.
\<close>

section \<open>What is pending\<close>

lemma none_pending: "load_pending_policies coll None a d = Inr [] \<longleftrightarrow> (\<forall>p \<in> set (db_policies d). \<not> is_pending d a p)"
proof -
  have "order_by le xs = [] \<longleftrightarrow> xs = []" for le :: "policy_row \<Rightarrow> policy_row \<Rightarrow> bool" and xs
    by (metis set_empty set_order_by)
  then show ?thesis by (simp add: load_pending_policies_def filter_empty_conv)
qed

lemma append_history_keeps [simp]:
  "db_policies (append_history now n v y w re d) = db_policies d" "db_agents (append_history now n v y w re d) = db_agents d"
  "db_assignments (append_history now n v y w re d) = db_assignments d"
  by (simp_all add: append_history_def)

lemma write_keeps_agents [simp]: "db_agents (write_policy now n v y pct w d) = db_agents d"
  by (cases pct) (simp add: write_policy_def)

lemma is_pending_history [simp]: "is_pending (append_history now n v y w re d) a p = is_pending d a p"
  by (simp add: is_pending_def acked_version_def)

lemma is_pending_write [simp]: "is_pending (write_policy now n v y pct w d) a p = is_pending d a p"
  by (simp add: is_pending_def acked_version_def)

text \<open>Writing a policy again at the version it has leaves nothing pending where nothing was.\<close>

lemma rewrite_stays_settled:
  assumes "\<forall>p \<in> set (db_policies d). \<not> is_pending d a p" "\<And>p. p \<in> set (db_policies d) \<Longrightarrow> po_name p = n \<Longrightarrow> po_version p = v"
  shows "\<forall>p \<in> set (db_policies (write_policy now n v y pct w d)). \<not> is_pending d a p"
proof -
  obtain p c t where pct: "pct = (p, c, t)" by (rule prod_cases3)
  have "\<not> is_pending d a (r\<lparr>po_version := v, po_content_yaml := y, po_content_compiled := b, po_content_hash := h,
      po_targets := t, po_priority := pr, po_updated_by := u, po_updated_at := now\<rparr>)"
    if "r \<in> set (db_policies d)" "po_name r = n" for r b h t pr u
    using assms(1) assms(2) [OF that] that by (auto simp: is_pending_def split: option.splits)
  with assms(1) show ?thesis unfolding pct by (auto simp: write_policy_def set_upd)
qed

lemma each_ack_acked_keeps [simp]:
  "find_policy n (each ack_at a nvs d) = find_policy n d"
  "find_policy n (each (assign_at now) a nvs d) = find_policy n d"
  by (simp_all add: find_policy_def)

lemma push_keeps_policies:
  assumes "push_pending coll env a d tx = (d', tx')"
  shows "db_policies d' = db_policies d"
proof -
  have "db_policies (mark_all env a ps e) = db_policies e" for ps e
    by (induction ps arbitrary: e) (auto simp: mark_assigned_def Let_def split: option.splits)
  with assms show ?thesis by (auto simp: push_pending_def simp del: mark_all.simps split: sum.splits list.splits)
qed

lemma inbound_keeps_policies: "stream_inbound a ms d tx = (d', tx') \<Longrightarrow> db_policies d' = db_policies d"
proof (induction ms arbitrary: d tx)
  case (Cons x ms)
  obtain env m where x: "x = (env, m)" by fastforce
  obtain b e ch where h: "handle_agent_message env a m d tx = (b, e, ch)" by (metis prod_cases3)
  have "db_policies e = db_policies d"
    using only_own_message [of a d env m tx] h by (simp add: only_own_def)
  then show ?case using Cons x h by (cases b) auto
qed simp

section \<open>A round of the bridge\<close>

text \<open>The bridge turns to an agent, the agent handles what was put in its stream, and the stream of the agent carries
  the answers back.\<close>

definition policy_round ::
  "(rstr \<Rightarrow> rstr \<Rightarrow> bool) \<Rightarrow> agent_registry \<Rightarrow> push_env \<Rightarrow> inbound_env \<Rightarrow> rstr \<Rightarrow> uuid \<Rightarrow> db \<Rightarrow> channels \<Rightarrow> u8 list files \<Rightarrow>
   db \<times> u8 list files" where
  "policy_round coll reg pe ie dir a d chs fs =
     (case reg_get a reg of
        None \<Rightarrow> (d, fs)
      | Some n \<Rightarrow>
          (case broadcast coll [(a, reg, pe)] d chs of (d1, chs1) \<Rightarrow>
           (case drop (length (ch_msgs (chs n))) (ch_msgs (chs1 n)) of
              [] \<Rightarrow> (d1, fs)
            | m # _ \<Rightarrow>
                (case handle_inbound dir None [] m fs \<lparr>ch_msgs = [], ch_closed = False\<rparr> of (fs1, up) \<Rightarrow>
                   (fst (stream_inbound a (map (\<lambda>x. (ie, Inr x)) (ch_msgs up)) d1 (chs1 n)), fs1)))))"

definition round_up :: "push_env \<Rightarrow> inbound_env \<Rightarrow> bool" where
  "round_up pe ie \<longleftrightarrow> ps_load pe = None \<and> (\<forall>n. ps_assign pe n = None) \<and> ib_update ie = None"

lemma round_keeps_policies:
  assumes "policy_round coll reg pe ie dir a d chs fs = (d2, fs2)"
  shows "db_policies d2 = db_policies d"
proof (cases "reg_get a reg")
  case (Some n)
  obtain d1 tx1 where push: "push_pending coll pe a d (chs n) = (d1, tx1)" by fastforce
  have "db_policies (fst (stream_inbound a ms d1 tx1)) = db_policies d1" for ms
    using inbound_keeps_policies by (metis surjective_pairing)
  with assms push_keeps_policies [OF push] Some push show ?thesis
    by (auto simp: policy_round_def split: list.splits prod.splits)
qed (use assms in \<open>simp add: policy_round_def\<close>)

lemma round_settles:
  assumes "round_up pe ie" "reg_get a reg = Some n" "\<not> ch_closed (chs n)"
    and "policy_tables_ok d" "a \<in> ag_id ` set (db_agents d)" "\<And>p. p \<in> set (db_policies d) \<Longrightarrow> 0 \<le> po_version p"
    and "p \<in> set (db_policies d)" "is_pending d a p"
    and "policy_round coll reg pe ie dir a d chs fs = (d2, fs2)"
  shows "load_pending_policies coll None a d2 = Inr [] \<and> fs2 (policy_path dir (po_name p)) = Some (po_content_compiled p) \<and>
    db_policies d2 = db_policies d"
proof -
  have up: "ps_load pe = None" "\<And>n. ps_assign pe n = None" "ib_update ie = None" using assms(1) by (simp_all add: round_up_def)
  obtain d1 tx1 where push: "push_pending coll pe a d (chs n) = (d1, tx1)" by fastforce
  have "filter (is_pending d a) (db_policies d) \<noteq> []" using assms(7,8) by (auto simp: filter_empty_conv)
  from push obtain ps where sent: "ch_msgs tx1 = ch_msgs (chs n) @ [update_message ps]"
    unfolding push_pending_eq [OF up(1,2) assms(3) \<open>filter _ _ \<noteq> []\<close>] by (auto simp: Let_def)
  let ?open = "\<lparr>ch_msgs = [], ch_closed = False\<rparr> :: agent_message chan"
  obtain fs1 ch where agent: "handle_inbound dir None [] (update_message ps) fs ?open = (fs1, ch)" by fastforce
  let ?ms = "map (\<lambda>x. (ie, Inr x)) (ch_msgs ch)"
  obtain e tx2 where acks: "stream_inbound a ?ms d1 tx1 = (e, tx2)" by fastforce
  have out: "d2 = e" "fs2 = fs1" using assms(9) push sent agent acks assms(2) by (simp_all add: policy_round_def)
  have "load_pending_policies coll None a e = Inr [] \<and>
    (\<forall>p \<in> set (db_policies d). is_pending d a p \<longrightarrow> fs1 (policy_path dir (po_name p)) = Some (po_content_compiled p))"
    by (rule policy_settles [OF up(1,2) assms(3) push sent assms(4-6) _ _ _ agent _ _ acks]) (auto simp: up(3))
  moreover note round_keeps_policies [OF assms(9)]
  ultimately show ?thesis using assms(7,8) unfolding out by blast
qed

section \<open>An update reaches a connected agent\<close>

lemma find_policy_version:
  "policy_tables_ok d \<Longrightarrow> find_policy n d = Some r \<Longrightarrow> p \<in> set (db_policies d) \<Longrightarrow> po_name p = n \<Longrightarrow> p = r"
  using find_policy_in [of n d r] by (auto simp: policy_tables_ok_def distinct_map dest: inj_onD)

lemma update_tables:
  assumes "update env c name yaml reason d tx = (r, d', tx')" "policy_tables_ok d"
  shows "policy_tables_ok d'"
  using tables_ok_serve [of d "Update env c name yaml reason" tx] assms by simp

text \<open>What a successful update leaves in the tables and in the queue of the bridge.\<close>

lemma update_effect:
  assumes "update env c name yaml reason d tx = (Inr dto, d', tx')" "find_policy name d = Some r"
    and "is_i32 (po_version r)" "po_version r \<noteq> 2 ^ 31 - 1"
  obtains p cp t who where "parse_and_compile env yaml = Inr (p, cp, t)" "tx' = notify_policy_changed (Some name) tx"
    "d' = append_history (pe_now env) name (po_version r + 1) yaml who (unwrap_or (lit ''update'') reason)
      (write_policy (pe_now env) name (po_version r + 1) yaml (p, cp, t) who d)"
proof -
  obtain p cp t who s where u: "parse_and_compile env yaml = Inr (p, cp, t)" "find_policy name d = Some s"
    "store_version env name (wrap_i32 (po_version s + 1)) yaml (p, cp, t) who (unwrap_or (lit ''update'') reason) d tx
      = (Inr dto, d', tx')"
    using assms(1) by (rule update_ok)
  moreover have "wrap_i32 (po_version r + 1) = po_version r + 1"
    using assms(3,4) by (intro wrap_i32_id) (auto simp: is_i32_def)
  ultimately show thesis using that store_version_ok [OF u(3,2)] assms(2) by simp
qed

lemma written_versions:
  assumes "p \<in> set (db_policies (write_policy now n v y pct w d))"
  shows "(po_name p = n \<and> po_version p = v) \<or> p \<in> set (db_policies d)"
  using assms by (cases pct) (auto simp: write_policy_def set_upd)

text \<open>C1: an update of an enabled policy that succeeds is put in the queue of the push bridge if there is room in it;
  otherwise, or when the bridge is gone, the notification is dropped while the update is still answered with success.
  In either case the new version is pending for an agent that has acknowledged no later one, and the next turn of the
  bridge to this agent, on its open stream and with the database up, makes it write exactly the payload compiled from
  the submitted document under the name of the policy; its acknowledgement leaves nothing pending for it.\<close>

theorem update_reaches_agent:
  assumes "update env c name yaml reason d (Some q) = (Inr dto, d1, q1)"
    and "policy_tables_ok d" "\<And>p. p \<in> set (db_policies d) \<Longrightarrow> 0 \<le> po_version p \<and> po_version p < 2 ^ 31 - 1"
    and "find_policy name d = Some r" "po_enabled r"
    and "case acked_version d a name of None \<Rightarrow> True | Some v \<Rightarrow> v \<le> po_version r"
    and "a \<in> ag_id ` set (db_agents d)" "reg_get a reg = Some n" "\<not> ch_closed (chs n)" "round_up pe ie"
    and "policy_round coll reg pe ie dir a d1 chs fs = (d2, fs2)"
  shows "q1 = Some (if px_closed q \<or> px_capacity q \<le> length (px_queue q) then q
        else q\<lparr>px_queue := px_queue q @ [Some name]\<rparr>) \<and>
    (\<exists>r'. find_policy name d1 = Some r' \<and> is_pending d1 a r') \<and>
    (\<exists>p cp t. parse_and_compile env yaml = Inr (p, cp, t) \<and> fs2 (policy_path dir name) = Some (cp_msgpack cp)) \<and>
    load_pending_policies coll None a d2 = Inr []"
proof -
  have r: "r \<in> set (db_policies d)" "po_name r = name" using find_policy_in [OF assms(4)] by simp_all
  then have v: "is_i32 (po_version r)" "po_version r \<noteq> 2 ^ 31 - 1" "0 \<le> po_version r"
    using assms(3) [OF r(1)] by (auto simp: is_i32_def)
  obtain p cp t who where u: "parse_and_compile env yaml = Inr (p, cp, t)" "q1 = notify_policy_changed (Some name) (Some q)"
    "d1 = append_history (pe_now env) name (po_version r + 1) yaml who (unwrap_or (lit ''update'') reason)
      (write_policy (pe_now env) name (po_version r + 1) yaml (p, cp, t) who d)"
    by (rule update_effect [OF assms(1,4) v(1,2)])
  obtain r' where r': "find_policy name d1 = Some r'" "is_pending d1 a r'"
    using update_is_pending [OF assms(1,4,5) v(1,2) assms(6)] by blast
  have "po_content_compiled r' = cp_msgpack cp"
    using r'(1) assms(4) by (auto simp: u(3) find_policy_write find_policy_def [of _ "append_history _ _ _ _ _ _ _"]
        simp flip: find_policy_def)
  moreover have "0 \<le> po_version x" if "x \<in> set (db_policies d1)" for x
    using that written_versions assms(3) v(3) unfolding u(3) by fastforce
  moreover have "a \<in> ag_id ` set (db_agents d1)" using assms(7) unfolding u(3) by simp
  moreover note r'' = find_policy_in [OF r'(1)]
  ultimately show ?thesis
    using round_settles [OF assms(10,8,9) update_tables [OF assms(1,2)] _ _ conjunct1 [OF r''] r'(2) assms(11)] u(1,2) r'
    by (auto simp: notify_policy_changed_def try_send_def)
qed

section \<open>Two updates at the same time\<close>

lemma update_check_version:
  assumes "update_check env c name yaml d = Inr ((p, cp, t), who, v)"
  obtains r where "find_policy name d = Some r" "v = po_version r" "parse_and_compile env yaml = Inr (p, cp, t)"
  using assms by (auto simp: update_check_def res_bind_Inr_iff sql_query_def ok_or_def split: option.splits if_splits)

text \<open>C37: two updates that overlap (both read the version before either writes) are both answered with success and the
  same version. An agent that was sent the first in between keeps its content, the table has the content of the
  second, and nothing is pending for the agent: no later round sends it what is in force.\<close>

theorem overlapping_updates_diverge:
  assumes "update_check env1 c1 name y1 d = Inr ((p1, cp1, t1), who1, ver1)"
    and "update_check env2 c2 name y2 d = Inr ((p2, cp2, t2), who2, ver2)"
    and "store_version env1 name (wrap_i32 (ver1 + 1)) y1 (p1, cp1, t1) who1 re1 d tx = (Inr dto1, d1, tx1)"
    and "policy_round coll reg pe ie dir a d1 chs fs = (d2, fs2)"
    and "store_version env2 name (wrap_i32 (ver2 + 1)) y2 (p2, cp2, t2) who2 re2 d2 tx1 = (Inr dto2, d3, tx2)"
    and "policy_tables_ok d" "\<And>p. p \<in> set (db_policies d) \<Longrightarrow> 0 \<le> po_version p \<and> po_version p < 2 ^ 31 - 1"
    and "find_policy name d = Some r" "po_enabled r"
    and "case acked_version d a name of None \<Rightarrow> True | Some v \<Rightarrow> v \<le> po_version r"
    and "a \<in> ag_id ` set (db_agents d)" "reg_get a reg = Some n" "\<not> ch_closed (chs n)" "round_up pe ie"
  shows "pd_version dto1 = pd_version dto2 \<and> fs2 (policy_path dir name) = Some (cp_msgpack cp1) \<and>
    (\<exists>r'. find_policy name d3 = Some r' \<and> po_content_compiled r' = cp_msgpack cp2) \<and>
    load_pending_policies coll None a d3 = Inr []"
proof -
  have r: "r \<in> set (db_policies d)" "po_name r = name" using find_policy_in [OF assms(8)] by simp_all
  then have v: "is_i32 (po_version r + 1)" "0 \<le> po_version r" using assms(7) [OF r(1)] by (auto simp: is_i32_def)
  have vs: "ver1 = po_version r" "ver2 = po_version r"
    using assms(1,2,8) by (auto elim!: update_check_version)
  let ?v = "po_version r + 1"
  have w: "wrap_i32 ?v = ?v" using wrap_i32_id [OF v(1)] .
  from store_version_ok [OF assms(3,8)] have d1: "pd_version dto1 = ?v"
    "d1 = append_history (pe_now env1) name ?v y1 who1 re1 (write_policy (pe_now env1) name ?v y1 (p1, cp1, t1) who1 d)"
    by (simp_all add: vs w)
  define r1 where "r1 = the (find_policy name d1)"
  have hist: "find_policy name (append_history now m z y w re e) = find_policy name e" for now m z y w re e
    by (simp add: find_policy_def)
  have r1: "find_policy name d1 = Some r1" "po_version r1 = ?v" "po_content_compiled r1 = cp_msgpack cp1" "po_enabled r1"
    using assms(8,9) by (simp_all add: r1_def d1(2) hist find_policy_write)
  note r1' = find_policy_in [OF r1(1)]
  have ack: "acked_version d1 a name = acked_version d a name" by (rule acked_version_keeps) (simp add: d1(2))
  have pend: "is_pending d1 a r1" using assms(10) r1(2,4) r1' by (auto simp: is_pending_def ack split: option.splits)
  have tables: "policy_tables_ok d1" unfolding d1(2) by (intro tables_ok_history tables_ok_write assms(6) v(1))
  have "0 \<le> po_version x" if "x \<in> set (db_policies d1)" for x
    using that written_versions assms(7) v(2) unfolding d1(2) by fastforce
  moreover have "a \<in> ag_id ` set (db_agents d1)" using assms(11) unfolding d1(2) by simp
  ultimately have settled: "load_pending_policies coll None a d2 = Inr []" "db_policies d2 = db_policies d1"
    "fs2 (policy_path dir name) = Some (cp_msgpack cp1)"
    using round_settles [OF assms(14,12,13) tables _ _ conjunct1 [OF r1'] pend assms(4)] r1(3) r1' by simp_all
  have f2: "find_policy name d2 = Some r1" using r1(1) settled(2) by (simp add: find_policy_def)
  from store_version_ok [OF assms(5) this] have d3: "pd_version dto2 = ?v"
    "d3 = append_history (pe_now env2) name ?v y2 who2 re2 (write_policy (pe_now env2) name ?v y2 (p2, cp2, t2) who2 d2)"
    by (simp_all add: vs w)
  have "po_version x = ?v" if "x \<in> set (db_policies d2)" "po_name x = name" for x
    using find_policy_version [OF tables r1(1)] that settled(2) r1(2) by simp
  from rewrite_stays_settled [OF _ this] have "load_pending_policies coll None a d3 = Inr []"
    using settled(1) by (auto simp: none_pending d3(2))
  moreover have "\<exists>r'. find_policy name d3 = Some r' \<and> po_content_compiled r' = cp_msgpack cp2"
    by (simp add: d3(2) hist find_policy_write f2)
  ultimately show ?thesis using d1(1) d3(1) settled(3) by simp
qed

section \<open>Samples\<close>

abbreviation p_name :: rstr where "p_name \<equiv> lit ''p''"

definition other_api :: policy_env where
  "other_api = (sample_api None)\<lparr>pe_to_vec := \<lambda>_. Inr [2]\<rparr>"

definition other_pct :: "policy \<times> compiled_policy \<times> json" where
  "other_pct = (sample_policy p_name [], \<lparr>cp_name = p_name, cp_version = 1, cp_msgpack = [2],
     cp_hash = sha256_hex id [2]\<rparr>, JNull)"

lemma store_succeeds:
  assumes "pe_write env = None" "pe_history env = None" "pe_fetch env = None" "find_policy name d = Some r"
  shows "\<exists>dto d'. store_version env name v y (p, c, t) who re d tx = (Inr dto, d', notify_policy_changed (Some name) tx)"
proof -
  have "find_policy name (append_history now m z y w re e) = find_policy name e" for now m z y w re e
    by (simp add: find_policy_def)
  then show ?thesis using assms by (simp add: store_version_def fetch_full_def find_policy_write)
qed

lemma other_check:
  assumes "find_policy p_name d = Some r"
  shows "update_check other_api sample_claims p_name y d = Inr (other_pct, 5, po_version r)"
proof -
  have "from_yaml (pe_parse other_api) (pe_regex other_api) y = Inr (sample_policy p_name [])"
    using sample_valid by (simp add: from_yaml_def sample_api_def other_api_def)
  then show ?thesis using assms
    by (simp add: update_check_def sample_api_simps other_api_def sample_env_simps other_pct_def)
qed

lemma sample_table:
  "policy_tables_ok (versioned_db 3)" "7 \<in> ag_id ` set (db_agents (versioned_db 3))" "round_up up_env sample_inbound"
  "p \<in> set (db_policies (versioned_db 3)) \<Longrightarrow> 0 \<le> po_version p \<and> po_version p < 2 ^ 31 - 1"
  by (simp_all add: versioned_ok round_up_def sample_inbound_def) (auto simp: versioned_db_def)

theorem update_reaches_agent_witness:
  "\<exists>dto d1 d2 fs2. update (sample_api None) sample_claims p_name (lit ''b'') None (versioned_db 3)
      (Some \<lparr>px_queue = [], px_capacity = 1, px_closed = False\<rparr>) =
      (Inr dto, d1, Some \<lparr>px_queue = [Some p_name], px_capacity = 1, px_closed = False\<rparr>) \<and>
    policy_round (\<lambda>_ _. True) (register_agent 7 0 new_registry) up_env sample_inbound (lit ''d'') 7 d1
      (\<lambda>_. \<lparr>ch_msgs = [], ch_closed = False\<rparr>) (\<lambda>_. None) = (d2, fs2) \<and>
    fs2 (policy_path (lit ''d'') p_name) = Some [1] \<and> load_pending_policies (\<lambda>_ _. True) None 7 d2 = Inr []"
proof -
  let ?q = "\<lparr>px_queue = [], px_capacity = 1, px_closed = False\<rparr>"
  obtain dto d1 where u: "update (sample_api None) sample_claims p_name (lit ''b'') None (versioned_db 3) (Some ?q) =
      (Inr dto, d1, notify_policy_changed (Some p_name) (Some ?q))"
    using sample_update [OF versioned_simps(1)] by blast
  let ?r = "register_agent 7 0 new_registry"
  obtain d2 fs2 where r: "policy_round (\<lambda>_ _. True) ?r up_env sample_inbound (lit ''d'') 7 d1
      (\<lambda>_. \<lparr>ch_msgs = [], ch_closed = False\<rparr>) (\<lambda>_. None) = (d2, fs2)" by fastforce
  have "notify_policy_changed (Some p_name) (Some ?q) =
      Some (if px_closed ?q \<or> px_capacity ?q \<le> length (px_queue ?q) then ?q else ?q\<lparr>px_queue := px_queue ?q @ [Some p_name]\<rparr>) \<and>
    (\<exists>r'. find_policy p_name d1 = Some r' \<and> is_pending d1 7 r') \<and>
    (\<exists>p cp t. parse_and_compile (sample_api None) (lit ''b'') = Inr (p, cp, t) \<and>
      fs2 (policy_path (lit ''d'') p_name) = Some (cp_msgpack cp)) \<and> load_pending_policies (\<lambda>_ _. True) None 7 d2 = Inr []"
    by (rule update_reaches_agent [OF u sample_table(1) sample_table(4) versioned_simps(1,3) _ sample_table(2) _ _
        sample_table(3) r]) (simp_all add: versioned_simps rg.look_reg)
  then show ?thesis using u r by (auto simp: sample_parse sample_pct_def)
qed

theorem overlapping_updates_diverge_witness:
  "\<exists>dto1 d1 d2 fs2 dto2 d3 r'.
    store_version (sample_api None) p_name 4 (lit ''a'') sample_pct 5 [] (versioned_db 3) None = (Inr dto1, d1, None) \<and>
    policy_round (\<lambda>_ _. True) (register_agent 7 0 new_registry) up_env sample_inbound (lit ''d'') 7 d1
      (\<lambda>_. \<lparr>ch_msgs = [], ch_closed = False\<rparr>) (\<lambda>_. None) = (d2, fs2) \<and>
    store_version other_api p_name 4 (lit ''b'') other_pct 5 [] d2 None = (Inr dto2, d3, None) \<and>
    fs2 (policy_path (lit ''d'') p_name) = Some [1] \<and> find_policy p_name d3 = Some r' \<and> po_content_compiled r' = [2] \<and>
    pd_version dto1 = pd_version dto2 \<and> load_pending_policies (\<lambda>_ _. True) None 7 d3 = Inr []"
proof -
  have c1: "update_check (sample_api None) sample_claims p_name (lit ''a'') (versioned_db 3) =
      Inr ((sample_policy p_name [], \<lparr>cp_name = p_name, cp_version = 1, cp_msgpack = [1], cp_hash = sha256_hex id [1]\<rparr>,
        JNull), 5, 3)"
    using sample_update_check [OF versioned_simps(1)] by (simp add: sample_pct_def)
  have c2: "update_check other_api sample_claims p_name (lit ''b'') (versioned_db 3) =
      Inr ((sample_policy p_name [], \<lparr>cp_name = p_name, cp_version = 1, cp_msgpack = [2], cp_hash = sha256_hex id [2]\<rparr>,
        JNull), 5, 3)"
    using other_check [OF versioned_simps(1)] by (simp add: other_pct_def)
  note ne = notify_policy_changed_def [of _ None, simplified]
  obtain dto1 d1 where s1: "store_version (sample_api None) p_name (wrap_i32 (3 + 1)) (lit ''a'') (sample_policy p_name [],
      \<lparr>cp_name = p_name, cp_version = 1, cp_msgpack = [1], cp_hash = sha256_hex id [1]\<rparr>, JNull) 5 [] (versioned_db 3) None
      = (Inr dto1, d1, None)"
    using store_succeeds [of "sample_api None" p_name "versioned_db 3" _ _ _ _ _ _ _ _ None] versioned_simps(1)
    by (fastforce simp: sample_env_simps ne)
  obtain d2 fs2 where r: "policy_round (\<lambda>_ _. True) (register_agent 7 0 new_registry) up_env sample_inbound (lit ''d'') 7 d1
      (\<lambda>_. \<lparr>ch_msgs = [], ch_closed = False\<rparr>) (\<lambda>_. None) = (d2, fs2)" by fastforce
  have "find_policy p_name d1 \<noteq> None"
    using store_version_ok [OF s1 versioned_simps(1)] by (simp add: find_policy_def [of _ "append_history _ _ _ _ _ _ _"]
        find_policy_write versioned_simps(1) flip: find_policy_def)
  then have "find_policy p_name d2 \<noteq> None" using round_keeps_policies [OF r] by (simp add: find_policy_def)
  then obtain dto2 d3 where s2: "store_version other_api p_name (wrap_i32 (3 + 1)) (lit ''b'') (sample_policy p_name [],
      \<lparr>cp_name = p_name, cp_version = 1, cp_msgpack = [2], cp_hash = sha256_hex id [2]\<rparr>, JNull) 5 [] d2 None
      = (Inr dto2, d3, None)"
    using store_succeeds [of other_api p_name d2 _ _ _ _ _ _ _ _ None]
    by (fastforce simp: other_api_def sample_env_simps ne)
  have "pd_version dto1 = pd_version dto2 \<and> fs2 (policy_path (lit ''d'') p_name) =
      Some (cp_msgpack \<lparr>cp_name = p_name, cp_version = 1, cp_msgpack = [1], cp_hash = sha256_hex id [1]\<rparr>) \<and>
    (\<exists>r'. find_policy p_name d3 = Some r' \<and> po_content_compiled r' =
      cp_msgpack \<lparr>cp_name = p_name, cp_version = 1, cp_msgpack = [2], cp_hash = sha256_hex id [2]\<rparr>) \<and>
    load_pending_policies (\<lambda>_ _. True) None 7 d3 = Inr []"
    by (rule overlapping_updates_diverge [OF c1 c2 s1 r s2 sample_table(1) sample_table(4) versioned_simps(1,3) _
        sample_table(2) _ _ sample_table(3)]) (simp_all add: versioned_simps rg.look_reg)
  moreover have "wrap_i32 (3 + 1) = 4" by code_simp
  ultimately show ?thesis using s1 s2 r unfolding sample_pct_def other_pct_def compiled_policy.simps by auto
qed

end
