(* ===== verification/Late_Push.thy ===== *)
theory Late_Push
  imports Live_Policy
begin

text \<open>
  The two pushes an agent can get at the same time: the first push of its stream (\<open>stream\<close>) and the one of
  \<open>run_policy_push_bridge\<close>, both of \<open>scrooge-manager-bin/src/grpc.rs\<close>. Each loads the pending policies, marks them and
  sends them in separate steps; here the update of a policy and the push of the bridge come between the load and the
  send of the first push.
\<close>

section \<open>A push that has loaded\<close>

lemma mark_assigned_effect:
  "acked_version (snd (mark_assigned out now a n v d)) b m = acked_version d b m"
  "assigned_to d b m \<Longrightarrow> assigned_to (snd (mark_assigned out now a n v d)) b m"
proof -
  have "snd (mark_assigned out now a n v d) = (if out = None then assign_at now a n v d else d)"
    by (cases out) (simp_all add: assign_at_def mark_assigned_def)
  then show "acked_version (snd (mark_assigned out now a n v d)) b m = acked_version d b m"
    "assigned_to d b m \<Longrightarrow> assigned_to (snd (mark_assigned out now a n v d)) b m"
    by (simp_all add: pas.acked_assign assigned_to_def find_assigned_row)
qed

text \<open>Whatever comes of its marks, a push that has loaded sends what it has loaded.\<close>

lemma loaded_push:
  assumes "push_turns coll a es (PushMark ps qs) d tx = (PushDone, d', tx')" "\<not> ch_closed tx"
  shows "tx' = tx\<lparr>ch_msgs := ch_msgs tx @ [update_message ps]\<rparr> \<and> db_policies d' = db_policies d \<and>
    (\<forall>n. acked_version d' a n = acked_version d a n) \<and> (\<forall>n. assigned_to d a n \<longrightarrow> assigned_to d' a n)"
  using assms(1)
proof (induction es arbitrary: qs d)
  case (Cons env es)
  show ?case
  proof (cases qs)
    case Nil
    then show ?thesis using Cons.prems assms(2) by (simp add: ch_send_def)
  next
    case (Cons q qs')
    let ?e = "snd (mark_assigned (ps_assign env (pref_policy_id q)) (ps_now env) a (pref_policy_id q)
      (unwrap_or 0 (i32_of_u32 (pref_version q))) d)"
    from Cons.prems Cons have "push_turns coll a es (PushMark ps qs') ?e tx = (PushDone, d', tx')" by simp
    from Cons.IH [OF this] show ?thesis by (simp add: mark_assigned_effect mark_assigned_policies)
  qed
qed simp

text \<open>Acknowledgements count in the order they come.\<close>

context assignments
begin

lemma acked_last:
  assumes "assigned d a m" "map_of (rev nvs) m = Some v"
  shows "acked (each ack a nvs d) a m = Some v"
  using assms(2)
proof (induction nvs rule: rev_induct)
  case (snoc x nvs)
  have "assigned (each ack a xs d) b m = assigned d b m" for xs b m
    by (induction xs rule: rev_induct) (auto simp: assigned_ack)
  with snoc assms(1) show ?case by (auto simp: acked_ack split: if_splits)
qed simp

end

lemma map_of_find_key:
  assumes "ref_key x = (n, v)" "find (\<lambda>y. pref_policy_id y = n) ys = Some x"
  shows "map_of (map ref_key ys) n = Some v"
  using assms by (induction ys) (auto simp: ref_key_def split: if_splits)

section \<open>The agent and two updates\<close>

abbreviation from_manager :: "manager_message list \<Rightarrow> inbound list" where
  "from_manager \<equiv> map (\<lambda>m. InMessage m None [])"

lemma two_updates:
  assumes "\<not> ch_closed ch"
  shows "inbound_loop dir (from_manager [update_message ps, update_message qs]) fs ch =
    (None, fold (\<lambda>p f. f(policy_path dir (pref_policy_id p) := Some (pref_content_compiled p))) (ps @ qs) fs,
     ch\<lparr>ch_msgs := ch_msgs ch @ map (\<lambda>p. ack_message p 1 []) (ps @ qs)\<rparr>)"
proof -
  obtain fs1 ch1 where 1: "apply_policies dir [] ps fs ch = (fs1, ch1)" by fastforce
  obtain fs2 ch2 where 2: "apply_policies dir [] qs fs1 ch1 = (fs2, ch2)" by fastforce
  note a = apply_policies_ok [OF assms _ 1]
  then have "\<not> ch_closed ch1" using assms by simp
  from apply_policies_ok [OF this _ 2] a 1 2 show ?thesis
    by (simp add: update_message_def handle_inbound_def)
qed

text \<open>C39: a first push that has loaded its policies when one of them is updated, and sends them after the bridge has sent
  the update, brings the old version back: the agent's file of the policy is the old one, the table knows that the
  agent is behind, and no further message is on its way. Only another change of a policy or a new stream repairs it.\<close>

theorem late_push_brings_back:
  assumes load: "push_turn coll pe a PushLoad d tx = (PushMark ps ps, d, tx)"
    and update: "update env c name yaml reason d q = (Inr dto, d1, q1)"
    and bridge: "push_pending coll be a d1 tx = (d2, tx2)"
    and finish: "push_turns coll a es (PushMark ps ps) d2 tx2 = (PushDone, d3, tx3)"
    and agent: "inbound_loop dir (from_manager (drop (length (ch_msgs tx)) (ch_msgs tx3))) fs \<lparr>ch_msgs = [], ch_closed = False\<rparr>
      = (res, fs', up)"
    and acks: "stream_inbound a (map (\<lambda>x. (ie, Inr x)) (ch_msgs up)) d3 tx3 = (d4, tx4)"
    and up: "ps_load be = None" "\<And>n. ps_assign be n = None" "ib_update ie = None" "\<not> ch_closed tx"
    and tables: "policy_tables_ok d" "a \<in> ag_id ` set (db_agents d)"
    and row: "find_policy name d = Some r" "is_pending d a r" "0 \<le> po_version r" "po_version r < 2 ^ 31 - 1"
  shows "fs' (policy_path dir name) = Some (po_content_compiled r) \<and> ch_msgs tx4 = ch_msgs tx3 \<and>
    (\<exists>p cp t r'. parse_and_compile env yaml = Inr (p, cp, t) \<and> find_policy name d4 = Some r' \<and>
       po_content_compiled r' = cp_msgpack cp \<and> is_pending d4 a r')"
proof -
  have r: "r \<in> set (db_policies d)" "po_name r = name" using find_policy_in [OF row(1)] by simp_all
  have v: "is_i32 (po_version r)" "po_version r \<noteq> 2 ^ 31 - 1" using row(3,4) by (auto simp: is_i32_def)
  obtain p cp t who where u: "parse_and_compile env yaml = Inr (p, cp, t)"
    "d1 = append_history (pe_now env) name (po_version r + 1) yaml who (unwrap_or (lit ''update'') reason)
      (write_policy (pe_now env) name (po_version r + 1) yaml (p, cp, t) who d)"
    by (rule update_effect [OF update row(1) v])
  have "case acked_version d a name of None \<Rightarrow> True | Some w \<Rightarrow> w \<le> po_version r"
    using row(2) r(2) by (auto simp: is_pending_def split: option.splits)
  from update_is_pending [OF update row(1) _ v this] row(2) obtain r' where r': "find_policy name d1 = Some r'"
    "po_version r' = po_version r + 1" "is_pending d1 a r'" by (auto simp: is_pending_def)
  have c': "po_content_compiled r' = cp_msgpack cp"
    using r'(1) row(1) by (auto simp: u(2) find_policy_write find_policy_def [of _ "append_history _ _ _ _ _ _ _"]
        simp flip: find_policy_def)
  note rin = find_policy_in [OF r'(1)]
  have ne: "filter (is_pending d1 a) (db_policies d1) \<noteq> []" using rin r'(3) by (auto simp: filter_empty_conv)
  obtain qs where b: "qs = map to_ref (order_by (push_order coll) (filter (is_pending d1 a) (db_policies d1)))"
    "d2 = each (assign_at (ps_now be)) a (map ref_key qs) d1" "tx2 = tx\<lparr>ch_msgs := ch_msgs tx @ [update_message qs]\<rparr>"
    using bridge unfolding push_pending_eq [OF up(1,2,4) ne] by (auto simp: Let_def)
  have "\<not> ch_closed tx2" using b(3) up(4) by simp
  note f = loaded_push [OF finish this]
  have msgs: "drop (length (ch_msgs tx)) (ch_msgs tx3) = [update_message qs, update_message ps]" using f b(3) by simp
  have "load_pending_policies coll (ps_load pe) a d = Inr ps"
    using load by (simp add: push_turn_def split: sum.splits list.splits)
  then have ps: "set ps = to_ref ` {x \<in> set (db_policies d). is_pending d a x}"
    by (auto simp: load_pending_policies_def sql_query_def split: option.splits)
  have "inj_on po_name (set (db_policies d))" using tables(1) by (simp add: policy_tables_ok_def distinct_map)
  then have inj: "inj_on pref_policy_id (set ps)" unfolding ps by (auto simp: inj_on_def to_ref_def)
  have mine: "to_ref r \<in> set ps" "pref_policy_id (to_ref r) = name" using r row(2) unfolding ps by (auto simp: to_ref_def)
  have last: "find (\<lambda>x. pref_policy_id x = name) (rev ps) = Some (to_ref r)" by (rule find_rev_unique [OF mine(1) inj mine(2)])
  have slug: "slug (pref_policy_id x)" if "x \<in> set ps" for x
    using that tables(1) unfolding ps by (auto simp: policy_tables_ok_def to_ref_def)
  have same: "policy_path dir (pref_policy_id x) = policy_path dir name \<longleftrightarrow> pref_policy_id x = name" if "x \<in> set ps" for x
    using slug_paths [OF slug [OF that] slug [OF mine(1)]] mine(2) by simp
  let ?open = "\<lparr>ch_msgs = [], ch_closed = False\<rparr> :: agent_message chan"
  have out: "fs' = fold (\<lambda>p f. f(policy_path dir (pref_policy_id p) := Some (pref_content_compiled p))) (qs @ ps) fs"
    "ch_msgs up = map (\<lambda>p. ack_message p 1 []) (qs @ ps)"
    using agent two_updates [of ?open dir qs ps fs] unfolding msgs by simp_all
  have "fs' (policy_path dir name) = Some (po_content_compiled r)"
    using fold_files [of ps "\<lambda>x. policy_path dir (pref_policy_id x)" "policy_path dir name"
        "\<lambda>x. pref_policy_id x = name" pref_content_compiled, OF same] last
    unfolding out(1) fold_append comp_apply by (simp add: to_ref_def)
  moreover have d4: "d4 = each ack_at a (map ref_key (qs @ ps)) d3" "tx4 = tx3"
    using stream_acks [of "map (\<lambda>x. (ie, Inr x)) (ch_msgs up)" "\<lambda>p. ack_message p 1 []" "qs @ ps" a d3 tx3] acks up(3)
    unfolding out(2) by (auto simp: ack_message_def)
  moreover have "acked_version d4 a name = Some (po_version r)" unfolding d4(1)
  proof (rule pas.acked_last)
    have known: "\<forall>(n, v) \<in> set (map ref_key qs). known_pair d1 a n"
      using tables(2) by (auto simp: known_pair_def b(1) ref_key_def to_ref_def u(2))
    have "to_ref r' \<in> set qs" using rin r'(3) by (auto simp: b(1))
    then have "ref_key (to_ref r') \<in> set (map ref_key qs)" by simp
    moreover have "fst (ref_key (to_ref r')) = name" using rin by (simp add: ref_key_def to_ref_def)
    ultimately have "name \<in> fst ` set (map ref_key qs)" by (metis imageI)
    then have "assigned_to d2 a name" unfolding b(2) pas.assigned_assigns [OF known] by blast
    then show "assigned_to d3 a name" using f by blast
    have "ref_key (to_ref r) = (name, po_version r)"
      using r(2) version_roundtrip [OF row(3)] v by (simp add: ref_key_def to_ref_def)
    then have "map_of (map ref_key (rev ps)) name = Some (po_version r)"
      using last by (rule map_of_find_key)
    then show "map_of (rev (map ref_key (qs @ ps))) name = Some (po_version r)" by (simp add: rev_map)
  qed
  moreover have pol: "db_policies d4 = db_policies d1" using f unfolding d4(1) by (simp add: b(2))
  moreover have "is_pending d4 a r'" using r'(2,3) rin \<open>acked_version d4 a name = _\<close> by (simp add: is_pending_def)
  ultimately show ?thesis using u(1) r'(1) c' by (auto simp: find_policy_def)
qed

text \<open>The policy of the sample table, with content 1, is updated to content 2; the agent ends up with 1.\<close>

abbreviation any_order :: "rstr \<Rightarrow> rstr \<Rightarrow> bool" where "any_order \<equiv> \<lambda>_ _. True"
abbreviation old_refs :: "policy_ref list" where "old_refs \<equiv> [to_ref (sample_row p_name 3)]"

lemma other_update:
  "\<exists>dto d. update other_api sample_claims p_name (lit ''b'') None one_policy_db None = (Inr dto, d, None)"
proof -
  have f: "find_policy p_name one_policy_db = Some (sample_row p_name 3)" by (simp add: find_policy_def)
  have "pe_write other_api = None" "pe_history other_api = None" "pe_fetch other_api = None"
    by (simp_all add: other_api_def sample_env_simps)
  note s = store_succeeds [OF this f, where tx = None]
  then show ?thesis using other_check [OF f] by (simp add: update_def other_pct_def notify_policy_changed_def)
qed

theorem late_push_brings_back_witness:
  "\<exists>dto d1 d2 tx2 d3 tx3 fs' up d4 tx4 r'.
    update other_api sample_claims p_name (lit ''b'') None one_policy_db None = (Inr dto, d1, None) \<and>
    push_pending any_order up_env 7 d1 empty_channel = (d2, tx2) \<and>
    push_turns any_order 7 [up_env, up_env] (PushMark old_refs old_refs) d2 tx2 = (PushDone, d3, tx3) \<and>
    inbound_loop (lit ''d'') (from_manager (ch_msgs tx3)) (\<lambda>_. None) \<lparr>ch_msgs = [], ch_closed = False\<rparr> = (None, fs', up) \<and>
    stream_inbound 7 (map (\<lambda>x. (sample_inbound, Inr x)) (ch_msgs up)) d3 tx3 = (d4, tx4) \<and>
    fs' (policy_path (lit ''d'') p_name) = Some [1] \<and>
    find_policy p_name d4 = Some r' \<and> po_content_compiled r' = [2] \<and> is_pending d4 7 r'"
proof -
  obtain dto d1 where u: "update other_api sample_claims p_name (lit ''b'') None one_policy_db None = (Inr dto, d1, None)"
    using other_update by blast
  have load: "push_turn any_order up_env 7 PushLoad one_policy_db empty_channel = (PushMark old_refs old_refs, one_policy_db, empty_channel)"
    by (simp add: push_turn_def load_pending_policies_def sql_query_def order_by_simps)
  obtain d2 tx2 where b: "push_pending any_order up_env 7 d1 empty_channel = (d2, tx2)" by fastforce
  obtain d3 tx3 where f: "push_turns any_order 7 [up_env, up_env] (PushMark old_refs old_refs) d2 tx2 = (PushDone, d3, tx3)"
    by simp
  let ?open = "\<lparr>ch_msgs = [], ch_closed = False\<rparr> :: agent_message chan"
  obtain res fs' up where a: "inbound_loop (lit ''d'') (from_manager (ch_msgs tx3)) (\<lambda>_. None) ?open = (res, fs', up)"
    by (metis prod_cases3)
  obtain d4 tx4 where k: "stream_inbound 7 (map (\<lambda>x. (sample_inbound, Inr x)) (ch_msgs up)) d3 tx3 = (d4, tx4)" by fastforce
  have a': "inbound_loop (lit ''d'') (from_manager (drop (length (ch_msgs empty_channel)) (ch_msgs tx3))) (\<lambda>_. None) ?open
      = (res, fs', up)" using a by (simp add: empty_channel_def)
  have tables: "policy_tables_ok one_policy_db" "find_policy p_name one_policy_db = Some (sample_row p_name 3)"
    by (simp_all add: policy_tables_ok_def one_policy_db_def empty_db_def slug_def is_i32_def find_policy_def sample_row_def
        lit_def slug_char_def ascii_class_defs)
  have "fs' (policy_path (lit ''d'') p_name) = Some (po_content_compiled (sample_row p_name 3)) \<and> ch_msgs tx4 = ch_msgs tx3 \<and>
    (\<exists>p cp t r'. parse_and_compile other_api (lit ''b'') = Inr (p, cp, t) \<and> find_policy p_name d4 = Some r' \<and>
       po_content_compiled r' = cp_msgpack cp \<and> is_pending d4 7 r')"
    by (rule late_push_brings_back [OF load u b f a' k _ _ _ _ tables(1) _ tables(2)])
      (simp_all add: empty_channel_def sample_inbound_def)
  moreover have "parse_and_compile other_api (lit ''b'') = Inr other_pct"
    using update_check_version [OF other_check [OF tables(2), of "lit ''b''", unfolded other_pct_def]]
    unfolding other_pct_def by metis
  moreover have "res = None"
  proof -
    have "inbound_loop dir (from_manager ms) fs ch = (r, x) \<Longrightarrow> r = None" for dir ms fs ch r x
      by (induction ms arbitrary: fs ch) (auto split: prod.splits)
    with a show ?thesis by blast
  qed
  ultimately show ?thesis using u b f a k by (auto simp: other_pct_def sample_row_def)
qed

end
