(* ===== verification/Session.thy ===== *)
theory Session
  imports Uploader Agent_Stream "HOL-Library.Multiset"
begin

text \<open>
  The life of an agent over its sessions, \<open>run_with_reconnect\<close> and \<open>run_one_session\<close> of
  \<open>scrooge-agent-bin/src/stream.rs\<close>: while a session lives, its heartbeat, its uploader and its loop over what the
  manager sends take turns on one channel; monitors enqueue events with and without a session. \<open>al_sent\<close> keeps what
  the channels of ended sessions were given and \<open>al_sessions\<close> how many there were; no step reads them.
\<close>

section \<open>Steps\<close>

text \<open>A session: its channel, the uploader, whether the heartbeat runs, and the policies of the update at hand.\<close>

record live =
  lv_chan :: "agent_message chan"
  lv_upload :: up_pc
  lv_heartbeat :: bool
  lv_todo :: "policy_ref list"

record agent_life =
  al_queue :: event_queue
  al_files :: "u8 list files"
  al_live :: "live option"
  al_backoff :: nat
  al_done :: bool
  al_sent :: "agent_message list"
  al_sessions :: nat

definition opened :: live where
  "opened = \<lparr>lv_chan = \<lparr>ch_msgs = [], ch_closed = False\<rparr>, lv_upload = UIdle, lv_heartbeat = True, lv_todo = []\<rparr>"

definition born :: "event_queue \<Rightarrow> u8 list files \<Rightarrow> agent_life" where
  "born q fs = \<lparr>al_queue = q, al_files = fs, al_live = None, al_backoff = RECONNECT_MIN, al_done = False, al_sent = [],
     al_sessions = 0\<rparr>"

definition longer :: "nat \<Rightarrow> nat" where
  "longer backoff = min (backoff * 2) RECONNECT_MAX"

text \<open>The end of a session aborts its tasks, whatever they are at.\<close>

definition over :: "live \<Rightarrow> nat \<Rightarrow> agent_life \<Rightarrow> agent_life" where
  "over l backoff s = s\<lparr>al_live := None, al_backoff := backoff, al_sent := al_sent s @ ch_msgs (lv_chan l),
     al_sessions := al_sessions s + 1\<rparr>"

text \<open>The policies \<open>handle_inbound\<close> goes through; \<open>mkdir\<close> is the outcome of \<open>create_dir_all\<close>.\<close>

definition to_apply :: "rstr option \<Rightarrow> manager_message \<Rightarrow> policy_ref list" where
  "to_apply mkdir m = (case (m, mkdir) of (Some (MPolicy u), None) \<Rightarrow> pu_policies u | _ \<Rightarrow> [])"

text \<open>One policy: the file, then the acknowledgement; a closed channel ends the loop over the update.\<close>

definition apply_next :: "rstr \<Rightarrow> (rstr \<times> u8 list option) option \<Rightarrow> policy_ref \<Rightarrow> policy_ref list \<Rightarrow> live \<Rightarrow> u8 list files \<Rightarrow>
    live \<times> u8 list files" where
  "apply_next dir out p ps l fs =
     (case fs_write out (policy_path dir (pref_policy_id p)) (pref_content_compiled p) fs of (r, fs) \<Rightarrow>
      (case ch_send (case r of Inr _ \<Rightarrow> ack_message p 1 [] | Inl e \<Rightarrow> ack_message p 3 (lit ''write error: '' @ e)) (lv_chan l) of
         None \<Rightarrow> (l\<lparr>lv_todo := []\<rparr>, fs)
       | Some ch \<Rightarrow> (l\<lparr>lv_chan := ch, lv_todo := ps\<rparr>, fs)))"

inductive agent_step ::
  "(event \<Rightarrow> u8 list) \<Rightarrow> (u8 list \<Rightarrow> rstr + event) \<Rightarrow> rstr \<Rightarrow> rstr \<Rightarrow> event list \<Rightarrow> agent_life \<Rightarrow> agent_life \<Rightarrow> bool"
  for encode decode dir version where
  observe: "decode (encode e) = Inr e \<Longrightarrow> enqueue encode db now e (al_queue s) = (Inr i, q) \<Longrightarrow>
    agent_step encode decode dir version [e] s (s\<lparr>al_queue := q\<rparr>)"
| refused: "al_live s = None \<Longrightarrow> \<not> al_done s \<Longrightarrow>
    agent_step encode decode dir version [] s (s\<lparr>al_backoff := longer (al_backoff s)\<rparr>)"
| connect: "al_live s = None \<Longrightarrow> \<not> al_done s \<Longrightarrow> agent_step encode decode dir version [] s (s\<lparr>al_live := Some opened\<rparr>)"
| beat: "al_live s = Some l \<Longrightarrow> lv_heartbeat l \<Longrightarrow> ch_send (heartbeat_message now version) (lv_chan l) = Some ch \<Longrightarrow>
    agent_step encode decode dir version [] s (s\<lparr>al_live := Some (l\<lparr>lv_chan := ch\<rparr>)\<rparr>)"
| beat_end: "al_live s = Some l \<Longrightarrow> lv_heartbeat l \<Longrightarrow> ch_send (heartbeat_message now version) (lv_chan l) = None \<Longrightarrow>
    agent_step encode decode dir version [] s (s\<lparr>al_live := Some (l\<lparr>lv_heartbeat := False\<rparr>)\<rparr>)"
| upload: "al_live s = Some l \<Longrightarrow>
    up_step encode decode [] \<lparr>u_pc = lv_upload l, u_chan = lv_chan l, u_queue = al_queue s\<rparr>
      \<lparr>u_pc = pc, u_chan = ch, u_queue = q\<rparr> \<Longrightarrow>
    agent_step encode decode dir version [] s (s\<lparr>al_queue := q, al_live := Some (l\<lparr>lv_chan := ch, lv_upload := pc\<rparr>)\<rparr>)"
| receive: "al_live s = Some l \<Longrightarrow> lv_todo l = [] \<Longrightarrow>
    agent_step encode decode dir version [] s (s\<lparr>al_live := Some (l\<lparr>lv_todo := to_apply mkdir m\<rparr>)\<rparr>)"
| apply_one: "al_live s = Some l \<Longrightarrow> lv_todo l = p # ps \<Longrightarrow> apply_next dir out p ps l (al_files s) = (l', fs) \<Longrightarrow>
    agent_step encode decode dir version [] s (s\<lparr>al_live := Some l', al_files := fs\<rparr>)"
| ended: "al_live s = Some l \<Longrightarrow> lv_todo l = [] \<Longrightarrow>
    agent_step encode decode dir version [] s (over l (longer RECONNECT_MIN) s)"
| broken: "al_live s = Some l \<Longrightarrow> lv_todo l = [] \<Longrightarrow>
    agent_step encode decode dir version [] s (over l (longer (al_backoff s)) s)"
| stopped: "al_live s = Some l \<Longrightarrow> lv_todo l = [] \<Longrightarrow>
    agent_step encode decode dir version [] s ((over l RECONNECT_MIN s)\<lparr>al_done := True\<rparr>)"
| stopped_offline: "al_live s = None \<Longrightarrow> agent_step encode decode dir version [] s (s\<lparr>al_done := True\<rparr>)"

inductive agent_run ::
  "(event \<Rightarrow> u8 list) \<Rightarrow> (u8 list \<Rightarrow> rstr + event) \<Rightarrow> rstr \<Rightarrow> rstr \<Rightarrow> event list \<Rightarrow> agent_life \<Rightarrow> agent_life \<Rightarrow> bool"
  for encode decode dir version where
  rest: "agent_run encode decode dir version [] s s"
| move: "agent_run encode decode dir version es s t \<Longrightarrow> agent_step encode decode dir version fs t u \<Longrightarrow>
    agent_run encode decode dir version (es @ fs) s u"

lemma agent_run_trans:
  assumes "agent_run encode decode dir version fs t u" "agent_run encode decode dir version es s t"
  shows "agent_run encode decode dir version (es @ fs) s u"
  using assms by (induction arbitrary: es rule: agent_run.induct) (simp_all, metis append_assoc move)

lemma agent_run_first:
  assumes "agent_step encode decode dir version [] s t" "agent_run encode decode dir version es t u"
  shows "agent_run encode decode dir version es s u"
  using agent_run_trans [OF assms(2) move [OF rest assms(1)]] by simp

section \<open>The composed operations are runs of these steps\<close>

definition sequel :: "agent_life \<Rightarrow> live \<Rightarrow> u8 list files \<Rightarrow> agent_life" where
  "sequel s l fs = s\<lparr>al_live := Some l, al_files := fs\<rparr>"

lemma sequel_simps [simp]:
  "al_live (sequel s l fs) = Some l" "al_files (sequel s l fs) = fs" "al_queue (sequel s l fs) = al_queue s"
  "sequel (sequel s l fs) l' fs' = sequel s l' fs'"
  "(sequel s l fs)\<lparr>al_live := Some l'\<rparr> = sequel s l' fs"
  by (cases s; simp add: sequel_def)+

lemma apply_next_as_loop:
  assumes "apply_next dir (case os of [] \<Rightarrow> None | x # _ \<Rightarrow> x) p ps l fs = (l', fs')"
  obtains ack where "\<exists>status err. ack = ack_message p status err"
    "l' = (case ch_send ack (lv_chan l) of None \<Rightarrow> l\<lparr>lv_todo := []\<rparr> | Some ch \<Rightarrow> l\<lparr>lv_chan := ch, lv_todo := ps\<rparr>)"
    "apply_policies dir os (p # ps) fs (lv_chan l) =
      (case ch_send ack (lv_chan l) of None \<Rightarrow> (fs', lv_chan l) | Some ch \<Rightarrow> apply_policies dir (drop 1 os) ps fs' ch)"
proof -
  obtain r g where w: "fs_write (case os of [] \<Rightarrow> None | x # _ \<Rightarrow> x) (policy_path dir (pref_policy_id p))
      (pref_content_compiled p) fs = (r, g)" by fastforce
  let ?ack = "case r of Inr _ \<Rightarrow> ack_message p 1 [] | Inl e \<Rightarrow> ack_message p 3 (lit ''write error: '' @ e)"
  show thesis
    by (rule that [of ?ack]) (use assms w in \<open>auto simp: apply_next_def Let_def ch_send_def split: sum.splits\<close>)
qed

text \<open>The loop over an update.\<close>

lemma apply_policies_run:
  assumes "apply_policies dir os (lv_todo l) fs (lv_chan l) = (fs', ch')"
  shows "\<exists>l'. lv_chan l' = ch' \<and> lv_todo l' = [] \<and> lv_upload l' = lv_upload l \<and> lv_heartbeat l' = lv_heartbeat l \<and>
    agent_run encode decode dir version [] (sequel s l fs) (sequel s l' fs')"
  using assms
proof (induction "lv_todo l" arbitrary: l os fs)
  case Nil
  then have "fs' = fs" "ch' = lv_chan l" by simp_all
  with Nil(1) show ?case by (metis rest)
next
  case (Cons p ps)
  let ?out = "case os of [] \<Rightarrow> None | x # _ \<Rightarrow> x"
  obtain l1 fs1 where a: "apply_next dir ?out p ps l fs = (l1, fs1)" by fastforce
  have "agent_step encode decode dir version [] (sequel s l fs) ((sequel s l fs)\<lparr>al_live := Some l1, al_files := fs1\<rparr>)"
    by (rule apply_one [where p = p and ps = ps and out = ?out and l = l]) (simp_all add: Cons(2) [symmetric] a)
  then have first: "agent_step encode decode dir version [] (sequel s l fs) (sequel s l1 fs1)" by (simp add: sequel_def)
  from a obtain ack where ack: "l1 = (case ch_send ack (lv_chan l) of None \<Rightarrow> l\<lparr>lv_todo := []\<rparr>
      | Some ch \<Rightarrow> l\<lparr>lv_chan := ch, lv_todo := ps\<rparr>)"
    "apply_policies dir os (p # ps) fs (lv_chan l) =
      (case ch_send ack (lv_chan l) of None \<Rightarrow> (fs1, lv_chan l) | Some ch \<Rightarrow> apply_policies dir (drop 1 os) ps fs1 ch)"
    by (rule apply_next_as_loop)
  have keep: "lv_upload l1 = lv_upload l" "lv_heartbeat l1 = lv_heartbeat l"
    using ack(1) by (auto split: option.splits)
  have whole: "apply_policies dir os (p # ps) fs (lv_chan l) = (fs', ch')" using Cons.prems by (simp only: Cons(2))
  show ?case
  proof (cases "ch_send ack (lv_chan l)")
    case None
    from whole ack [unfolded None option.case] have "lv_todo l1 = []" "lv_chan l1 = ch'" "fs' = fs1" by simp_all
    then show ?thesis using keep move [OF rest first] by auto
  next
    case (Some ch)
    from whole ack [unfolded Some option.case] have t: "lv_todo l1 = ps"
      and "apply_policies dir (drop 1 os) (lv_todo l1) fs1 (lv_chan l1) = (fs', ch')" by simp_all
    from Cons(1) [OF t [symmetric] \<open>apply_policies dir (drop 1 os) _ _ _ = _\<close>] obtain l' where l': "lv_chan l' = ch'" "lv_todo l' = []" "lv_upload l' = lv_upload l1"
      "lv_heartbeat l' = lv_heartbeat l1" "agent_run encode decode dir version [] (sequel s l1 fs1) (sequel s l' fs')" by blast
    show ?thesis using l' keep agent_run_first [OF first l'(5)] by auto
  qed
qed

lemma handle_inbound_run:
  assumes "handle_inbound dir mkdir os m fs (lv_chan l) = (fs', ch')" "lv_todo l = []"
  shows "\<exists>l'. lv_chan l' = ch' \<and> lv_todo l' = [] \<and> lv_upload l' = lv_upload l \<and> lv_heartbeat l' = lv_heartbeat l \<and>
    agent_run encode decode dir version [] (sequel s l fs) (sequel s l' fs')"
proof -
  let ?l = "l\<lparr>lv_todo := to_apply mkdir m\<rparr>"
  have "agent_step encode decode dir version [] (sequel s l fs) ((sequel s l fs)\<lparr>al_live := Some ?l\<rparr>)"
    by (rule receive) (simp_all add: assms(2))
  then have step: "agent_step encode decode dir version [] (sequel s l fs) (sequel s ?l fs)" by simp
  have "apply_policies dir os (lv_todo ?l) fs (lv_chan ?l) = (fs', ch')"
    using assms by (auto simp: handle_inbound_def to_apply_def split: option.splits manager_payload.splits)
  from apply_policies_run [OF this, of encode decode version s] obtain l' where "lv_chan l' = ch'" "lv_todo l' = []"
    "lv_upload l' = lv_upload l" "lv_heartbeat l' = lv_heartbeat l"
    "agent_run encode decode dir version [] (sequel s ?l fs) (sequel s l' fs')" by auto
  with agent_run_first [OF step] show ?thesis by blast
qed

text \<open>The uploader with its enqueuing tasks, as \<open>up_run\<close> has it.\<close>

definition at_up :: "agent_life \<Rightarrow> live \<Rightarrow> up_state \<Rightarrow> agent_life" where
  "at_up s l u = s\<lparr>al_queue := u_queue u, al_live := Some (l\<lparr>lv_chan := u_chan u, lv_upload := u_pc u\<rparr>)\<rparr>"

lemma at_up_simps [simp]:
  "al_queue (at_up s l u) = u_queue u" "al_live (at_up s l u) = Some (l\<lparr>lv_chan := u_chan u, lv_upload := u_pc u\<rparr>)"
  "(at_up s l u)\<lparr>al_queue := q\<rparr> = at_up s l (u\<lparr>u_queue := q\<rparr>)"
  "(at_up s l u)\<lparr>al_live := Some (l\<lparr>lv_chan := ch, lv_upload := pc\<rparr>)\<rparr> = at_up s l (u\<lparr>u_chan := ch, u_pc := pc\<rparr>)"
  by (cases s; simp add: at_up_def)+

lemma up_step_cases:
  "up_step encode decode fs u v \<Longrightarrow> fs = [] \<or> (\<exists>e db now i q. fs = [e] \<and> decode (encode e) = Inr e \<and>
     enqueue encode db now e (u_queue u) = (Inr i, q) \<and> v = u\<lparr>u_queue := q\<rparr>)"
  by (induction rule: up_step.induct) auto

lemma upload_step:
  assumes "up_step encode decode fs u v"
  shows "agent_step encode decode dir version fs (at_up s l u) (at_up s l v)"
  using up_step_cases [OF assms]
proof
  assume fs: "fs = []"
  let ?l = "l\<lparr>lv_chan := u_chan u, lv_upload := u_pc u\<rparr>"
  have "agent_step encode decode dir version [] (at_up s l u)
      ((at_up s l u)\<lparr>al_queue := u_queue v, al_live := Some (?l\<lparr>lv_chan := u_chan v, lv_upload := u_pc v\<rparr>)\<rparr>)"
    by (rule upload [where l = ?l]) (use assms fs in \<open>cases u; cases v; simp\<close>)+
  then show ?thesis using fs by (cases u; cases v; simp)
next
  assume "\<exists>e db now i q. fs = [e] \<and> decode (encode e) = Inr e \<and>
     enqueue encode db now e (u_queue u) = (Inr i, q) \<and> v = u\<lparr>u_queue := q\<rparr>"
  then obtain e db now i q where e: "fs = [e]" "decode (encode e) = Inr e"
    "enqueue encode db now e (al_queue (at_up s l u)) = (Inr i, q)" "v = u\<lparr>u_queue := q\<rparr>" by auto
  have "agent_step encode decode dir version [e] (at_up s l u) ((at_up s l u)\<lparr>al_queue := q\<rparr>)"
    by (rule observe) (fact e)+
  then show ?thesis by (simp add: e(1,4))
qed

lemma upload_run:
  "up_run encode decode es u v \<Longrightarrow> agent_run encode decode dir version es (at_up s l u) (at_up s l v)"
  by (induction rule: up_run.induct) (auto intro: rest move upload_step)

section \<open>What is delivered\<close>

text \<open>All that went into a channel of any session.\<close>

definition all_sent :: "agent_life \<Rightarrow> agent_message list" where
  "all_sent s = al_sent s @ (case al_live s of None \<Rightarrow> [] | Some l \<Rightarrow> ch_msgs (lv_chan l))"

text \<open>\<open>due\<close> is what was pending when the session began and was enqueued since; the events \<open>D\<close> were sent twice, at most
  a batch of them for each session that ended.\<close>

definition life_inv :: "(u8 list \<Rightarrow> rstr + event) \<Rightarrow> event list \<Rightarrow> agent_life \<Rightarrow> bool" where
  "life_inv decode evs s \<longleftrightarrow> (\<exists>D due. size D \<le> 50 * al_sessions s \<and>
     mset evs + D = mset (sent_events (al_sent s)) + mset due \<and>
     (case al_live s of
        None \<Rightarrow> queue_inv decode (al_queue s) \<and> due = map snd (pending decode (al_queue s))
      | Some l \<Rightarrow> up_inv decode due \<lparr>u_pc = lv_upload l, u_chan = lv_chan l, u_queue = al_queue s\<rparr>))"

lemma up_inv_chan:
  assumes "up_inv decode evs \<lparr>u_pc = pc, u_chan = ch, u_queue = q\<rparr>" "sent_events (ch_msgs ch') = sent_events (ch_msgs ch)"
  shows "up_inv decode evs \<lparr>u_pc = pc, u_chan = ch', u_queue = q\<rparr>"
  using assms by (simp add: up_inv_def)

text \<open>Heartbeats and acknowledgements carry no events.\<close>

lemma no_events [simp]:
  "sent_events [heartbeat_message now v] = []" "sent_events [ack_message p st err] = []"
  by (simp_all add: heartbeat_message_def ack_message_def)

lemma apply_next_events:
  assumes "apply_next dir out p ps l fs = (l', fs')"
  shows "sent_events (ch_msgs (lv_chan l')) = sent_events (ch_msgs (lv_chan l)) \<and> lv_upload l' = lv_upload l"
  using assms by (auto simp: apply_next_def ch_send_def split: prod.splits sum.splits if_splits)

lemma over_inv:
  assumes "life_inv decode evs s" "al_live s = Some l"
  shows "life_inv decode evs (over l b s)"
proof -
  let ?q = "al_queue s"
  obtain D due where D: "size D \<le> 50 * al_sessions s" "mset evs + D = mset (sent_events (al_sent s)) + mset due"
    "up_inv decode due \<lparr>u_pc = lv_upload l, u_chan = lv_chan l, u_queue = ?q\<rparr>"
    using assms by (auto simp: life_inv_def)
  then obtain k where k: "queue_inv decode ?q" "k \<le> 50"
    "due = sent_events (ch_msgs (lv_chan l)) @ map snd (drop k (pending decode ?q))"
    by (auto simp: up_inv_def Let_def)
  let ?twice = "mset (map snd (take k (pending decode ?q)))"
  have "mset (map snd (pending decode ?q)) = ?twice + mset (map snd (drop k (pending decode ?q)))"
    by (metis append_take_drop_id map_append mset_append)
  then have "mset evs + (D + ?twice) = mset (sent_events (al_sent (over l b s))) + mset (map snd (pending decode ?q))"
    using D(2) unfolding k(3) by (simp add: over_def flip: add.assoc)
  moreover have "size (D + ?twice) \<le> 50 * al_sessions (over l b s)" using D(1) k(2) by (simp add: over_def)
  ultimately show ?thesis unfolding life_inv_def
    by (intro exI [of _ "D + ?twice"] exI [of _ "map snd (pending decode ?q)"]) (simp add: over_def k(1))
qed

lemma live_frame:
  assumes "life_inv decode evs s" "al_live s = Some l"
    and "al_live t = Some l'" "al_queue t = al_queue s" "al_sent t = al_sent s" "al_sessions t = al_sessions s"
    and "sent_events (ch_msgs (lv_chan l')) = sent_events (ch_msgs (lv_chan l))" "lv_upload l' = lv_upload l"
  shows "life_inv decode evs t"
  using assms up_inv_chan [of decode _ "lv_upload l" "lv_chan l" "al_queue s" "lv_chan l'"] by (fastforce simp: life_inv_def)

lemma life_step: "agent_step encode decode dir version fs s t \<Longrightarrow> life_inv decode evs s \<Longrightarrow> life_inv decode (evs @ fs) t"
proof (induction rule: agent_step.induct)
  case (observe e db now s i q)
  obtain D due where D: "size D \<le> 50 * al_sessions s" "mset evs + D = mset (sent_events (al_sent s)) + mset due"
    "case al_live s of None \<Rightarrow> queue_inv decode (al_queue s) \<and> due = map snd (pending decode (al_queue s))
      | Some l \<Rightarrow> up_inv decode due \<lparr>u_pc = lv_upload l, u_chan = lv_chan l, u_queue = al_queue s\<rparr>"
    using observe.prems by (auto simp: life_inv_def)
  have "case al_live s of None \<Rightarrow> queue_inv decode q \<and> due @ [e] = map snd (pending decode q)
      | Some l \<Rightarrow> up_inv decode (due @ [e]) \<lparr>u_pc = lv_upload l, u_chan = lv_chan l, u_queue = q\<rparr>"
  proof (cases "al_live s")
    case None
    then show ?thesis using D(3) enqueue_inv [of decode "al_queue s" encode e, OF _ observe.hyps] by simp
  next
    case (Some l)
    have "up_step encode decode [e] \<lparr>u_pc = lv_upload l, u_chan = lv_chan l, u_queue = al_queue s\<rparr>
        \<lparr>u_pc = lv_upload l, u_chan = lv_chan l, u_queue = q\<rparr>"
      by (rule up_enqueue) (fact observe.hyps)+
    from up_inv_step [OF this] D(3) Some show ?thesis by simp
  qed
  then show ?case unfolding life_inv_def using D(1,2)
    by (intro exI [of _ D] exI [of _ "due @ [e]"]) (simp split: option.splits)
next
  case (connect s)
  then show ?case by (auto simp: life_inv_def opened_def up_inv_def Let_def)
next
  case (upload s l pc ch q)
  then obtain D due where D: "size D \<le> 50 * al_sessions s" "mset evs + D = mset (sent_events (al_sent s)) + mset due"
    "up_inv decode due \<lparr>u_pc = lv_upload l, u_chan = lv_chan l, u_queue = al_queue s\<rparr>"
    by (auto simp: life_inv_def)
  from up_inv_step [OF upload.hyps(2) D(3)] D(1,2) show ?case by (auto simp: life_inv_def)
next
  case (ended s l)
  then show ?case using over_inv by simp
next
  case (broken s l)
  then show ?case using over_inv by simp
next
  case (stopped s l)
  then have "life_inv decode evs (over l RECONNECT_MIN s)" using over_inv by simp
  then show ?case by (simp add: life_inv_def over_def)
next
  case (apply_one s l p ps out l' fs)
  then show ?case using apply_next_events [OF apply_one.hyps(3)] by (auto intro: live_frame)
next
  case (beat s l now ch)
  have "life_inv decode evs (s\<lparr>al_live := Some (l\<lparr>lv_chan := ch\<rparr>)\<rparr>)"
    by (rule live_frame [where l' = "l\<lparr>lv_chan := ch\<rparr>", OF beat.prems beat.hyps(1)]) (use beat.hyps(3) in \<open>simp_all add: ch_send_Some\<close>)
  then show ?case by simp
qed (auto simp: life_inv_def)

lemma life_run: "agent_run encode decode dir version es s t \<Longrightarrow> life_inv decode evs s \<Longrightarrow> life_inv decode (evs @ es) t"
proof (induction rule: agent_run.induct)
  case (move es s t fs u)
  then show ?case using life_step [of encode decode dir version fs t u "evs @ es"] by simp
qed simp

text \<open>The time to the next attempt stays between the two bounds.\<close>

lemma backoff_step:
  "agent_step encode decode dir version fs s t \<Longrightarrow> al_backoff s \<in> {1..60} \<Longrightarrow> al_backoff t \<in> {1..60}"
  by (induction rule: agent_step.induct) (auto simp: longer_def over_def RECONNECT_MIN_def RECONNECT_MAX_def)

lemma backoff_run:
  "agent_run encode decode dir version es s t \<Longrightarrow> al_backoff s \<in> {1..60} \<Longrightarrow> al_backoff t \<in> {1..60}"
  by (induction rule: agent_run.induct) (auto dest: backoff_step)

text \<open>C5: over however many sessions, ended at whatever point, no event is lost between the queue and the channels:
  each event pending at the start or enqueued since, as often as it was, went into a channel or is pending, and at most
  one batch of 50 per session did so twice.\<close>

theorem sessions_lose_no_event:
  assumes "queue_inv decode q" "agent_run encode decode dir version es (born q fs) s"
  shows "queue_inv decode (al_queue s) \<and>
    mset (map snd (pending decode q) @ es) \<subseteq># mset (sent_events (all_sent s) @ map snd (pending decode (al_queue s))) \<and>
    length (sent_events (all_sent s)) + length (pending decode (al_queue s)) \<le>
      length (pending decode q) + length es + 50 * (al_sessions s + (if al_live s = None then 0 else 1))"
proof -
  let ?evs = "map snd (pending decode q) @ es" let ?p = "pending decode (al_queue s)"
  have "life_inv decode (map snd (pending decode q)) (born q fs)" using assms(1) by (simp add: life_inv_def born_def)
  from life_run [OF assms(2) this] obtain D due where D: "size D \<le> 50 * al_sessions s"
    "mset ?evs + D = mset (sent_events (al_sent s)) + mset due"
    "case al_live s of None \<Rightarrow> queue_inv decode (al_queue s) \<and> due = map snd ?p
      | Some l \<Rightarrow> up_inv decode due \<lparr>u_pc = lv_upload l, u_chan = lv_chan l, u_queue = al_queue s\<rparr>"
    unfolding life_inv_def by blast
  have "queue_inv decode (al_queue s) \<and> (\<exists>E. mset ?evs + E = mset (sent_events (all_sent s) @ map snd ?p) \<and>
    size E \<le> 50 * (al_sessions s + (if al_live s = None then 0 else 1)))"
  proof (cases "al_live s")
    case None
    with D show ?thesis by (auto simp: all_sent_def intro!: exI [of _ D])
  next
    case (Some l)
    with D(3) obtain k where k: "queue_inv decode (al_queue s)" "k \<le> 50"
      "due = sent_events (ch_msgs (lv_chan l)) @ map snd (drop k ?p)" by (auto simp: up_inv_def Let_def)
    have "mset (map snd ?p) = mset (map snd (take k ?p)) + mset (map snd (drop k ?p))"
      by (metis append_take_drop_id map_append mset_append)
    then have "mset ?evs + (D + mset (map snd (take k ?p))) = mset (sent_events (all_sent s) @ map snd ?p)"
      using D(2) Some unfolding k(3) by (simp add: all_sent_def flip: add.assoc)
    then show ?thesis using D(1) k(1,2) Some by (intro conjI exI [of _ "D + mset (map snd (take k ?p))"]) auto
  qed
  then obtain E where E: "queue_inv decode (al_queue s)" "mset ?evs + E = mset (sent_events (all_sent s) @ map snd ?p)"
    "size E \<le> 50 * (al_sessions s + (if al_live s = None then 0 else 1))" by blast
  have "mset ?evs \<subseteq># mset (sent_events (all_sent s) @ map snd ?p)" by (metis E(2) mset_subset_eq_add_left)
  moreover have "size (mset ?evs) + size E = size (mset (sent_events (all_sent s) @ map snd ?p))"
    by (metis E(2) size_union)
  ultimately show ?thesis using E(1,3) by simp
qed

theorem sessions_lose_no_event_witness:
  "\<exists>s. agent_run id_encode id_decode (lit ''d'') [] [] (born two_event_queue (\<lambda>_. None)) s \<and> al_sessions s = 1 \<and>
     sent_events (all_sent s) = map snd (pending id_decode two_event_queue) \<and> al_live s = None \<and>
     mset (map snd (pending id_decode two_event_queue) @ []) \<subseteq>#
       mset (sent_events (all_sent s) @ map snd (pending id_decode (al_queue s)))"
proof -
  let ?q = two_event_queue let ?b = "born ?q (\<lambda>_. None)" let ?run = "agent_run id_encode id_decode (lit ''d'') []"
  obtain r ch q where d: "drain_once id_decode None None 9 (lit ''x'') \<lparr>ch_msgs = [], ch_closed = False\<rparr> ?q = (r, ch, q)"
    by (metis prod_cases3)
  have sent: "sent_events (ch_msgs ch) = map snd (take 50 (pending id_decode ?q))"
    using drain_once_ok [OF two_event_queue_inv _ d] by simp
  let ?u = "\<lparr>u_pc = UIdle, u_chan = \<lparr>ch_msgs = [], ch_closed = False\<rparr>, u_queue = ?q\<rparr>"
  let ?v = "\<lparr>u_pc = (case r of Inl _ \<Rightarrow> UExited | Inr _ \<Rightarrow> UIdle), u_chan = ch, u_queue = q\<rparr>"
  have "at_up ?b opened ?u = ?b\<lparr>al_live := Some opened\<rparr>" by (simp add: at_up_def born_def opened_def)
  moreover have "?run [] ?b (?b\<lparr>al_live := Some opened\<rparr>)" using move [OF rest connect [of ?b]] by (simp add: born_def)
  ultimately have "?run [] ?b (at_up ?b opened ?u)" by simp
  with upload_run [OF drain_once_steps [OF d]] have here: "?run [] ?b (at_up ?b opened ?v)" by (metis agent_run_trans append_Nil)
  let ?s = "over (opened\<lparr>lv_chan := ch, lv_upload := u_pc ?v\<rparr>) (longer RECONNECT_MIN) (at_up ?b opened ?v)"
  have "agent_step id_encode id_decode (lit ''d'') [] [] (at_up ?b opened ?v) ?s"
    by (rule ended) (simp_all add: opened_def)
  from move [OF here this] have run: "?run [] ?b ?s" by simp
  have "length (pending id_decode ?q) \<le> 50"
    by (simp add: two_event_queue_def enqueue_def pending_def unsent_def Let_def max_i64_def)
  then have "sent_events (all_sent ?s) = map snd (pending id_decode ?q)" "al_sessions ?s = 1" "al_live ?s = None"
    using sent by (simp_all add: over_def at_up_def all_sent_def born_def)
  with run sessions_lose_no_event [OF two_event_queue_inv run] show ?thesis by blast
qed

end
