(* ===== verification/Backpressure.thy ===== *)
theory Backpressure
  imports Agent_Registry
begin

text \<open>
  The command bridge with the bounds of its channels, \<open>run_command_bridge\<close> of \<open>scrooge-manager-bin/src/grpc.rs\<close>: requests
  wait in a channel of 64 (\<open>main.rs\<close>), and each stream has a channel of 16 (\<open>stream\<close>) that empties only as fast as the
  agent takes what is in it. \<open>send(..).await\<close> waits for room. Here a channel holds what is in it now, unlike in the other
  theories, whose channels keep all that was sent.
\<close>

section \<open>Steps\<close>

definition COMMAND_QUEUE :: nat where "COMMAND_QUEUE = 64"
definition STREAM_CHANNEL :: nat where "STREAM_CHANNEL = 16"

record bridge_state =
  br_queue :: "command_request list"
  br_hand :: "(nat \<times> manager_message) option"
  br_out :: channels

definition command_message :: "int \<Rightarrow> command_request \<Rightarrow> manager_message" where
  "command_message now req = Some (MCommand \<lparr>cmd_command_id = rq_command_id req, cmd_type = rq_command_type req,
     cmd_payload = rq_payload req, cmd_issued_at_ns = now, cmd_deadline_ns = 0\<rparr>)"

definition has_room :: "manager_message chan \<Rightarrow> bool" where
  "has_room ch \<longleftrightarrow> \<not> ch_closed ch \<and> length (ch_msgs ch) < STREAM_CHANNEL"

text \<open>The label of a step is the channel whose agent acts in it: takes a message, or hangs up.\<close>

inductive bridge_step :: "nat option \<Rightarrow> bridge_state \<Rightarrow> bridge_state \<Rightarrow> bool" where
  ask: "length (br_queue s) < COMMAND_QUEUE \<Longrightarrow> bridge_step None s (s\<lparr>br_queue := br_queue s @ [req]\<rparr>)"
| not_connected: "br_hand s = None \<Longrightarrow> br_queue s = req # rest \<Longrightarrow> reg_get (rq_agent_id req) r = None \<Longrightarrow>
    bridge_step None s (s\<lparr>br_queue := rest\<rparr>)"
| pick: "br_hand s = None \<Longrightarrow> br_queue s = req # rest \<Longrightarrow> reg_get (rq_agent_id req) r = Some n \<Longrightarrow>
    bridge_step None s (s\<lparr>br_queue := rest, br_hand := Some (n, command_message now req)\<rparr>)"
| put: "br_hand s = Some (n, m) \<Longrightarrow> has_room (br_out s n) \<Longrightarrow> ch_send m (br_out s n) = Some ch \<Longrightarrow>
    bridge_step None s (s\<lparr>br_hand := None, br_out := (br_out s)(n := ch)\<rparr>)"
| gone: "br_hand s = Some (n, m) \<Longrightarrow> ch_send m (br_out s n) = None \<Longrightarrow> bridge_step None s (s\<lparr>br_hand := None\<rparr>)"
| other: "has_room (br_out s k) \<Longrightarrow> ch_send m (br_out s k) = Some ch \<Longrightarrow> (\<forall>cmd. m \<noteq> Some (MCommand cmd)) \<Longrightarrow>
    bridge_step None s (s\<lparr>br_out := (br_out s)(k := ch)\<rparr>)"
| consume: "ch_msgs (br_out s k) = m # ms \<Longrightarrow>
    bridge_step (Some k) s (s\<lparr>br_out := (br_out s)(k := (br_out s k)\<lparr>ch_msgs := ms\<rparr>)\<rparr>)"
| hang_up: "bridge_step (Some k) s (s\<lparr>br_out := (br_out s)(k := (br_out s k)\<lparr>ch_closed := True\<rparr>)\<rparr>)"



text \<open>A channel with room takes the command in one turn of \<open>command_bridge_step\<close>.\<close>

lemma turn_of_bridge:
  assumes "br_hand s = None" "br_queue s = req # rest" "\<And>n. reg_get (rq_agent_id req) r = Some n \<Longrightarrow> has_room (br_out s n)"
    and "command_bridge_step now r req (br_out s) = (fate, out)"
  shows "(\<lambda>s s'. bridge_step None s s')\<^sup>*\<^sup>* s (s\<lparr>br_queue := rest, br_out := out\<rparr>)"
proof (cases "reg_get (rq_agent_id req) r")
  case None
  then have "out = br_out s" using assms(4) by (simp add: command_bridge_step_def)
  moreover have "bridge_step None s (s\<lparr>br_queue := rest\<rparr>)" using not_connected [OF assms(1,2) None] .
  ultimately show ?thesis by (simp add: r_into_rtranclp)
next
  case (Some n)
  let ?s = "s\<lparr>br_queue := rest, br_hand := Some (n, command_message now req)\<rparr>"
  have room: "has_room (br_out s n)" using assms(3) Some .
  then obtain ch where ch: "ch_send (command_message now req) (br_out s n) = Some ch"
    by (auto simp: has_room_def ch_send_def)
  then have "out = (br_out s)(n := ch)" using assms(4) Some by (simp add: command_bridge_step_def command_message_def)
  then have "?s\<lparr>br_hand := None, br_out := (br_out ?s)(n := ch)\<rparr> = s\<lparr>br_queue := rest, br_out := out\<rparr>"
    using assms(1) by (cases s) simp
  moreover have "bridge_step None ?s (?s\<lparr>br_hand := None, br_out := (br_out ?s)(n := ch)\<rparr>)"
    using put [of ?s n "command_message now req" ch] room ch by simp
  ultimately have "bridge_step None ?s (s\<lparr>br_queue := rest, br_out := out\<rparr>)" by simp
  with pick [OF assms(1,2) Some, of now] show ?thesis
    by (intro converse_rtranclp_into_rtranclp [of _ s ?s] r_into_rtranclp)
qed

section \<open>One agent that does not read\<close>








end
