(* ===== verification/Link.thy ===== *)
theory Link
  imports Session Backpressure Agent_Inbound
begin

text \<open>
  One stream with the bounds of its channels: the loop of the agent over what the manager sends (\<open>run_one_session\<close> of
  \<open>scrooge-agent-bin/src/stream.rs\<close>) waits for room among 64 messages to send an acknowledgement, the loop of the manager
  over what the agent sends (\<open>stream\<close> of \<open>scrooge-manager-bin/src/grpc.rs\<close>) waits for room among 16 to answer a
  heartbeat, and neither reads while it waits. What the transport holds in either direction is a parameter. The steps
  are those of a connection that holds; the signal to stop is looked at only between two messages (\<open>Session\<close>).
\<close>

section \<open>Steps\<close>

record link =
  ln_up :: "agent_message list"
  ln_up_wire :: "agent_message list"
  ln_down :: "manager_message list"
  ln_down_wire :: "manager_message list"
  ln_todo :: "policy_ref list"
  ln_answer :: "manager_message option"

definition fresh_link :: link where
  "fresh_link = \<lparr>ln_up = [], ln_up_wire = [], ln_down = [], ln_down_wire = [], ln_todo = [], ln_answer = None\<rparr>"

text \<open>What the manager's loop puts in the channel for a message.\<close>

definition answer_to :: "int \<Rightarrow> agent_message \<Rightarrow> manager_message option" where
  "answer_to now m = (case m of Some (AHeartbeat hb) \<Rightarrow> Some (Some (MHeartbeatAck now)) | _ \<Rightarrow> None)"

lemma answer_of_handler:
  assumes "handle_agent_message env a (Inr m) d tx = (b, d', tx')" "\<not> ch_closed tx"
  shows "b \<and> ch_msgs tx' = ch_msgs tx @ (case answer_to (ib_now_ns env) m of None \<Rightarrow> [] | Some x \<Rightarrow> [x])"
  using assms by (auto simp: handle_agent_message_def answer_to_def ch_send_def Let_def split: option.splits agent_payload.splits)

text \<open>\<open>offer\<close>: a heartbeat, a batch of the uploader. \<open>push\<close>: a bridge or the first push.\<close>

inductive link_step :: "nat \<Rightarrow> nat \<Rightarrow> link \<Rightarrow> link \<Rightarrow> bool" for up_room down_room where
  offer: "length (ln_up s) < CHANNEL_CAPACITY \<Longrightarrow> link_step up_room down_room s (s\<lparr>ln_up := ln_up s @ [m]\<rparr>)"
| carry_up: "ln_up s = m # ms \<Longrightarrow> length (ln_up_wire s) < up_room \<Longrightarrow>
    link_step up_room down_room s (s\<lparr>ln_up := ms, ln_up_wire := ln_up_wire s @ [m]\<rparr>)"
| manager_reads: "ln_answer s = None \<Longrightarrow> ln_up_wire s = m # ms \<Longrightarrow>
    link_step up_room down_room s (s\<lparr>ln_up_wire := ms, ln_answer := answer_to now m\<rparr>)"
| manager_answers: "ln_answer s = Some m \<Longrightarrow> length (ln_down s) < STREAM_CHANNEL \<Longrightarrow>
    link_step up_room down_room s (s\<lparr>ln_down := ln_down s @ [m], ln_answer := None\<rparr>)"
| push: "length (ln_down s) < STREAM_CHANNEL \<Longrightarrow> link_step up_room down_room s (s\<lparr>ln_down := ln_down s @ [m]\<rparr>)"
| carry_down: "ln_down s = m # ms \<Longrightarrow> length (ln_down_wire s) < down_room \<Longrightarrow>
    link_step up_room down_room s (s\<lparr>ln_down := ms, ln_down_wire := ln_down_wire s @ [m]\<rparr>)"
| agent_reads: "ln_todo s = [] \<Longrightarrow> ln_down_wire s = m # ms \<Longrightarrow>
    link_step up_room down_room s (s\<lparr>ln_down_wire := ms, ln_todo := to_apply mkdir m\<rparr>)"
| agent_acks: "ln_todo s = p # ps \<Longrightarrow> length (ln_up s) < CHANNEL_CAPACITY \<Longrightarrow>
    link_step up_room down_room s (s\<lparr>ln_up := ln_up s @ [ack_message p status err], ln_todo := ps\<rparr>)"

abbreviation link_run :: "nat \<Rightarrow> nat \<Rightarrow> link \<Rightarrow> link \<Rightarrow> bool" where
  "link_run up_room down_room \<equiv> (link_step up_room down_room)\<^sup>*\<^sup>*"

lemma link_then: "link_step u v s t \<Longrightarrow> link_run u v t w \<Longrightarrow> link_run u v s w"
  by (rule converse_rtranclp_into_rtranclp)

section \<open>The circular wait\<close>

definition circular_wait :: "nat \<Rightarrow> nat \<Rightarrow> link \<Rightarrow> bool" where
  "circular_wait up_room down_room s \<longleftrightarrow>
     ln_todo s \<noteq> [] \<and> CHANNEL_CAPACITY \<le> length (ln_up s) \<and> up_room \<le> length (ln_up_wire s) \<and>
     ln_answer s \<noteq> None \<and> STREAM_CHANNEL \<le> length (ln_down s) \<and> down_room \<le> length (ln_down_wire s)"

lemma circular_wait_stops: "circular_wait u v s \<Longrightarrow> \<not> link_step u v s s'"
  by (auto simp: circular_wait_def elim!: link_step.cases)

lemma stopped_is_circular:
  assumes "0 < u" "0 < v" "\<And>s'. \<not> link_step u v s s'"
  shows "circular_wait u v s"
proof -
  have up: "CHANNEL_CAPACITY \<le> length (ln_up s)" using assms(3) link_step.offer not_le by blast
  have down: "STREAM_CHANNEL \<le> length (ln_down s)" using assms(3) link_step.push not_le by blast
  have "ln_up s \<noteq> []" "ln_down s \<noteq> []" using up down by (auto simp: CHANNEL_CAPACITY_def STREAM_CHANNEL_def)
  then obtain a as b bs where ab: "ln_up s = a # as" "ln_down s = b # bs" by (auto simp: neq_Nil_conv)
  have w: "u \<le> length (ln_up_wire s)" using assms(3) link_step.carry_up [OF ab(1)] not_le by blast
  have v: "v \<le> length (ln_down_wire s)" using assms(3) link_step.carry_down [OF ab(2)] not_le by blast
  from w v assms(1,2) obtain c cs e es where "ln_up_wire s = c # cs" "ln_down_wire s = e # es"
    by (cases "ln_up_wire s"; cases "ln_down_wire s") auto
  then have "ln_answer s \<noteq> None" "ln_todo s \<noteq> []"
    using assms(3) link_step.manager_reads link_step.agent_reads by blast+
  with up down w v show ?thesis by (simp add: circular_wait_def)
qed

text \<open>Filling the channels.\<close>

lemma fill_up: "length (ln_up s) + k \<le> CHANNEL_CAPACITY \<Longrightarrow> link_run u v s (s\<lparr>ln_up := ln_up s @ replicate k m\<rparr>)"
proof (induction k arbitrary: s)
  case (Suc k)
  let ?t = "s\<lparr>ln_up := ln_up s @ [m]\<rparr>"
  have "link_step u v s ?t" by (rule link_step.offer) (use Suc.prems in simp)
  moreover have "link_run u v ?t (?t\<lparr>ln_up := ln_up ?t @ replicate k m\<rparr>)" by (rule Suc.IH) (use Suc.prems in simp)
  ultimately show ?case by (simp add: link_then)
qed simp

lemma fill_down: "length (ln_down s) + k \<le> STREAM_CHANNEL \<Longrightarrow> link_run u v s (s\<lparr>ln_down := ln_down s @ replicate k m\<rparr>)"
proof (induction k arbitrary: s)
  case (Suc k)
  let ?t = "s\<lparr>ln_down := ln_down s @ [m]\<rparr>"
  have "link_step u v s ?t" by (rule link_step.push) (use Suc.prems in simp)
  moreover have "link_run u v ?t (?t\<lparr>ln_down := ln_down ?t @ replicate k m\<rparr>)" by (rule Suc.IH) (use Suc.prems in simp)
  ultimately show ?case by (simp add: link_then)
qed simp

lemma send_up:
  assumes "ln_up s = []" "length (ln_up_wire s) < u"
  shows "link_run u v s (s\<lparr>ln_up_wire := ln_up_wire s @ [m]\<rparr>)"
proof -
  let ?t = "s\<lparr>ln_up := [m]\<rparr>"
  have "link_step u v s ?t" using link_step.offer [of s u v m] assms(1) by (simp add: CHANNEL_CAPACITY_def)
  moreover have "link_step u v ?t (?t\<lparr>ln_up := [], ln_up_wire := ln_up_wire ?t @ [m]\<rparr>)"
    by (rule link_step.carry_up) (use assms in simp_all)
  moreover have "?t\<lparr>ln_up := [], ln_up_wire := ln_up_wire ?t @ [m]\<rparr> = s\<lparr>ln_up_wire := ln_up_wire s @ [m]\<rparr>"
    using assms(1) by simp
  ultimately show ?thesis by (metis link_then r_into_rtranclp)
qed

lemma send_down:
  assumes "ln_down s = []" "length (ln_down_wire s) < v"
  shows "link_run u v s (s\<lparr>ln_down_wire := ln_down_wire s @ [m]\<rparr>)"
proof -
  let ?t = "s\<lparr>ln_down := [m]\<rparr>"
  have "link_step u v s ?t" using link_step.push [of s u v m] assms(1) by (simp add: STREAM_CHANNEL_def)
  moreover have "link_step u v ?t (?t\<lparr>ln_down := [], ln_down_wire := ln_down_wire ?t @ [m]\<rparr>)"
    by (rule link_step.carry_down) (use assms in simp_all)
  moreover have "?t\<lparr>ln_down := [], ln_down_wire := ln_down_wire ?t @ [m]\<rparr> = s\<lparr>ln_down_wire := ln_down_wire s @ [m]\<rparr>"
    using assms(1) by simp
  ultimately show ?thesis by (metis link_then r_into_rtranclp)
qed

lemma fill_up_wire:
  "ln_up s = [] \<Longrightarrow> length (ln_up_wire s) + k \<le> u \<Longrightarrow> link_run u v s (s\<lparr>ln_up_wire := ln_up_wire s @ replicate k m\<rparr>)"
proof (induction k arbitrary: s)
  case (Suc k)
  let ?t = "s\<lparr>ln_up_wire := ln_up_wire s @ [m]\<rparr>"
  have "link_run u v s ?t" by (rule send_up) (use Suc.prems in simp_all)
  moreover have "link_run u v ?t (?t\<lparr>ln_up_wire := ln_up_wire ?t @ replicate k m\<rparr>)" by (rule Suc.IH) (use Suc.prems in simp_all)
  ultimately have "link_run u v s (?t\<lparr>ln_up_wire := ln_up_wire ?t @ replicate k m\<rparr>)" by (rule rtranclp_trans)
  then show ?case by simp
qed simp

lemma fill_down_wire:
  "ln_down s = [] \<Longrightarrow> length (ln_down_wire s) + k \<le> v \<Longrightarrow>
     link_run u v s (s\<lparr>ln_down_wire := ln_down_wire s @ replicate k m\<rparr>)"
proof (induction k arbitrary: s)
  case (Suc k)
  let ?t = "s\<lparr>ln_down_wire := ln_down_wire s @ [m]\<rparr>"
  have "link_run u v s ?t" by (rule send_down) (use Suc.prems in simp_all)
  moreover have "link_run u v ?t (?t\<lparr>ln_down_wire := ln_down_wire ?t @ replicate k m\<rparr>)" by (rule Suc.IH) (use Suc.prems in simp_all)
  ultimately have "link_run u v s (?t\<lparr>ln_down_wire := ln_down_wire ?t @ replicate k m\<rparr>)" by (rule rtranclp_trans)
  then show ?case by simp
qed simp

text \<open>An update of one policy reaches the agent; while it is at it, other updates fill the way down; a heartbeat comes in,
  whose answer has to wait; and heartbeats and events fill the way up.\<close>

lemma circular_wait_reachable:
  assumes "0 < u" "0 < v"
  shows "\<exists>s. link_run u v fresh_link s \<and> circular_wait u v s"
proof -
  let ?p = "sample_ref (lit ''p'') [1]" let ?m = "update_message [?p]" let ?hb = "heartbeat_message 0 []"
  let ?s1 = "fresh_link\<lparr>ln_down_wire := [?m]\<rparr>"
  have 1: "link_run u v fresh_link ?s1" using send_down [of fresh_link v u ?m] assms(2) by (simp add: fresh_link_def)
  let ?s2 = "fresh_link\<lparr>ln_todo := [?p]\<rparr>"
  have "link_step u v ?s1 (?s1\<lparr>ln_down_wire := [], ln_todo := to_apply None ?m\<rparr>)"
    by (rule link_step.agent_reads) (simp_all add: fresh_link_def)
  then have 2: "link_step u v ?s1 ?s2" by (simp add: to_apply_def update_message_def fresh_link_def)
  let ?s3 = "?s2\<lparr>ln_down_wire := replicate v ?m\<rparr>"
  have 3: "link_run u v ?s2 ?s3" using fill_down_wire [of ?s2 v v u ?m] by (simp add: fresh_link_def)
  let ?s4 = "?s3\<lparr>ln_down := replicate STREAM_CHANNEL ?m\<rparr>"
  have 4: "link_run u v ?s3 ?s4" using fill_down [of ?s3 STREAM_CHANNEL u v ?m] by (simp add: fresh_link_def)
  let ?s5 = "?s4\<lparr>ln_up_wire := [?hb]\<rparr>"
  have 5: "link_run u v ?s4 ?s5" using send_up [of ?s4 u v ?hb] assms(1) by (simp add: fresh_link_def)
  let ?s6 = "?s5\<lparr>ln_up_wire := [], ln_answer := answer_to 0 ?hb\<rparr>"
  have 6: "link_step u v ?s5 ?s6" by (rule link_step.manager_reads) (simp_all add: fresh_link_def)
  let ?s7 = "?s6\<lparr>ln_up_wire := replicate u ?hb\<rparr>"
  have 7: "link_run u v ?s6 ?s7" using fill_up_wire [of ?s6 u u v ?hb] by (simp add: fresh_link_def)
  let ?s8 = "?s7\<lparr>ln_up := replicate CHANNEL_CAPACITY ?hb\<rparr>"
  have 8: "link_run u v ?s7 ?s8" using fill_up [of ?s7 CHANNEL_CAPACITY u v ?hb] by (simp add: fresh_link_def)
  from 1 2 3 4 5 6 7 8 have "link_run u v fresh_link ?s8"
    by (meson rtranclp.rtrancl_into_rtrancl rtranclp_trans)
  moreover have "circular_wait u v ?s8"
    by (simp add: circular_wait_def fresh_link_def answer_to_def heartbeat_message_def)
  ultimately show ?thesis by blast
qed

text \<open>C40: whatever the transport holds, a stream can come to a state in which both loops wait for room and neither reads, and
  then nothing moves on it any more: no heartbeat, event, acknowledgement, policy or command. It is the only
  way for a stream to stop while the connection holds.\<close>

theorem stream_can_deadlock:
  assumes "0 < up_room" "0 < down_room"
  shows "(\<exists>s. link_run up_room down_room fresh_link s \<and> circular_wait up_room down_room s) \<and>
    (\<forall>s. circular_wait up_room down_room s \<longleftrightarrow> (\<forall>s'. \<not> link_step up_room down_room s s'))"
  using circular_wait_reachable [OF assms] circular_wait_stops stopped_is_circular [OF assms] by blast

theorem stream_can_deadlock_witness:
  "\<exists>s. link_run 1 1 fresh_link s \<and> (\<forall>s'. \<not> link_step 1 1 s s')"
  using stream_can_deadlock [of 1 1] by auto

end
