(* ===== verification/Classifier_Tests.thy ===== *)
theory Classifier_Tests
  imports Default_Registry
begin

text \<open>
  The unit tests of the classifiers, the modules \<open>tests\<close> of \<open>scrooge-agent-core/src/modules/classifier\<close>, on the
  model: each test by its name with the conjunction of its assertions, over the scan of the classifier it makes. They
  hold of the scans over the engine of \<open>Regex_Engine\<close>; the scans of IBANs and the one of a text with two cards are left
  out, since the kernel takes too long to evaluate them.
\<close>

section \<open>Assertions\<close>

text \<open>A test module: the names of its tests, and what each asserts.\<close>

type_synonym test_module = "(string \<times> bool) list"

definition passes :: "test_module \<Rightarrow> bool" where
  "passes = list_all snd"

text \<open>\<open>assert_eq!(matches.len(), 1)\<close> and the assertions on \<open>matches[0]\<close>; \<open>assert!(matches.is_empty())\<close>.\<close>

definition one_match :: "(cmatch \<Rightarrow> bool) \<Rightarrow> cmatch list option \<Rightarrow> bool" where
  "one_match P r = (case r of Some [m] \<Rightarrow> P m | _ \<Rightarrow> False)"

definition match_count :: "nat \<Rightarrow> cmatch list option \<Rightarrow> bool" where
  "match_count n r = (case r of Some ms \<Rightarrow> length ms = n | None \<Rightarrow> False)"

section \<open>The test modules\<close>

definition luhn_found_tests :: "(rstr \<Rightarrow> cmatch list option) \<Rightarrow> test_module" where
  "luhn_found_tests scan =
    [(''detects_valid_visa'',
      one_match (\<lambda>m. c_classifier m = lit ''credit_card'' \<and> c_last4 m = lit ''0366'' \<and>
        c_redacted m = lit ''**** **** **** 0366'')
        (scan (lit ''kontakt: 4532015112830366 zadzwo'' @ [324] @ lit '' jutro'')))]"

definition luhn_dashes_tests :: "(rstr \<Rightarrow> cmatch list option) \<Rightarrow> test_module" where
  "luhn_dashes_tests scan =
    [(''detects_with_dashes'',
      one_match (\<lambda>m. c_last4 m = lit ''0366'') (scan (lit ''karta 4532-0151-1283-0366 wystawiona'')))]"

definition luhn_format_tests :: "(rstr \<Rightarrow> cmatch list option) \<Rightarrow> test_module" where
  "luhn_format_tests scan =
    [(''detects_with_spaces'', match_count 1 (scan (lit ''4532 0151 1283 0366''))),
     (''detects_amex_15_digits'', one_match (\<lambda>m. c_last4 m = lit ''0005'') (scan (lit ''amex: 378282246310005'')))]"

definition luhn_refused_tests :: "(rstr \<Rightarrow> cmatch list option) \<Rightarrow> test_module" where
  "luhn_refused_tests scan =
    [(''rejects_invalid_checksum'', match_count 0 (scan (lit ''4532015112830367''))),
     (''rejects_too_short'', match_count 0 (scan (lit ''12345''))),
     (''rejects_too_long'', match_count 0 (scan (lit ''12345678901234567890'')))]"

definition luhn_plain_tests :: "(rstr \<Rightarrow> cmatch list option) \<Rightarrow> test_module" where
  "luhn_plain_tests scan =
    [(''no_match_in_plain_text'', match_count 0 (scan (lit ''Hello world, nothing sensitive here.'')))]"

definition luhn_check_tests :: test_module where
  "luhn_check_tests =
    [(''luhn_check_known_valid'',
      luhn_check (lit ''4532015112830366'') \<and> luhn_check (lit ''5500000000000004'') \<and>
      luhn_check (lit ''378282246310005'')),
     (''luhn_check_known_invalid'',
      \<not> luhn_check (lit ''4532015112830367'') \<and> \<not> luhn_check (lit ''1234567890123456'')),
     (''redact_format_consistent'',
      luhn_redact (lit ''4532015112830366'') = Some (lit ''**** **** **** 0366'') \<and>
      luhn_redact (lit ''378282246310005'') = Some (lit ''**** **** **** 0005''))]"

definition pesel_tests :: "(rstr \<Rightarrow> cmatch list option) \<Rightarrow> test_module" where
  "pesel_tests scan =
    [(''detects_valid_pesel'',
      one_match (\<lambda>m. c_classifier m = lit ''polish_pesel'' \<and> c_last4 m = lit ''1359'' \<and> c_redacted m = lit ''*******1359'')
        (scan (lit ''PESEL: 44051401359''))),
     (''rejects_invalid_checksum'', match_count 0 (scan (lit ''44051401358''))),
     (''rejects_wrong_length'',
      match_count 0 (scan (lit ''123456789'')) \<and> match_count 0 (scan (lit ''123456789012''))),
     (''detects_multiple'', match_count 2 (scan (lit ''dwa: 44051401359 i 02070803628''))),
     (''no_match_plain_text'', match_count 0 (scan (lit ''Hello world''))),
     (''pesel_check_table'',
      pesel_check (lit ''44051401359'') \<and> pesel_check (lit ''02070803628'') \<and> \<not> pesel_check (lit ''44051401358'') \<and>
      \<not> pesel_check (lit ''11111111111''))]"

definition nip_tests :: "(rstr \<Rightarrow> cmatch list option) \<Rightarrow> test_module" where
  "nip_tests scan =
    [(''detects_valid_nip'',
      one_match (\<lambda>m. c_classifier m = lit ''polish_nip'' \<and> c_last4 m = lit ''0995'' \<and> c_redacted m = lit ''***-***-09-95'')
        (scan (lit ''NIP firmy: 5260250995''))),
     (''detects_with_dashes'', one_match (\<lambda>m. c_last4 m = lit ''0995'') (scan (lit ''526-025-09-95''))),
     (''detects_with_spaces'', match_count 1 (scan (lit ''526 025 09 95''))),
     (''rejects_invalid_checksum'', match_count 0 (scan (lit ''5260250996''))),
     (''nip_check_table'',
      nip_check (lit ''5260250995'') \<and> \<not> nip_check (lit ''5260250996'') \<and> \<not> nip_check (lit ''1234567890'')),
     (''no_match_plain_text'', match_count 0 (scan (lit ''Hello world''))),
     (''checksum_10_rule'', \<not> nip_check (lit ''1234567890''))]"

definition iban_tests :: test_module where
  "iban_tests =
    [(''redact_shows_country_and_last4'',
      iban_redact (lit ''PL61109010140000071219812874'') = Some (lit ''PL**...2874'') \<and>
      iban_redact (lit ''DE89370400440532013000'') = Some (lit ''DE**...3000'')),
     (''iban_check_table'',
      iban_check (lit ''PL61109010140000071219812874'') = Some True \<and> iban_check (lit ''DE89370400440532013000'') = Some True \<and>
      iban_check (lit ''GB82WEST12345698765432'') = Some True \<and> iban_check (lit ''PL62109010140000071219812874'') = Some False)]"

section \<open>They pass\<close>

lemma luhn_found_pass: "passes (luhn_found_tests (luhn_scan (re_card ref_regexes)))"
  by code_simp

lemma luhn_dashes_pass: "passes (luhn_dashes_tests (luhn_scan (re_card ref_regexes)))"
  by code_simp

lemma luhn_format_pass: "passes (luhn_format_tests (luhn_scan (re_card ref_regexes)))"
  by code_simp

lemma luhn_refused_pass: "passes (luhn_refused_tests (luhn_scan (re_card ref_regexes)))"
  by code_simp

lemma luhn_plain_pass: "passes (luhn_plain_tests (luhn_scan (re_card ref_regexes)))"
  by code_simp

lemma luhn_check_pass: "passes luhn_check_tests"
  by code_simp

lemma pesel_tests_pass: "passes (pesel_tests (pesel_scan (re_pesel ref_regexes)))"
  by code_simp

lemma nip_tests_pass: "passes (nip_tests (nip_scan (re_nip ref_regexes)))"
  by code_simp

lemma iban_tests_pass: "passes iban_tests"
  by code_simp

end
