(* ===== verification/Unit_Tests.thy ===== *)
theory Unit_Tests
  imports Classifier_Tests Monitors Policy_Api Config Install "HOL-Library.Sublist"
begin

text \<open>
  Unit tests of the repository on the model, module by module as in \<open>Classifier_Tests\<close>: the event queue, policies,
  configuration, the install API and the clipboard. A YAML document of a test stands as what the parser gives for it.
  The tests of what is a parameter here (YAML syntax, MessagePack, certificates, bcrypt, whole templates) are left out.
\<close>

section \<open>Assertions\<close>

text \<open>\<open>unwrap\<close>, after which the test goes on.\<close>

definition ok_and :: "'e + 'a \<Rightarrow> ('a \<Rightarrow> bool) \<Rightarrow> bool" where
  "ok_and r P = (case r of Inr x \<Rightarrow> P x | Inl e \<Rightarrow> False)"

text \<open>\<open>unwrap_err\<close>, and the assertion on the error.\<close>

definition err_and :: "'e + 'a \<Rightarrow> ('e \<Rightarrow> bool) \<Rightarrow> bool" where
  "err_and r P = (case r of Inr x \<Rightarrow> False | Inl e \<Rightarrow> P e)"

lemma and_simps [simp]:
  "ok_and (Inr x) P = P x" "ok_and (Inl e) P = False" "err_and (Inl e) Q = Q e" "err_and (Inr x) Q = False"
  by (simp_all add: ok_and_def err_and_def)

definition contains :: "rstr \<Rightarrow> string \<Rightarrow> bool" where
  "contains s part = sublist (lit part) s"

section \<open>The event queue\<close>

definition queue_test_event :: "string \<Rightarrow> event" where
  "queue_test_event tag =
     \<lparr>ev_event_id = lit ''test-'' @ lit tag, ev_timestamp_ns = 0, ev_agent_id = [], ev_type = ET_CLIPBOARD_COPY,
      ev_severity = SEV_MEDIUM, ev_direction = 0, ev_user_name = [], ev_process_id = 0, ev_process_name = [],
      ev_details = Some (DClipboard \<lparr>ce_content_size = 16, ce_content_preview = lit ''**** **** **** 0366'',
        ce_content_hash = [], ce_mime_type = lit ''text/plain'', ce_source_process_name = [], ce_was_cleared = False\<rparr>),
      ev_matched_policy_id = [], ev_matched_rule_id = [], ev_action_taken = 0, ev_matches = [], ev_forward_to_siem = False\<rparr>"

definition open_temp_queue :: "queue_error + event_queue" where
  "open_temp_queue = queue_open None None"

definition unwrap_with :: "('e + 'a) \<times> 'q \<Rightarrow> ('a \<Rightarrow> 'q \<Rightarrow> bool) \<Rightarrow> bool" where
  "unwrap_with x P = (case x of (r, q) \<Rightarrow> ok_and r (\<lambda>a. P a q))"

lemma unwrap_with_simps [simp]: "unwrap_with (Inr a, q) P = P a q" "unwrap_with (Inl e, q) P = False"
  by (simp_all add: unwrap_with_def)

fun enqueue_all :: "(event \<Rightarrow> u8 list) \<Rightarrow> int \<Rightarrow> string list \<Rightarrow> event_queue \<Rightarrow> (event_queue \<Rightarrow> bool) \<Rightarrow> bool" where
  "enqueue_all encode now [] q P = P q"
| "enqueue_all encode now (tag # tags) q P =
     unwrap_with (enqueue encode None now (queue_test_event tag) q) (\<lambda>_ q. enqueue_all encode now tags q P)"

definition queue_tests :: "(event \<Rightarrow> u8 list) \<Rightarrow> (u8 list \<Rightarrow> rstr + event) \<Rightarrow> int \<Rightarrow> test_module" where
  "queue_tests encode decode now =
    (let enq = (\<lambda>tag q. enqueue encode None now (queue_test_event tag) q);
         batch_of = (\<lambda>n q. take_batch decode None n q)
     in
    [(''enqueue_take_roundtrip'',
      ok_and open_temp_queue (\<lambda>q.
      unwrap_with (enq ''a'' q) (\<lambda>i q. 0 < i \<and>
      ok_and (batch_of 10 q) (\<lambda>batch. length batch = 1 \<and> pe_id (batch ! 0) = i \<and>
        ev_event_id (pe_event (batch ! 0)) = lit ''test-a'')))),
     (''mark_sent_excludes_from_take_batch'',
      ok_and open_temp_queue (\<lambda>q.
      unwrap_with (enq ''a'' q) (\<lambda>id1 q.
      unwrap_with (enq ''b'' q) (\<lambda>id2 q.
      unwrap_with (mark_sent None now [id1] q) (\<lambda>_ q.
      ok_and (batch_of 10 q) (\<lambda>batch. length batch = 1 \<and> pe_id (batch ! 0) = id2)))))),
     (''take_batch_respects_limit'',
      ok_and open_temp_queue (\<lambda>q.
      enqueue_all encode now [''0'', ''1'', ''2'', ''3'', ''4''] q (\<lambda>q.
      ok_and (batch_of 3 q) (\<lambda>batch. length batch = 3)))),
     (''purge_removes_only_sent'',
      ok_and open_temp_queue (\<lambda>q.
      unwrap_with (enq ''pending'' q) (\<lambda>id_pending q.
      unwrap_with (enq ''sent'' q) (\<lambda>id_sent q.
      unwrap_with (mark_sent None now [id_sent] q) (\<lambda>_ q.
      unwrap_with (purge_sent_older_than None max_i64 q) (\<lambda>removed q. removed = 1 \<and>
      ok_and (batch_of 10 q) (\<lambda>batch. length batch = 1 \<and> pe_id (batch ! 0) = id_pending))))))),
     (''pending_count_correct'',
      ok_and open_temp_queue (\<lambda>q.
      ok_and (pending_count None q) (\<lambda>n. n = 0) \<and>
      enqueue_all encode now [''a'', ''b''] q (\<lambda>q.
      ok_and (pending_count None q) (\<lambda>n. n = 2) \<and>
      ok_and (batch_of 1 q) (\<lambda>batch.
      unwrap_with (mark_sent None now [pe_id (batch ! 0)] q) (\<lambda>_ q.
      ok_and (pending_count None q) (\<lambda>n. n = 1)))))),
     (''fifo_order_preserved'',
      ok_and open_temp_queue (\<lambda>q.
      enqueue_all encode now [''first'', ''second'', ''third''] q (\<lambda>q.
      ok_and (batch_of 10 q) (\<lambda>batch.
        ev_event_id (pe_event (batch ! 0)) = lit ''test-first'' \<and>
        ev_event_id (pe_event (batch ! 1)) = lit ''test-second'' \<and>
        ev_event_id (pe_event (batch ! 2)) = lit ''test-third''))))])"

text \<open>They pass with any codec that decodes what it encoded and any time before the end of \<open>i64\<close>.\<close>

lemma queue_tests_pass:
  assumes "\<And>e. decode (encode e) = Inr e" "now < max_i64"
  shows "passes (queue_tests encode decode now)"
proof -
  have ms: "0 < max_i64" "1 < max_i64" "2 < max_i64" "3 < max_i64" "4 < max_i64" by (simp_all add: max_i64_def)
  show ?thesis
    by (simp add: passes_def queue_tests_def Let_def open_temp_queue_def queue_open_def enqueue_def take_batch_def
        mark_sent_def purge_sent_older_than_def pending_count_def assms ms not_le queue_test_event_def
        unwrap_with_def lit_def)
qed

section \<open>Policies\<close>

text \<open>A document with the fields a test gives, the others by their defaults.\<close>

definition no_targets :: targets where
  "no_targets = \<lparr>t_match = \<lparr>tm_os = [], tm_tags = [], tm_groups = [], tm_agent_ids = []\<rparr>,
     t_exclude = \<lparr>te_hostnames = [], te_agent_ids = []\<rparr>\<rparr>"

definition test_policy :: "string \<Rightarrow> string \<Rightarrow> rule list \<Rightarrow> policy" where
  "test_policy version name outbound =
     \<lparr>api_version = lit version, kind = lit ''Policy'',
      p_metadata = \<lparr>md_name = lit name, md_description = None, md_version = default_version\<rparr>,
      p_targets = no_targets, p_priority = 0, p_rules = \<lparr>pr_inbound = [], pr_outbound = outbound\<rparr>,
      p_monitored_paths = [], p_classifiers = []\<rparr>"

definition test_rule :: "string \<Rightarrow> string \<Rightarrow> rstr option \<Rightarrow> rule" where
  "test_rule i name filename =
     \<lparr>rule_id = lit i, rule_name = lit name, rule_enabled = True, rule_severity = Low, rule_sources = [],
      rule_destinations = [], rule_conditions = map_option (\<lambda>f. \<lparr>file_size_min = None, file_size_max = None,
        file_extensions = [], filename_regex = Some f, path_regex = None\<rparr>) filename,
      rule_action = LogOnly, rule_forward_to_siem = False, rule_notify_user = False, rule_message = None\<rparr>"

text \<open>\<open>Policy::from_yaml\<close> on a document that parses.\<close>

definition from_doc :: "(rstr \<Rightarrow> rstr option) \<Rightarrow> policy \<Rightarrow> policy_error + policy" where
  "from_doc regex_new doc = from_yaml (\<lambda>_. Inr doc) regex_new []"

definition policy_error_tests :: "(rstr \<Rightarrow> rstr option) \<Rightarrow> test_module" where
  "policy_error_tests regex_new =
    [(''wrong_api_version_fails_validation'',
      err_and (from_doc regex_new (test_policy ''scroogedlp.io/v2'' ''test'' []))
        (\<lambda>e. case e of ValidationError v \<Rightarrow> contains (validation_message v) ''apiVersion'' | _ \<Rightarrow> False)),
     (''duplicate_rule_id_rejected'',
      err_and (from_doc regex_new (test_policy ''scroogedlp.io/v1'' ''dup-test''
          [test_rule ''r1'' ''First'' None, test_rule ''r1'' ''Second (duplicate)'' None]))
        (\<lambda>e. case e of ValidationError v \<Rightarrow> contains (validation_message v) ''duplicate rule id'' | _ \<Rightarrow> False)),
     (''invalid_regex_rejected'',
      err_and (from_doc regex_new (test_policy ''scroogedlp.io/v1'' ''bad-regex''
          [test_rule ''r1'' ''Bad regex'' (Some (lit ''[unclosed''))]))
        (\<lambda>e. case e of RegexCompileError _ _ \<Rightarrow> True | _ \<Rightarrow> False)),
     (''invalid_name_slug_rejected'',
      err_and (from_doc regex_new (test_policy ''scroogedlp.io/v1'' ''Bad_Name_With_Underscores'' []))
        (\<lambda>e. case e of ValidationError v \<Rightarrow> contains (validation_message v) ''slug-style'' | _ \<Rightarrow> False))]"

definition parse_size_tests :: "(rchar \<Rightarrow> rstr) \<Rightarrow> test_module" where
  "parse_size_tests up =
    [(''parse_size_units'',
      parse_size up (lit ''1024'') = Inr 1024 \<and> parse_size up (lit ''1KB'') = Inr 1024 \<and>
      parse_size up (lit ''2 MB'') = Inr (2 * 1024 * 1024) \<and> parse_size up (lit ''1GB'') = Inr (1024 * 1024 * 1024) \<and>
      err_and (parse_size up (lit ''1XB'')) (\<lambda>_. True))]"

definition minimal_policy_tests :: "(rstr \<Rightarrow> rstr option) \<Rightarrow> test_module" where
  "minimal_policy_tests regex_new =
    [(''minimal_policy_with_defaults'',
      ok_and (from_doc regex_new (test_policy ''scroogedlp.io/v1'' ''minimal'' []))
        (\<lambda>p. md_version (p_metadata p) = 1 \<and> p_priority p = 0 \<and> pr_inbound (p_rules p) = [] \<and>
          pr_outbound (p_rules p) = [] \<and> p_classifiers p = []))]"

lemma test_names:
  "list_all slug_char (lit ''r1'')" "list_all slug_char (lit ''bad-regex'')" "list_all slug_char (lit ''dup-test'')"
  "list_all slug_char (lit ''minimal'')" "\<not> list_all slug_char (lit ''Bad_Name_With_Underscores'')"
  "lit ''scroogedlp.io/v2'' \<noteq> lit ''scroogedlp.io/v1''" "lit ''r1'' \<noteq> []" "lit ''bad-regex'' \<noteq> []"
  "lit ''dup-test'' \<noteq> []" "lit ''minimal'' \<noteq> []" "lit ''Bad_Name_With_Underscores'' \<noteq> []"
  by code_simp+

lemma test_messages:
  "contains (validation_message (UnsupportedApiVersion (lit ''scroogedlp.io/v2''))) ''apiVersion''"
  "contains (validation_message (DuplicateRuleId (lit ''r1'') (lit ''dup-test''))) ''duplicate rule id''"
  "contains (validation_message (BadName (lit ''Bad_Name_With_Underscores''))) ''slug-style''"
  by (simp_all add: validation_message_def contains_def lit_def sublist_code)

lemmas policy_test_defs = passes_def from_doc_def from_yaml_def policy_validate_def test_policy_def test_rule_def
  rule_validate_def check_regex_def default_version_def res_bind_def map_err_def

text \<open>They pass with any regex crate that refuses an unclosed class.\<close>

lemma policy_error_tests_pass: "regex_new (lit ''[unclosed'') \<noteq> None \<Longrightarrow> passes (policy_error_tests regex_new)"
  by (auto simp: policy_error_tests_def policy_test_defs test_names test_messages)

lemma parse_size_tests_pass: "passes (parse_size_tests up)"
  by (simp add: passes_def parse_size_tests_def parse_size_eq unit_factor_def trim_def trim_start_def trim_end_def
      to_uppercase_def digits_value_def lit_def is_whitespace_def ascii_class_defs Let_def)

lemma minimal_policy_tests_pass: "passes (minimal_policy_tests regex_new)"
  by (simp add: minimal_policy_tests_def policy_test_defs test_names)

section \<open>Configuration\<close>

definition agent_doc :: "string \<Rightarrow> rstr option \<Rightarrow> raw_agent_config" where
  "agent_doc endpoint token =
     \<lparr>rac_manager = Some \<lparr>ram_endpoint = Some (lit endpoint), ram_enrollment_token = token, ram_verify_tls = None,
        ram_ca_cert_path = Some (lit ''/etc/scrooge/ca.pem'')\<rparr>,
      rac_agent = Some \<lparr>rar_data_dir = Some (lit ''/var/lib/scrooge''), rar_log_level = None,
        rar_heartbeat_interval_secs = None, rar_watch_paths = None\<rparr>\<rparr>"

definition agent_config_tests :: test_module where
  "agent_config_tests =
    [(''parses_agent_config_with_defaults'',
      ok_and (de_agent_config (agent_doc ''192.168.64.1:5443'' (Some (lit ''deadbeef'')))) (\<lambda>cfg.
        am_endpoint (ac_manager cfg) = lit ''192.168.64.1:5443'' \<and> am_verify_tls (ac_manager cfg) \<and>
        ar_log_level (ac_agent cfg) = lit ''info'' \<and> ar_heartbeat_interval_secs (ac_agent cfg) = 30 \<and>
        ok_and (agent_config_validate cfg) (\<lambda>_. True))),
     (''agent_config_rejects_empty_endpoint'',
      ok_and (de_agent_config (agent_doc [] None)) (\<lambda>cfg.
        err_and (agent_config_validate cfg) (\<lambda>e. case e of MissingField f \<Rightarrow> f = lit ''manager.endpoint'' | _ \<Rightarrow> False))),
     (''agent_config_rejects_endpoint_without_port'',
      ok_and (de_agent_config (agent_doc ''manager.example.com'' None)) (\<lambda>cfg.
        err_and (agent_config_validate cfg) (\<lambda>e. case e of InvalidValue f _ \<Rightarrow> f = lit ''manager.endpoint'' | _ \<Rightarrow> False)))]"

lemma agent_config_tests_pass: "passes agent_config_tests"
  by code_simp

definition server_doc :: "string list \<Rightarrow> raw_manager_server" where
  "server_doc ps = \<lparr>rms_grpc_listen_addr = None, rms_rest_listen_addr = None, rms_tls_cert_path = Some (lit (ps ! 0)),
     rms_tls_key_path = Some (lit (ps ! 1)), rms_ca_cert_path = Some (lit (ps ! 2)), rms_ca_key_path = Some (lit (ps ! 3)),
     rms_public_grpc_endpoint = None, rms_public_rest_base_url = None, rms_agent_release_tag = None,
     rms_rest_tls_cert_path = None, rms_rest_tls_key_path = None\<rparr>"

definition manager_doc :: "string list \<Rightarrow> string \<Rightarrow> raw_syslog_forwarder option \<Rightarrow> string \<Rightarrow> raw_manager_config" where
  "manager_doc ps url syslog secret =
     \<lparr>rmc_server = Some (server_doc ps), rmc_database = Some \<lparr>rdc_url = Some (lit url), rdc_pool_max = None\<rparr>,
      rmc_syslog_forwarder = syslog, rmc_auth = Some \<lparr>rah_jwt_secret = Some (lit secret),
        rah_access_token_ttl_secs = None, rah_refresh_token_ttl_secs = None\<rparr>, rmc_dashboard = None\<rparr>"

definition manager_config_tests :: test_module where
  "manager_config_tests =
    [(''parses_manager_config_with_defaults'',
      ok_and (de_manager_config (manager_doc [''/etc/scrooge/server.pem'', ''/etc/scrooge/server.key'',
          ''/etc/scrooge/ca.pem'', ''/etc/scrooge/ca.key''] ''postgres://localhost/scrooge'' None
          ''this-is-a-very-long-secret-at-least-32'')) (\<lambda>cfg.
        ms_grpc_listen_addr (mc_server cfg) = lit ''0.0.0.0:5443'' \<and>
        ms_rest_listen_addr (mc_server cfg) = lit ''0.0.0.0:55000'' \<and> dc_pool_max (mc_database cfg) = 16 \<and>
        \<not> sw_enabled (mc_syslog_forwarder cfg) \<and> sf_respect_per_rule_flag (sw_filters (mc_syslog_forwarder cfg)) \<and>
        ah_access_token_ttl_secs (mc_auth cfg) = 3600 \<and> ok_and (manager_config_validate cfg) (\<lambda>_. True))),
     (''manager_config_rejects_short_jwt_secret'',
      ok_and (de_manager_config (manager_doc [''x'', ''x'', ''x'', ''x''] ''postgres://x'' None ''too-short'')) (\<lambda>cfg.
        err_and (manager_config_validate cfg) (\<lambda>e. case e of InvalidValue f _ \<Rightarrow> f = lit ''auth.jwt_secret'' | _ \<Rightarrow> False)))]"

lemma manager_config_tests_pass: "passes manager_config_tests"
  by code_simp

definition full_syslog :: raw_syslog_forwarder where
  "full_syslog = \<lparr>rsw_enabled = Some True,
     rsw_destination = Some \<lparr>rsd_host = Some (lit ''wazuh.internal''), rsd_port = Some 6514,
       rsd_protocol = Some (lit ''tcp_tls''), rsd_tls = Some \<lparr>rsy_verify = Some True,
         rsy_ca_cert_path = Some (lit ''/etc/scrooge/wazuh-ca.pem''), rsy_client_cert_path = None,
         rsy_client_key_path = None\<rparr>\<rparr>,
     rsw_filters = Some \<lparr>rsf_min_severity = Some (lit ''high''), rsf_respect_per_rule_flag = Some False,
       rsf_include_event_types = None, rsf_exclude_event_types = Some [lit ''agent_internal'']\<rparr>\<rparr>"

definition syslog_tests :: test_module where
  "syslog_tests =
    [(''parses_full_syslog_forwarder_section'',
      ok_and (de_manager_config (manager_doc [''x'', ''x'', ''x'', ''x''] ''postgres://x'' (Some full_syslog)
          ''this-is-a-very-long-secret-at-least-32-chars'')) (\<lambda>cfg.
        sw_enabled (mc_syslog_forwarder cfg) \<and>
        (case sw_destination (mc_syslog_forwarder cfg) of None \<Rightarrow> False
         | Some dest \<Rightarrow> sd_host dest = lit ''wazuh.internal'' \<and> sd_port dest = 6514) \<and>
        sf_min_severity (sw_filters (mc_syslog_forwarder cfg)) = lit ''high'' \<and>
        \<not> sf_respect_per_rule_flag (sw_filters (mc_syslog_forwarder cfg)) \<and>
        sf_exclude_event_types (sw_filters (mc_syslog_forwarder cfg)) = [lit ''agent_internal'']))]"

lemma syslog_tests_pass: "passes syslog_tests"
  by code_simp

section \<open>The install API\<close>

definition one_liner_tests :: test_module where
  "one_liner_tests =
    (let mgr = lit ''mgr.example.com:5443''; branch = lit ''claude/wizardly-fermi-ae7494'' in
    [(''one_liner_per_os'',
      (let lin = one_liner Linux mgr (lit ''abc'') [] None;
           mac = one_liner MacOs mgr (lit ''abc'') [] None;
           win = one_liner Windows mgr (lit ''abc'') [] None
       in contains lin ''github.com/SQTX/Scrooge-DLP/raw/main/deploy/install-agent.sh'' \<and>
          contains lin ''MANAGER=mgr.example.com:5443'' \<and> contains lin ''TOKEN=abc'' \<and> contains lin ''sudo -E bash'' \<and>
          contains mac ''github.com/SQTX/Scrooge-DLP/raw/main/deploy/install-agent.sh'' \<and>
          contains win ''NIE wspierany'')),
     (''one_liner_with_install_ref_uses_branch'',
      (let lin = one_liner Linux mgr (lit ''tok'') branch None
       in contains lin ''raw/claude/wizardly-fermi-ae7494/deploy/install-agent.sh'' \<and>
          contains lin ''INSTALL_REF=claude/wizardly-fermi-ae7494'')),
     (''one_liner_with_rest_base_emits_env_var'',
      (let lin = one_liner Linux mgr (lit ''tok'') [] (Some (lit ''https://mgr.example.com:55000''))
       in contains lin ''REST_BASE=https://mgr.example.com:55000''))])"

definition os_parse_tests :: test_module where
  "os_parse_tests =
    [(''target_os_parse_accepts_aliases'',
      os_parse (lit ''Linux'') = Some Linux \<and> os_parse (lit ''MACOS'') = Some MacOs \<and>
      os_parse (lit ''darwin'') = Some MacOs \<and> os_parse (lit ''Windows'') = Some Windows \<and> os_parse (lit ''freebsd'') = None)]"

definition missing_fields_tests :: test_module where
  "missing_fields_tests =
    [(''from_install_config_reports_missing_fields'',
      err_and (from_install_config \<lparr>ic_public_grpc_endpoint = None, ic_public_rest_base_url = Some (lit ''https://x''),
          ic_agent_release_tag = None, ic_ca_cert_path = lit ''/tmp/ca.pem''\<rparr>)
        (\<lambda>e. contains (api_message e) ''public_grpc_endpoint'' \<and> contains (api_message e) ''agent_release_tag'' \<and>
          \<not> contains (api_message e) ''public_rest_base_url''))]"

lemma one_liner_tests_pass: "passes one_liner_tests"
  by (simp add: passes_def one_liner_tests_def one_liner_def contains_def lit_def sublist_code Let_def)

lemma os_parse_tests_pass: "passes os_parse_tests"
  by code_simp

lemma missing_fields_tests_pass: "passes missing_fields_tests"
  by (simp add: passes_def missing_fields_tests_def contains_def lit_def sublist_code from_install_config_def
      api_message_def Let_def)

section \<open>Clipboard\<close>

definition clipboard_tests :: "rstr \<Rightarrow> int \<Rightarrow> rstr \<Rightarrow> test_module" where
  "clipboard_tests uuid now user =
    [(''build_event_populates_classifier_match'',
      (let m = \<lparr>c_classifier = lit ''credit_card'', c_start = 0, c_end = 16, c_redacted = lit ''**** **** **** 0366'',
             c_last4 = lit ''0366''\<rparr>;
           evt = clip_event uuid now user (lit ''4532015112830366'') (replicate 32 0) m
       in ev_type evt = ET_CLIPBOARD_COPY \<and> length (ev_matches evt) = 1 \<and>
          pm_classifier_id (ev_matches evt ! 0) = lit ''credit_card'' \<and>
          (case ev_details evt of
             Some (DClipboard c) \<Rightarrow> ce_content_preview c = lit ''**** **** **** 0366'' \<and> ce_content_size c = 16
           | _ \<Rightarrow> False)))]"

lemma clipboard_tests_pass: "passes (clipboard_tests uuid now user)"
proof -
  have "blen (lit ''4532015112830366'') = 16" by code_simp
  then show ?thesis by (simp add: passes_def clipboard_tests_def clip_event_def match_message_def Let_def)
qed

end
