(* ===== verification/Spec2Isabelle.thy ===== *)
theory Spec2Isabelle
  imports Default_Registry Monitors Pipeline Agent_Start Manager_Start System Provenance Late_Push
    Session Backpressure Link Unit_Tests
begin

text \<open>
  \<^bold>\<open>ScroogeDLP: a verification library of its Rust code.\<close>

  ScroogeDLP is a data loss prevention system. An \<^emph>\<open>agent\<close> runs on every workstation: it watches the
  clipboard and files, scans text for card numbers, PESEL, NIP and IBAN numbers, keeps what it finds in a
  local queue and uploads it. A \<^emph>\<open>manager\<close> enrolls agents, pushes policies to them over a stream
  authenticated by client certificates, stores their events in PostgreSQL, and offers a REST API to
  administrators. Paths below are relative to \<open>src/crates\<close>.

  \<^bold>\<open>Conventions.\<close> A Rust string is the list of its Unicode scalar values (\<open>rstr\<close>); lengths and
  slices are in UTF-8 bytes, as in Rust. A machine integer is a word of its width, or an \<open>int\<close> with the
  wrap of a release build written out (\<open>wrap_i32\<close>, \<open>wrap_i64\<close>). A fallible operation returns a sum,
  \<open>Inl\<close> being \<open>Err\<close>; an operation that can panic returns an option, \<open>None\<close> being the panic. A
  loop over inputs is a recursion on the list of its inputs, so every model terminates and needs no fuel:
  an infinite service loop is its behaviour on each finite prefix of its inputs. Code outside the
  repository is a parameter: the regex engine, YAML, MessagePack and protobuf codecs, SHA-256, bcrypt,
  JWT, X.509, the clock, UUIDs, the collation of the database, the outcome of every SQL statement and file
  operation (\<open>Some e\<close>: it fails with \<open>e\<close>). What a theorem needs of a parameter is among its
  hypotheses, and its witness (\<open><theorem>_witness\<close>) meets them with a concrete function. The regex
  crate is the one with a contract of its own, \<open>Regex_Spec\<close>; \<open>Regex_Engine\<close> is an engine that keeps it.

  \<^bold>\<open>The theories.\<close>

  \<^item> \<open>Prelude\<close>: strings, UTF-8, slices and their panics, results, arithmetic.

  \<^item> \<open>Regex_Spec\<close>, \<open>Regex_Engine\<close>: patterns, what \<open>find_iter\<close> returns, an engine.

  \<^item> \<open>Classifier\<close>, \<open>Luhn\<close>, \<open>Weighted\<close>, \<open>Pesel\<close>, \<open>Nip\<close>, \<open>Iban\<close>,
    \<open>Default_Registry\<close> (\<open>scrooge-agent-core/src/modules/classifier\<close>): the trait and registry, the four
    classifiers with pattern, check, redaction and scan. The lemmas show that the checks on machine
    integers are the published algorithms, which errors they catch, what the scans report, and where they
    miss or panic.

  \<^item> \<open>Policy_Rules\<close>, \<open>Policy_Doc\<close> (\<open>scrooge-policy/src\<close>): rules, sizes, documents, validation,
    compilation.

  \<^item> \<open>Proto\<close> (\<open>src/proto/scrooge.proto\<close>): messages, and channels as their senders see them.

  \<^item> \<open>Event_Queue\<close>, \<open>Uploader\<close>, \<open>Agent_Files\<close>, \<open>Agent_Stream\<close>, \<open>Monitors\<close>
    (\<open>scrooge-agent-core/src/queue.rs\<close>, \<open>scrooge-agent-bin/src\<close>, \<open>scrooge-agent-linux/src\<close>): the queue as
    a table that refines a list, through the interface \<open>pending_queue\<close> the uploader relies on; the uploader
    alone and interleaved with the collector and broken sessions (\<open>up_step\<close>); the identity on disk; the
    reconnect loop and the handling of inbound messages; the two monitors, whose events are shown to depend on what
    is copied and stored only through lengths, digests and redacted forms, and the platform agent.

  \<^item> \<open>Manager_Db\<close> (\<open>src/migrations\<close>): the tables as lists of rows, statements with outcomes.

  \<^item> \<open>Enrollment\<close>, \<open>Agent_Registry\<close>, \<open>Policy_Push\<close>, \<open>Event_Ingest\<close>, \<open>Agent_Inbound\<close>
    (\<open>scrooge-manager-bin/src/grpc.rs\<close>): enrollment and its token; the registry of connected agents behind
    the interface \<open>connected_agents\<close>, with the streams that come and go (\<open>stream_step\<close>); pending
    policies and assignments behind the interface \<open>assignments\<close>; the batch insert; the loop over an
    agent's messages.

  \<^item> \<open>Stream_Tasks\<close> (\<open>stream\<close> of the same file): an accepted stream with its two tasks, the first push taken turn
    by turn (\<open>push_turn\<close>) beside the loop over the messages; it reaches only what is the agent's own.

  \<^item> \<open>Auth\<close>, \<open>Policy_Api\<close>, \<open>Listings\<close> (\<open>scrooge-manager-api/src\<close>): errors, claims, login, refresh; every
    handler of policies, the invariant of the policy tables, the history; the listings of agents and
    events and the command endpoint.

  \<^item> \<open>Config\<close>, \<open>Ca\<close> (\<open>scrooge-common/src\<close>): what a configuration file loads as, with every default, and
    what is refused; the certificate authority over the functions of \<open>rcgen\<close>.

  \<^item> \<open>Templates\<close>, \<open>App_State\<close>, \<open>Install\<close>, \<open>Rest_Api\<close> (\<open>scrooge-manager-api/src\<close>): \<open>str::replace\<close> on
    templates; the state built from the configuration; tokens, one-liners and scripts of the install API;
    the routes of \<open>lib.rs\<close> with their extractors in front of all handlers, and who can change what.

  \<^item> \<open>Platform\<close> (\<open>scrooge-agent-core/src/platform.rs\<close> and the crates of the three systems): the trait as a record
    of methods, its contract as the interface \<open>platform\<close>, which all three keep.

  \<^item> \<open>Agent_Start\<close> (\<open>scrooge-agent-bin/src/main.rs\<close>, \<open>enroll.rs\<close>), \<open>Cli\<close> (\<open>scrooge-cli/src/main.rs\<close>),
    \<open>Manager_Start\<close> (\<open>scrooge-manager-bin/src/main.rs\<close>): the three binaries up to their loops; agent,
    authority and manager together from the first start to an accepted stream, and from \<open>init-ca\<close> to a
    running manager. That tonic takes the certificate and key it is given is a parameter, with the contract that
    it takes a certificate together with the key it was signed for.

  \<^item> \<open>Pipeline\<close>, \<open>Live_Policy\<close>: agent and manager together, a policy from the table to the agent's disk and
    back as an acknowledgement, an event from the agent's queue to the manager's table; a change of a policy
    while agents are connected, and what two changes at the same time do.

  \<^item> \<open>Classifier_Tests\<close>, \<open>Unit_Tests\<close>: the unit tests of the repository, module by module as lists of assertions
    on the model, and that they pass: a check of the model against what the authors of the code expect of it. Left out
    are the tests of what is a parameter here (YAML syntax, MessagePack, certificates, bcrypt, whole templates, files
    on disk) and the scans of IBANs and of a text with two cards, too long for the kernel to evaluate.

  \<^bold>\<open>Concurrency.\<close> These theories put the parts side by side.

  \<^item> \<open>Statements\<close>, \<open>Schema\<close>: PostgreSQL runs the statements of all handlers one at a time, in any order.
    \<open>stmt\<close> has a rule for each statement that writes, every operation is shown to be a run of such statements
    (\<open>operate\<close>), and what each statement keeps holds under every interleaving, down to single statements: the
    keys, references, checks and ranges of \<open>src/migrations\<close> (\<open>schema\<close>), the permanence of the records (\<open>kept\<close>) and
    what no constraint of the tables demands and only the code vouches for (\<open>vouched\<close>) are the three instances of the
    interface \<open>statement_invariant\<close>, whose consequences for operations and runs are proved once.

  \<^item> \<open>System\<close>, \<open>Provenance\<close>: the running manager of \<open>scrooge-manager-bin/src/main.rs\<close>, with its REST server, its
    streams, the command bridge and the push bridge as one step relation (\<open>run_step\<close>) whose steps are a request, the
    check and the rest of an enrollment, a message, and each statement or send of a first push or of a turn of the push
    bridge. Invariants over all its runs trace every command and every policy in
    the channel of an agent, and every agent itself, back to a request of an administrator or to \<open>scroogectl\<close>.
    A request is one step here; the overlap of its statements is what \<open>Schema\<close> and the races are about.

  \<^item> \<open>Session\<close>: the agent over its sessions (\<open>scrooge-agent-bin/src/stream.rs\<close>), with heartbeat, uploader and inbound
    loop on one channel and monitors enqueuing with and without a session (\<open>agent_step\<close>). The composed operations
    (\<open>apply_policies\<close>, \<open>handle_inbound\<close>, \<open>drain_once\<close>) are runs of its steps.

  \<^item> \<open>Late_Push\<close>: a first push that overlaps with a change and its broadcast, up to the acknowledgements of the agent.

  \<^item> \<open>Backpressure\<close>: the command bridge with the bounds of its channels and its waits for room (\<open>bridge_step\<close>).

  \<^item> \<open>Link\<close>: one stream from end to end with the bounds of its channels (\<open>link_step\<close>), in which the loops of agent and
    manager can wait for each other for ever; what the transport holds in each direction is a parameter.

  \<^bold>\<open>Bounds.\<close> The queue's ids stop at \<open>2^63 - 1\<close> as SQLite's do; a drain takes 50 events; the push queue of
  the API is bounded by \<open>px_capacity\<close>; the other channels between tasks are unbounded, since a full one only
  delays its sender, but in \<open>Backpressure\<close> and \<open>Link\<close>, which are about that delay. A handler runs its statements
  one after the other; where another request can run between two of them and that matters, the handler is split
  (\<open>enroll_check\<close> and \<open>enroll_finish\<close>, \<open>refresh_check\<close> and \<open>refresh_finish\<close>, \<open>push_turn\<close>) and the overlap is a
  theorem.

  \<^bold>\<open>Not modelled.\<close> Signals of the two binaries, the servers of axum and tonic, logging, the Swagger pages and
  CORS, the text of the install templates but for the assignments of the Linux one, the dashboard's HTML
  and JavaScript, the empty crates, generated code, and the tests named above.
\<close>

end
